(* ===== verification/Prelude.thy ===== *)
theory Prelude
  imports Main "HOL-Library.Word" "HOL-Library.AList"
begin

unbundle bit_operations_syntax

text \<open>
  Shared vocabulary of the development: the machine-integer conventions, the result type
  \<open>'e + 'a\<close> with its sequencing operator, association lists as the model of the program's
  key/value containers, and cyclic distances on a ring of slots. The lemmas here are generic;
  nothing in this theory models a particular source file.
\<close>

named_theorems alist_simps \<open>lookup laws of association lists\<close>

section \<open>Machine integers\<close>

text \<open>
  Rust's \<open>usize\<close> and \<open>u64\<close> counters are natural numbers with the bound written out where the
  code checks or saturates; \<open>i64\<close> quantities that the code only compares and increments under
  a check are integers.
\<close>

type_synonym i64 = "64 word"
type_synonym u64 = nat

abbreviation u64_max :: nat where
  "u64_max \<equiv> 2 ^ 64 - 1"

abbreviation i64_max :: int where
  "i64_max \<equiv> 2 ^ 63 - 1"

abbreviation i64_min :: int where
  "i64_min \<equiv> - (2 ^ 63)"

definition checked_add_u64 :: "nat \<Rightarrow> nat \<Rightarrow> nat option" where
  "checked_add_u64 a b = (if a + b \<le> u64_max then Some (a + b) else None)"

definition checked_mul_u64 :: "nat \<Rightarrow> nat \<Rightarrow> nat option" where
  "checked_mul_u64 a b = (if a * b \<le> u64_max then Some (a * b) else None)"

definition saturating_add_u64 :: "nat \<Rightarrow> nat \<Rightarrow> nat" where
  "saturating_add_u64 a b = min (a + b) u64_max"

definition saturating_mul_u64 :: "nat \<Rightarrow> nat \<Rightarrow> nat" where
  "saturating_mul_u64 a b = min (a * b) u64_max"

definition checked_add_i64 :: "int \<Rightarrow> int \<Rightarrow> int option" where
  "checked_add_i64 a b = (if i64_min \<le> a + b \<and> a + b \<le> i64_max then Some (a + b) else None)"

definition checked_sub_i64 :: "int \<Rightarrow> int \<Rightarrow> int option" where
  "checked_sub_i64 a b = (if i64_min \<le> a - b \<and> a - b \<le> i64_max then Some (a - b) else None)"

lemma checked_add_u64_Some [simp]:
  "checked_add_u64 a b = Some c \<longleftrightarrow> c = a + b \<and> a + b \<le> u64_max"
  by (auto simp: checked_add_u64_def)

lemma checked_add_i64_Some:
  "checked_add_i64 a b = Some c \<longleftrightarrow> c = a + b \<and> i64_min \<le> a + b \<and> a + b \<le> i64_max"
  by (auto simp: checked_add_i64_def)

section \<open>Results\<close>

type_synonym ('e, 'a) result = "'e + 'a"

definition rbind :: "('e, 'a) result \<Rightarrow> ('a \<Rightarrow> ('e, 'b) result) \<Rightarrow> ('e, 'b) result" where
  "rbind r f = (case r of Inl e \<Rightarrow> Inl e | Inr x \<Rightarrow> f x)"

lemma rbind_simps [simp]:
  "rbind (Inl e) f = Inl e"
  "rbind (Inr x) f = f x"
  by (simp_all add: rbind_def)

lemma rbind_eq_Inr [simp]:
  "rbind r f = Inr y \<longleftrightarrow> (\<exists>x. r = Inr x \<and> f x = Inr y)"
  by (cases r) simp_all

lemma rbind_eq_Inl:
  "rbind r f = Inl e \<longleftrightarrow> r = Inl e \<or> (\<exists>x. r = Inr x \<and> f x = Inl e)"
  by (cases r) simp_all

lemma rbind_cong [cong]:
  "r = s \<Longrightarrow> (\<And>x. s = Inr x \<Longrightarrow> f x = g x) \<Longrightarrow> rbind r f = rbind s g"
  by (cases s) simp_all

text \<open>A check that fails with a given error: the code's \<open>if bad then return Err(e)\<close>.\<close>

definition guard_res :: "bool \<Rightarrow> 'e \<Rightarrow> ('e, unit) result" where
  "guard_res ok e = (if ok then Inr () else Inl e)"

lemma guard_res_Inr [simp]: "guard_res ok e = Inr u \<longleftrightarrow> ok"
  by (simp add: guard_res_def)

lemma guard_res_True [simp]: "guard_res True e = Inr ()"
  by (simp add: guard_res_def)

lemma guard_res_False [simp]: "guard_res False e = Inl e"
  by (simp add: guard_res_def)

text \<open>\<open>iter().map(f).collect::<Result<Vec<_>, _>>()\<close> and \<open>for x in xs { f(x)?; }\<close>.\<close>

fun map_res :: "('a \<Rightarrow> ('e, 'b) result) \<Rightarrow> 'a list \<Rightarrow> ('e, 'b list) result" where
  "map_res f [] = Inr []"
| "map_res f (x # xs) = rbind (f x) (\<lambda>y. rbind (map_res f xs) (\<lambda>ys. Inr (y # ys)))"

fun each_res :: "('a \<Rightarrow> ('e, unit) result) \<Rightarrow> 'a list \<Rightarrow> ('e, unit) result" where
  "each_res f [] = Inr ()"
| "each_res f (x # xs) = rbind (f x) (\<lambda>_. each_res f xs)"

lemma map_res_Inr:
  "map_res f xs = Inr ys \<Longrightarrow> list_all2 (\<lambda>x y. f x = Inr y) xs ys"
  by (induction xs arbitrary: ys) auto

lemma map_res_length: "map_res f xs = Inr ys \<Longrightarrow> length ys = length xs"
  by (induction xs arbitrary: ys) auto

lemma map_res_Inl: "map_res f xs = Inl e \<Longrightarrow> \<exists>x\<in>set xs. f x = Inl e"
  by (induction xs) (auto simp: rbind_eq_Inl)

lemma each_res_Inr [simp]: "each_res f xs = Inr u \<longleftrightarrow> (\<forall>x\<in>set xs. f x = Inr ())"
  by (induction xs) auto

section \<open>Association lists\<close>

lemma map_of_update [simp, alist_simps]:
  "map_of (AList.update k v xs) k' = (if k' = k then Some v else map_of xs k')"
  by (simp add: update_conv')

lemma map_of_delete [simp, alist_simps]:
  "map_of (AList.delete k xs) k' = (if k' = k then None else map_of xs k')"
  by (simp add: delete_conv')

lemma map_of_filter_keyed [alist_simps]:
  "distinct (map fst xs) \<Longrightarrow>
   map_of (filter (\<lambda>(k, v). P k v) xs) k =
     (case map_of xs k of None \<Rightarrow> None | Some v \<Rightarrow> if P k v then Some v else None)"
  by (induction xs) (auto split: option.splits dest: map_of_SomeD simp: image_iff)

lemma distinct_filter_fst:
  "distinct (map fst xs) \<Longrightarrow> distinct (map fst (filter P xs))"
  by (induction xs) auto

lemma in_set_map_of:
  "distinct (map fst xs) \<Longrightarrow> (k, v) \<in> set xs \<longleftrightarrow> map_of xs k = Some v"
  by (rule map_of_eq_Some_iff [symmetric])

lemma map_of_in_keys: "k \<in> fst ` set xs \<longleftrightarrow> map_of xs k \<noteq> None"
  by (auto simp: map_of_eq_None_iff)

section \<open>Cyclic distance\<close>

text \<open>
  Slots of a table of capacity \<open>n\<close> form a ring. \<open>cdist n a b\<close> is the number of forward steps
  from slot \<open>a\<close> to slot \<open>b\<close>.
\<close>

definition cdist :: "nat \<Rightarrow> nat \<Rightarrow> nat \<Rightarrow> nat" where
  "cdist n a b = (if a \<le> b then b - a else b + n - a)"

lemma cdist_lt: "a < n \<Longrightarrow> b < n \<Longrightarrow> cdist n a b < n"
  by (auto simp: cdist_def)

lemma cdist_self [simp]: "cdist n a a = 0"
  by (simp add: cdist_def)

lemma cdist_eq_0: "a < n \<Longrightarrow> b < n \<Longrightarrow> cdist n a b = 0 \<longleftrightarrow> a = b"
  by (auto simp: cdist_def)

lemma cdist_inj: "a < n \<Longrightarrow> b < n \<Longrightarrow> c < n \<Longrightarrow> cdist n a b = cdist n a c \<longleftrightarrow> b = c"
  by (auto simp: cdist_def)

lemma cdist_add: "a < n \<Longrightarrow> b < n \<Longrightarrow> (a + cdist n a b) mod n = b"
  by (auto simp: cdist_def)

lemma cdist_step: "a < n \<Longrightarrow> d < n \<Longrightarrow> cdist n a ((a + d) mod n) = d"
  by (cases "a + d < n") (auto simp: cdist_def mod_if)

lemma cdist_Suc:
  "a < n \<Longrightarrow> b < n \<Longrightarrow> Suc (cdist n a b) < n \<Longrightarrow> cdist n a (Suc b mod n) = Suc (cdist n a b)"
  by (cases "Suc b = n") (auto simp: cdist_def split: if_splits)

lemma cdist_triangle:
  "a < n \<Longrightarrow> b < n \<Longrightarrow> c < n \<Longrightarrow> cdist n a b \<le> cdist n a c \<Longrightarrow>
   cdist n a c = cdist n a b + cdist n b c"
  by (auto simp: cdist_def split: if_splits)

lemma cdist_trans:
  "a < n \<Longrightarrow> b < n \<Longrightarrow> c < n \<Longrightarrow> cdist n a b + cdist n b c < n \<Longrightarrow>
   cdist n a c = cdist n a b + cdist n b c"
  by (auto simp: cdist_def split: if_splits)

lemma cdist_pred:
  "a < n \<Longrightarrow> b < n \<Longrightarrow> a \<noteq> b \<Longrightarrow> cdist n (Suc a mod n) b = cdist n a b - 1"
  by (cases "Suc a = n") (auto simp: cdist_def split: if_splits)

lemma between_iff_cdist:
  "h < n \<Longrightarrow> e < n \<Longrightarrow> x < n \<Longrightarrow>
   (if h \<le> x then h \<le> e \<and> e < x else h \<le> e \<or> e < x) \<longleftrightarrow> cdist n h e < cdist n h x"
  by (auto simp: cdist_def)

section \<open>Filters and updates by index\<close>

lemma length_filter_update:
  "i < length xs \<Longrightarrow>
   length (filter P (xs[i := x])) + (if P (xs ! i) then 1 else 0) =
   length (filter P xs) + (if P x then 1 else 0)"
proof (induction xs arbitrary: i)
  case (Cons y ys)
  show ?case
  proof (cases i)
    case (Suc j)
    then show ?thesis using Cons.IH [of j] Cons.prems by simp
  qed simp
qed simp

lemma distinct_filter_nth:
  "distinct (map f (filter P xs)) \<longleftrightarrow>
   (\<forall>i j. i < j \<longrightarrow> j < length xs \<longrightarrow> P (xs ! i) \<longrightarrow> P (xs ! j) \<longrightarrow> f (xs ! i) \<noteq> f (xs ! j))"
proof (induction xs)
  case Nil
  then show ?case by simp
next
  case (Cons x xs)
  show ?case (is "_ \<longleftrightarrow> ?R (x # xs)")
  proof -
    have "?R (x # xs) \<longleftrightarrow> (P x \<longrightarrow> (\<forall>j<length xs. P (xs ! j) \<longrightarrow> f x \<noteq> f (xs ! j))) \<and> ?R xs"
      by (auto simp: nth_Cons less_Suc_eq_0_disj split: nat.splits)
    also have "\<dots> \<longleftrightarrow> (P x \<longrightarrow> f x \<notin> f ` set (filter P xs)) \<and> distinct (map f (filter P xs))"
      unfolding Cons.IH by (auto simp: in_set_conv_nth image_iff)
    also have "\<dots> \<longleftrightarrow> distinct (map f (filter P (x # xs)))" by auto
    finally show ?thesis by simp
  qed
qed

section \<open>Binary search\<close>

text \<open>
  \<open>slice::binary_search\<close> of the standard library: the search keeps a base and a size and halves
  the size until one element is left. \<open>bsearch_hit\<close> is \<open>binary_search(..).is_ok()\<close>.
\<close>

function bsearch_loop :: "'a :: linorder list \<Rightarrow> 'a \<Rightarrow> nat \<Rightarrow> nat \<Rightarrow> nat" where
  "bsearch_loop xs key base sz =
     (if sz \<le> 1 then base
      else bsearch_loop xs key (if xs ! (base + sz div 2) > key then base else base + sz div 2)
             (sz - sz div 2))"
  by pat_completeness auto
termination
  by (relation "measure (\<lambda>(xs, key, base, sz). sz)") auto

declare bsearch_loop.simps [simp del]

definition bsearch_hit :: "'a :: linorder list \<Rightarrow> 'a \<Rightarrow> bool" where
  "bsearch_hit xs key \<longleftrightarrow> xs \<noteq> [] \<and> xs ! bsearch_loop xs key 0 (length xs) = key"

lemma bsearch_loop_range:
  "0 < sz \<Longrightarrow> base + sz \<le> length xs \<Longrightarrow>
   base \<le> bsearch_loop xs key base sz \<and> bsearch_loop xs key base sz < base + sz"
proof (induction xs key base sz rule: bsearch_loop.induct)
  case (1 xs key base sz)
  show ?case
  proof (cases "sz \<le> 1")
    case True
    then show ?thesis using "1.prems" by (subst (1 2) bsearch_loop.simps) auto
  next
    case False
    let ?b = "if xs ! (base + sz div 2) > key then base else base + sz div 2"
    let ?r = "bsearch_loop xs key ?b (sz - sz div 2)"
    have b: "base \<le> ?b" "?b + (sz - sz div 2) \<le> base + sz" by auto
    have "?b \<le> ?r \<and> ?r < ?b + (sz - sz div 2)"
      by (rule "1.IH" [OF False]) (use False b "1.prems" in linarith)+
    moreover have "bsearch_loop xs key base sz = ?r" using False by (subst bsearch_loop.simps) simp
    ultimately show ?thesis using b by linarith
  qed
qed

lemma bsearch_loop_finds:
  assumes "sorted xs" "base \<le> i" "i < base + sz" "base + sz \<le> length xs" "xs ! i = key"
  shows "xs ! bsearch_loop xs key base sz = key"
  using assms
proof (induction xs key base sz arbitrary: i rule: bsearch_loop.induct)
  case (1 xs key base sz)
  show ?case
  proof (cases "sz \<le> 1")
    case True
    then have "i = base" using "1.prems" by simp
    then show ?thesis using True "1.prems"(5) by (subst bsearch_loop.simps) simp
  next
    case False
    let ?m = "base + sz div 2"
    have m: "?m < base + sz" using False by simp
    note IH = "1.IH" [OF False]
    show ?thesis
    proof (cases "xs ! ?m > key")
      case gt: True
      have "i < ?m"
        using sorted_nth_mono [OF "1.prems"(1), of ?m i] gt "1.prems" by (meson leD le_less_linear order_less_le_trans)
      then have "xs ! bsearch_loop xs key base (sz - sz div 2) = key"
        using IH [of i] "1.prems" gt by simp
      then show ?thesis using gt False by (subst bsearch_loop.simps) simp
    next
      case le: False
      define i' where "i' = max i ?m"
      have "xs ! i' = key"
      proof (cases "i \<le> ?m")
        case True
        have "xs ! i \<le> xs ! ?m"
          using sorted_nth_mono [OF "1.prems"(1) True] m "1.prems"(4) by simp
        then show ?thesis using le True "1.prems"(5) by (simp add: i'_def max_def)
      qed (use "1.prems"(5) in \<open>simp add: i'_def max_def\<close>)
      moreover have "?m \<le> i'" "i' < ?m + (sz - sz div 2)" "?m + (sz - sz div 2) \<le> length xs"
        using "1.prems"(3,4) m by (auto simp: i'_def)
      ultimately have "xs ! bsearch_loop xs key ?m (sz - sz div 2) = key"
        using IH [of i'] "1.prems"(1) le by simp
      then show ?thesis using le False by (subst bsearch_loop.simps) simp
    qed
  qed
qed

lemma bsearch_hit_iff: "sorted xs \<Longrightarrow> bsearch_hit xs key \<longleftrightarrow> key \<in> set xs"
proof
  assume "bsearch_hit xs key"
  then show "key \<in> set xs"
    using bsearch_loop_range [of "length xs" 0 xs key] by (auto simp: bsearch_hit_def in_set_conv_nth)
next
  assume "sorted xs" "key \<in> set xs"
  then obtain i where "i < length xs" "xs ! i = key" by (auto simp: in_set_conv_nth)
  then show "bsearch_hit xs key"
    using bsearch_loop_finds [OF \<open>sorted xs\<close>, of 0 i "length xs" key] by (auto simp: bsearch_hit_def)
qed

end
