(* ===== verification/I64_Map.thy ===== *)
theory I64_Map
  imports Prelude
begin

text \<open>
  The open-addressing hash map \<open>I64Map\<close> of \<open>crates/radixdb-core/src/i64_map.rs\<close>, which the
  storage engine uses for transaction and row indexes. Keys are 64-bit words; the word
  \<open>i64::MIN\<close> marks an empty slot and is itself stored out of band in \<open>min_value\<close>. A slot's
  \<open>MaybeUninit\<close> value is an option: \<open>None\<close> is memory that was never written, and reading it
  would be undefined behaviour. A probing loop that would not terminate has the result
  \<open>Diverges\<close> (or \<open>None\<close>), so that termination is something to prove.
\<close>

section \<open>The data structure\<close>

definition MIN_CAPACITY :: nat where
  "MIN_CAPACITY = 8"

definition LOAD_FACTOR_NUM :: nat where
  "LOAD_FACTOR_NUM = 3"

definition LOAD_FACTOR_DEN :: nat where
  "LOAD_FACTOR_DEN = 4"

definition SHRINK_DIVISOR :: nat where
  "SHRINK_DIVISOR = 4"

definition MIN_SHRINK_CAPACITY :: nat where
  "MIN_SHRINK_CAPACITY = 64"

definition EMPTY :: i64 where
  "EMPTY = 0x8000000000000000"

datatype 'v slot = Slot (skey: i64) (sval: "'v option")

record 'v i64_map =
  m_slots :: "'v slot list"
  m_min :: "'v option"
  m_len :: nat
  m_mask :: nat

text \<open>\<open>usize::next_power_of_two\<close>: the least power of two that is at least \<open>n\<close>.\<close>

function pow2_above :: "nat \<Rightarrow> nat \<Rightarrow> nat" where
  "pow2_above p n = (if n \<le> p \<or> p = 0 then p else pow2_above (2 * p) n)"
  by pat_completeness auto
termination
  by (relation "measure (\<lambda>(p, n). n - p)") auto

declare pow2_above.simps [simp del]

definition next_power_of_two :: "nat \<Rightarrow> nat" where
  "next_power_of_two n = pow2_above 1 n"

text \<open>The capacity for a number of entries: the expression shared by \<open>with_capacity\<close>,
  \<open>reserve\<close> and \<open>shrink\<close>.\<close>

definition capacity_for :: "nat \<Rightarrow> nat" where
  "capacity_for n =
     (if n = 0 then MIN_CAPACITY
      else max (next_power_of_two (saturating_mul_u64 n LOAD_FACTOR_DEN div LOAD_FACTOR_NUM))
             MIN_CAPACITY)"

definition fresh_slots :: "nat \<Rightarrow> 'v slot list" where
  "fresh_slots cap = replicate cap (Slot EMPTY None)"

definition with_capacity :: "nat \<Rightarrow> 'v i64_map" where
  "with_capacity capacity =
     (let cap = capacity_for capacity
      in \<lparr>m_slots = fresh_slots cap, m_min = None, m_len = 0, m_mask = cap - 1\<rparr>)"

definition new_map :: "'v i64_map" where
  "new_map = with_capacity 0"

definition is_empty_map :: "'v i64_map \<Rightarrow> bool" where
  "is_empty_map M \<longleftrightarrow> m_len M = 0"

definition i64_hash :: "i64 \<Rightarrow> nat" where
  "i64_hash key = (let k = key XOR drop_bit 16 key in unat (k * 0x517cc1b727220a95))"

section \<open>Probing\<close>

datatype probe = Found nat | Vacant nat | Diverges

text \<open>
  The loop shared by \<open>insert\<close>, \<open>get\<close>, \<open>get_mut\<close>, \<open>remove\<close> and \<open>entry\<close>. Its last argument
  counts the slots still to visit; a loop that has visited every slot without finding the key
  or an empty slot repeats forever.
\<close>

fun probe_from :: "'v slot list \<Rightarrow> nat \<Rightarrow> i64 \<Rightarrow> nat \<Rightarrow> nat \<Rightarrow> probe" where
  "probe_from sl msk key idx 0 = Diverges"
| "probe_from sl msk key idx (Suc n) =
     (if skey (sl ! idx) = EMPTY then Vacant idx
      else if skey (sl ! idx) = key then Found idx
      else probe_from sl msk key ((idx + 1) AND msk) n)"

definition probe :: "'v i64_map \<Rightarrow> i64 \<Rightarrow> probe" where
  "probe M key =
     probe_from (m_slots M) (m_mask M) key (i64_hash key AND m_mask M) (length (m_slots M))"

section \<open>Operations\<close>

definition get :: "'v i64_map \<Rightarrow> i64 \<Rightarrow> 'v option option" where
  "get M key =
     (if key = EMPTY then Some (m_min M)
      else case probe M key of
             Vacant _ \<Rightarrow> Some None
           | Found idx \<Rightarrow> Some (sval (m_slots M ! idx))
           | Diverges \<Rightarrow> None)"

definition contains_key :: "'v i64_map \<Rightarrow> i64 \<Rightarrow> bool option" where
  "contains_key M key = map_option (\<lambda>r. r \<noteq> None) (get M key)"

text \<open>\<open>get_mut\<close> hands out a reference; \<open>modify\<close> is \<open>get_mut\<close> followed by a write through it.\<close>

definition modify :: "'v i64_map \<Rightarrow> i64 \<Rightarrow> ('v \<Rightarrow> 'v) \<Rightarrow> 'v i64_map option" where
  "modify M key f =
     (if key = EMPTY then Some (M\<lparr>m_min := map_option f (m_min M)\<rparr>)
      else case probe M key of
             Vacant _ \<Rightarrow> Some M
           | Found idx \<Rightarrow>
               Some (M\<lparr>m_slots := (m_slots M)[idx :=
                 Slot (skey (m_slots M ! idx)) (map_option f (sval (m_slots M ! idx)))]\<rparr>)
           | Diverges \<Rightarrow> None)"

definition needs_grow :: "'v i64_map \<Rightarrow> bool" where
  "needs_grow M \<longleftrightarrow>
     length (m_slots M) * LOAD_FACTOR_NUM \<le> m_len M * LOAD_FACTOR_DEN"

definition put :: "i64 \<Rightarrow> 'v \<Rightarrow> 'v i64_map \<Rightarrow> ('v option \<times> 'v i64_map) option" where
  "put key value M =
     (case probe M key of
        Vacant idx \<Rightarrow>
          Some (None, M\<lparr>m_slots := (m_slots M)[idx := Slot key (Some value)],
                        m_len := m_len M + 1\<rparr>)
      | Found idx \<Rightarrow>
          Some (sval (m_slots M ! idx),
                M\<lparr>m_slots := (m_slots M)[idx := Slot (skey (m_slots M ! idx)) (Some value)]\<rparr>)
      | Diverges \<Rightarrow> None)"

text \<open>A table of a new capacity that keeps only the out-of-band entry: the common prefix of
  \<open>grow\<close>, \<open>shrink\<close> and \<open>reserve\<close>.\<close>

definition resized :: "nat \<Rightarrow> 'v i64_map \<Rightarrow> 'v i64_map" where
  "resized new_cap M =
     M\<lparr>m_slots := fresh_slots new_cap,
       m_len := (if m_min M = None then 0 else 1),
       m_mask := new_cap - 1\<rparr>"

text \<open>
  \<open>insert\<close> calls \<open>grow\<close>, which re-inserts every entry through \<open>insert\<close>. The first argument
  bounds how deep growth may nest; \<open>None\<close> is running out of it.
\<close>

function (sequential)
  insert_d :: "nat \<Rightarrow> i64 \<Rightarrow> 'v \<Rightarrow> 'v i64_map \<Rightarrow> ('v option \<times> 'v i64_map) option"
  and reinsert_d :: "nat \<Rightarrow> 'v slot list \<Rightarrow> 'v i64_map \<Rightarrow> 'v i64_map option"
where
  "insert_d d key value M =
     (if key = EMPTY then
        Some (m_min M, M\<lparr>m_min := Some value,
                         m_len := (if m_min M = None then m_len M + 1 else m_len M)\<rparr>)
      else if needs_grow M then
        (case d of
           0 \<Rightarrow> None
         | Suc d' \<Rightarrow>
             (case reinsert_d d' (m_slots M)
                     (resized (max (length (m_slots M) * 2) MIN_CAPACITY) M) of
                None \<Rightarrow> None
              | Some M' \<Rightarrow> put key value M'))
      else put key value M)"
| "reinsert_d d [] M = Some M"
| "reinsert_d d (s # ss) M =
     (if skey s = EMPTY then reinsert_d d ss M
      else case sval s of
             None \<Rightarrow> None
           | Some v \<Rightarrow>
               (case insert_d d (skey s) v M of
                  None \<Rightarrow> None
                | Some (_, M') \<Rightarrow> reinsert_d d ss M'))"
  by pat_completeness auto
termination
  by (relation "measures [\<lambda>x. case x of Inl (d, _) \<Rightarrow> d | Inr (d, _) \<Rightarrow> d,
                          \<lambda>x. case x of Inl _ \<Rightarrow> 0 | Inr (_, ss, _) \<Rightarrow> Suc (length ss)]") auto

declare insert_d.simps [simp del]

definition grow_depth :: nat where
  "grow_depth = 1"

definition insert_map :: "i64 \<Rightarrow> 'v \<Rightarrow> 'v i64_map \<Rightarrow> ('v option \<times> 'v i64_map) option" where
  "insert_map key value M = insert_d grow_depth key value M"

definition grow :: "'v i64_map \<Rightarrow> 'v i64_map option" where
  "grow M = reinsert_d grow_depth (m_slots M)
              (resized (max (length (m_slots M) * 2) MIN_CAPACITY) M)"

definition should_shrink :: "'v i64_map \<Rightarrow> bool" where
  "should_shrink M \<longleftrightarrow>
     MIN_SHRINK_CAPACITY < length (m_slots M) \<and> m_len M < length (m_slots M) div SHRINK_DIVISOR"

definition shrink :: "'v i64_map \<Rightarrow> 'v i64_map option" where
  "shrink M =
     (let new_cap = capacity_for (m_len M)
      in if length (m_slots M) \<le> new_cap then Some M
         else reinsert_d grow_depth (m_slots M) (resized new_cap M))"

definition reserve :: "'v i64_map \<Rightarrow> nat \<Rightarrow> 'v i64_map option" where
  "reserve M additional =
     (let target_cap = capacity_for (m_len M + additional)
      in if target_cap \<le> length (m_slots M) then Some M
         else reinsert_d grow_depth (m_slots M) (resized target_cap M))"

text \<open>Backward-shift deletion: the loop of \<open>remove\<close> after the key was found at \<open>empty_idx\<close>.\<close>

fun backward_shift ::
  "'v slot list \<Rightarrow> nat \<Rightarrow> nat \<Rightarrow> nat \<Rightarrow> nat \<Rightarrow> ('v slot list \<times> nat) option" where
  "backward_shift sl msk empty_idx next_idx 0 = None"
| "backward_shift sl msk empty_idx next_idx (Suc n) =
     (if skey (sl ! next_idx) = EMPTY then Some (sl, empty_idx)
      else
        let next_home = i64_hash (skey (sl ! next_idx)) AND msk;
            can_move = (if next_home \<le> next_idx
                        then next_home \<le> empty_idx \<and> empty_idx < next_idx
                        else next_home \<le> empty_idx \<or> empty_idx < next_idx)
        in if can_move
           then backward_shift (sl[empty_idx := sl ! next_idx]) msk next_idx
                  ((next_idx + 1) AND msk) n
           else backward_shift sl msk empty_idx ((next_idx + 1) AND msk) n)"

definition remove_at :: "'v i64_map \<Rightarrow> nat \<Rightarrow> 'v i64_map option" where
  "remove_at M idx =
     (case backward_shift (m_slots M) (m_mask M) idx ((idx + 1) AND m_mask M)
             (length (m_slots M)) of
        None \<Rightarrow> None
      | Some (sl, e) \<Rightarrow>
          Some (M\<lparr>m_slots := sl[e := Slot EMPTY (sval (sl ! e))], m_len := m_len M - 1\<rparr>))"

definition shrink_if_sparse :: "'v i64_map \<Rightarrow> 'v i64_map option" where
  "shrink_if_sparse M = (if should_shrink M then shrink M else Some M)"

definition remove_map :: "i64 \<Rightarrow> 'v i64_map \<Rightarrow> ('v option \<times> 'v i64_map) option" where
  "remove_map key M =
     (if key = EMPTY then
        (case m_min M of
           None \<Rightarrow> Some (None, M)
         | Some value \<Rightarrow>
             map_option (Pair (Some value))
               (shrink_if_sparse (M\<lparr>m_min := None, m_len := m_len M - 1\<rparr>)))
      else
        (case probe M key of
           Vacant _ \<Rightarrow> Some (None, M)
         | Found idx \<Rightarrow>
             (case remove_at M idx of
                None \<Rightarrow> None
              | Some M' \<Rightarrow> map_option (Pair (sval (m_slots M ! idx))) (shrink_if_sparse M'))
         | Diverges \<Rightarrow> None))"

definition clear_map :: "'v i64_map \<Rightarrow> 'v i64_map" where
  "clear_map M =
     M\<lparr>m_min := None,
       m_slots := map (\<lambda>s. Slot EMPTY (sval s)) (m_slots M),
       m_len := m_len M - (if m_min M = None then 0 else 1)
                - length (filter (\<lambda>s. skey s \<noteq> EMPTY) (m_slots M))\<rparr>"

definition slot_entry :: "'v slot \<Rightarrow> (i64 \<times> 'v) option" where
  "slot_entry s = (if skey s = EMPTY then None else map_option (Pair (skey s)) (sval s))"

definition entries :: "'v i64_map \<Rightarrow> (i64 \<times> 'v) list" where
  "entries M =
     (case m_min M of None \<Rightarrow> [] | Some v \<Rightarrow> [(EMPTY, v)]) @ List.map_filter slot_entry (m_slots M)"

definition map_keys :: "'v i64_map \<Rightarrow> i64 list" where
  "map_keys M =
     (case m_min M of None \<Rightarrow> [] | Some v \<Rightarrow> [EMPTY]) @
     map skey (filter (\<lambda>s. skey s \<noteq> EMPTY) (m_slots M))"

text \<open>\<open>retain\<close> takes a closure that may change the value and says whether to keep the entry.\<close>

fun remove_all :: "i64 list \<Rightarrow> 'v i64_map \<Rightarrow> 'v i64_map option" where
  "remove_all [] M = Some M"
| "remove_all (k # ks) M =
     (case remove_map k M of None \<Rightarrow> None | Some (_, M') \<Rightarrow> remove_all ks M')"

definition retain_slot :: "(i64 \<Rightarrow> 'v \<Rightarrow> bool \<times> 'v) \<Rightarrow> 'v slot \<Rightarrow> 'v slot" where
  "retain_slot f s =
     (if skey s = EMPTY then s
      else Slot (skey s) (map_option (\<lambda>v. snd (f (skey s) v)) (sval s)))"

definition dropped_keys :: "(i64 \<Rightarrow> 'v \<Rightarrow> bool \<times> 'v) \<Rightarrow> 'v slot list \<Rightarrow> i64 list" where
  "dropped_keys f sl =
     List.map_filter (\<lambda>s. case slot_entry s of
         None \<Rightarrow> None
       | Some (k, v) \<Rightarrow> if fst (f k v) then None else Some k) sl"

definition retain :: "(i64 \<Rightarrow> 'v \<Rightarrow> bool \<times> 'v) \<Rightarrow> 'v i64_map \<Rightarrow> 'v i64_map option" where
  "retain f M =
     (let M1 = (case m_min M of
                  None \<Rightarrow> M
                | Some v \<Rightarrow>
                    (case f EMPTY v of
                       (True, v') \<Rightarrow> M\<lparr>m_min := Some v'\<rparr>
                     | (False, _) \<Rightarrow> M\<lparr>m_min := None, m_len := m_len M - 1\<rparr>));
          M2 = M1\<lparr>m_slots := map (retain_slot f) (m_slots M1)\<rparr>
      in remove_all (dropped_keys f (m_slots M1)) M2)"

definition drain :: "'v i64_map \<Rightarrow> (i64 \<times> 'v) list \<times> 'v i64_map" where
  "drain M =
     (entries M, M\<lparr>m_slots := fresh_slots MIN_CAPACITY, m_min := None, m_len := 0,
                   m_mask := MIN_CAPACITY - 1\<rparr>)"

end
