(* ===== verification/I64_Map_Inv.thy ===== *)
theory I64_Map_Inv
  imports I64_Map
begin

text \<open>
  The representation invariant of \<open>I64Map\<close> and the correctness of its loops: probing returns,
  finds a stored key and otherwise stops at the empty slot where the key belongs; backward-shift
  deletion returns and restores the probing invariant.
\<close>

section \<open>Occupied slots and home positions\<close>

definition occ :: "'v slot list \<Rightarrow> nat \<Rightarrow> bool" where
  "occ sl i \<longleftrightarrow> skey (sl ! i) \<noteq> EMPTY"

definition home :: "nat \<Rightarrow> i64 \<Rightarrow> nat" where
  "home n k = i64_hash k mod n"

definition occ_count :: "'v slot list \<Rightarrow> nat" where
  "occ_count sl = length (filter (\<lambda>s. skey s \<noteq> EMPTY) sl)"

text \<open>Every slot on the way from a key's home to the key is occupied.\<close>

definition probe_ok :: "'v slot list \<Rightarrow> bool" where
  "probe_ok sl \<longleftrightarrow>
     (\<forall>j < length sl. occ sl j \<longrightarrow>
        (\<forall>p < length sl. cdist (length sl) (home (length sl) (skey (sl ! j))) p
                          < cdist (length sl) (home (length sl) (skey (sl ! j))) j \<longrightarrow> occ sl p))"

definition keys_once :: "'v slot list \<Rightarrow> bool" where
  "keys_once sl \<longleftrightarrow>
     (\<forall>i < length sl. \<forall>j < length sl. occ sl i \<longrightarrow> skey (sl ! i) = skey (sl ! j) \<longrightarrow> i = j)"

definition values_init :: "'v slot list \<Rightarrow> bool" where
  "values_init sl \<longleftrightarrow> (\<forall>i < length sl. occ sl i \<longrightarrow> sval (sl ! i) \<noteq> None)"

definition has_gap :: "'v slot list \<Rightarrow> bool" where
  "has_gap sl \<longleftrightarrow> (\<exists>i < length sl. \<not> occ sl i)"

definition pow2_size :: "nat \<Rightarrow> bool" where
  "pow2_size n \<longleftrightarrow> (\<exists>b. n = 2 ^ b)"

lemma pow2_size_pos [simp]: "pow2_size n \<Longrightarrow> 0 < n"
  by (auto simp: pow2_size_def)

lemma and_mask_mod: "pow2_size n \<Longrightarrow> x AND (n - Suc 0) = x mod n"
proof -
  assume "pow2_size n"
  then obtain b where b: "n = 2 ^ b" by (auto simp: pow2_size_def)
  have "x AND mask b = x mod 2 ^ b"
    by (simp add: take_bit_eq_mask [symmetric] take_bit_eq_mod)
  moreover have "mask b = n - Suc 0"
    using mask_eq_exp_minus_1 [of b, where 'a = nat] b by simp
  ultimately show ?thesis using b by simp
qed

lemma home_lt [simp]: "pow2_size n \<Longrightarrow> home n k < n"
  by (simp add: home_def)

lemma hash_and_mask: "pow2_size n \<Longrightarrow> i64_hash k AND (n - Suc 0) = home n k"
  by (simp add: and_mask_mod home_def)

section \<open>Probing terminates and is exact\<close>

lemma ring_full_contra:
  assumes "h < n" "i < n" "Suc (cdist n h i) \<ge> n"
    and before: "\<And>p. p < n \<Longrightarrow> cdist n h p < cdist n h i \<Longrightarrow> Q p" and here: "Q i"
    and "p < n"
  shows "Q p"
proof -
  have "cdist n h p < n" "cdist n h i < n"
    using assms by (auto intro: cdist_lt)
  then have "cdist n h p < cdist n h i \<or> cdist n h p = cdist n h i"
    using assms(3) by linarith
  then show ?thesis
    using assms by (auto simp: cdist_inj)
qed

lemma before_Suc:
  assumes "h < n" "i < n" "Suc (cdist n h i) < n" "p < n"
    and "cdist n h p < cdist n h (Suc i mod n)"
  shows "cdist n h p < cdist n h i \<or> p = i"
  using assms cdist_Suc [of h n i] cdist_inj [of h n p i] by (auto simp: less_Suc_eq)

lemma probe_from_spec:
  fixes sl :: "'v slot list"
  defines "n \<equiv> length sl"
  assumes n: "pow2_size n" and h: "h < n" and gap: "has_gap sl"
    and i: "i < n" and fuel: "n - cdist n h i \<le> fuel"
    and before: "\<And>p. p < n \<Longrightarrow> cdist n h p < cdist n h i \<Longrightarrow> occ sl p \<and> skey (sl ! p) \<noteq> k"
  shows "(\<exists>j<n. probe_from sl (n - 1) k i fuel = Found j \<and> occ sl j \<and> skey (sl ! j) = k) \<or>
         (\<exists>j<n. probe_from sl (n - 1) k i fuel = Vacant j \<and> \<not> occ sl j \<and>
            (\<forall>p<n. cdist n h p < cdist n h j \<longrightarrow> occ sl p \<and> skey (sl ! p) \<noteq> k))"
proof -
  have "\<forall>p<n. cdist n h p < cdist n h i \<longrightarrow> occ sl p \<and> skey (sl ! p) \<noteq> k"
    using before by blast
  with i fuel show ?thesis
  proof (induction fuel arbitrary: i)
    case 0
    then show ?case using cdist_lt [OF h 0(1)] by linarith
  next
    case (Suc fuel)
    note i = Suc.prems(1) and bf = Suc.prems(3)
    show ?case
    proof (cases "occ sl i \<and> skey (sl ! i) \<noteq> k")
      case False
      then show ?thesis using i bf by (cases "occ sl i") (auto simp: occ_def)
    next
      case move: True
      have lt: "Suc (cdist n h i) < n"
      proof (rule ccontr)
        assume "\<not> Suc (cdist n h i) < n"
        then have "occ sl p" if "p < n" for p
          using ring_full_contra [of h n i "occ sl" p] h i bf move that by (simp add: not_less)
        then show False using gap by (auto simp: has_gap_def n_def)
      qed
      have i': "Suc i mod n < n" using n by simp
      have d: "cdist n h (Suc i mod n) = Suc (cdist n h i)"
        by (rule cdist_Suc [OF h i lt])
      have A: "\<forall>p<n. cdist n h p < cdist n h (Suc i mod n) \<longrightarrow> occ sl p \<and> skey (sl ! p) \<noteq> k"
        using before_Suc [OF h i lt] bf move by blast
      have B: "n - cdist n h (Suc i mod n) \<le> fuel"
        using Suc.prems(2) d by linarith
      have C: "probe_from sl (n - 1) k i (Suc fuel) = probe_from sl (n - 1) k (Suc i mod n) fuel"
        using move n by (simp add: occ_def and_mask_mod)
      show ?thesis unfolding C by (rule Suc.IH [OF i' B A])
    qed
  qed
qed

definition stored_at :: "'v slot list \<Rightarrow> i64 \<Rightarrow> nat \<Rightarrow> bool" where
  "stored_at sl k j \<longleftrightarrow> j < length sl \<and> occ sl j \<and> skey (sl ! j) = k"

definition insert_point :: "'v slot list \<Rightarrow> i64 \<Rightarrow> nat \<Rightarrow> bool" where
  "insert_point sl k j \<longleftrightarrow>
     j < length sl \<and> \<not> occ sl j \<and>
     (\<forall>p < length sl. cdist (length sl) (home (length sl) k) p
                       < cdist (length sl) (home (length sl) k) j \<longrightarrow> occ sl p) \<and>
     (\<forall>p. \<not> stored_at sl k p)"

text \<open>The two possible outcomes of probing a table that has a gap.\<close>

lemma probe_cases:
  assumes n: "pow2_size (length (m_slots M))" and mask: "m_mask M = length (m_slots M) - 1"
    and gap: "has_gap (m_slots M)" and ok: "probe_ok (m_slots M)"
  shows "(\<exists>j. probe M k = Found j \<and> stored_at (m_slots M) k j) \<or>
         (\<exists>j. probe M k = Vacant j \<and> insert_point (m_slots M) k j)"
proof -
  let ?sl = "m_slots M" let ?n = "length ?sl" let ?h = "home ?n k"
  have h: "?h < ?n" using n by simp
  have "(\<exists>j<?n. probe M k = Found j \<and> occ ?sl j \<and> skey (?sl ! j) = k) \<or>
        (\<exists>j<?n. probe M k = Vacant j \<and> \<not> occ ?sl j \<and>
           (\<forall>p<?n. cdist ?n ?h p < cdist ?n ?h j \<longrightarrow> occ ?sl p \<and> skey (?sl ! p) \<noteq> k))"
    using probe_from_spec [where h = ?h and i = ?h and sl = ?sl and fuel = ?n and k = k]
      n h gap mask by (simp add: probe_def hash_and_mask)
  moreover have False
    if j: "j < ?n" "\<not> occ ?sl j"
      and nb: "\<forall>p<?n. cdist ?n ?h p < cdist ?n ?h j \<longrightarrow> occ ?sl p \<and> skey (?sl ! p) \<noteq> k"
      and p: "stored_at ?sl k p" for j p
  proof -
    have p': "p < ?n" "occ ?sl p" "skey (?sl ! p) = k" using p by (auto simp: stored_at_def)
    have "j \<noteq> p" using p' j by auto
    then have "cdist ?n ?h j \<noteq> cdist ?n ?h p" using cdist_inj [OF h, of j p] p' j by simp
    moreover have "\<not> cdist ?n ?h p < cdist ?n ?h j" using nb p' by blast
    ultimately have "cdist ?n ?h j < cdist ?n ?h p" by linarith
    moreover have "\<forall>q<?n. cdist ?n ?h q < cdist ?n ?h p \<longrightarrow> occ ?sl q"
      using ok p' unfolding probe_ok_def by blast
    ultimately show False using j by blast
  qed
  ultimately show ?thesis unfolding stored_at_def insert_point_def by blast
qed

section \<open>The table as a finite map\<close>

definition tab :: "'v slot list \<Rightarrow> i64 \<Rightarrow> 'v option" where
  "tab sl = map_of (List.map_filter slot_entry sl)"

definition good_table :: "'v slot list \<Rightarrow> bool" where
  "good_table sl \<longleftrightarrow> pow2_size (length sl) \<and> probe_ok sl \<and> keys_once sl \<and> values_init sl"

lemma keys_once_distinct: "keys_once sl \<longleftrightarrow> distinct (map skey (filter (\<lambda>s. skey s \<noteq> EMPTY) sl))"
proof
  assume K: "keys_once sl"
  show "distinct (map skey (filter (\<lambda>s. skey s \<noteq> EMPTY) sl))"
    unfolding distinct_filter_nth
  proof (intro allI impI notI)
    fix i j
    assume "i < j" "j < length sl" "skey (sl ! i) \<noteq> EMPTY" "skey (sl ! i) = skey (sl ! j)"
    then show False
      using K [unfolded keys_once_def occ_def, rule_format, of i j] by simp
  qed
next
  assume D: "distinct (map skey (filter (\<lambda>s. skey s \<noteq> EMPTY) sl))"
  show "keys_once sl"
    unfolding keys_once_def occ_def
  proof (intro allI impI)
    fix i j
    assume "i < length sl" "j < length sl" "skey (sl ! i) \<noteq> EMPTY" "skey (sl ! i) = skey (sl ! j)"
    then show "i = j"
      using D [unfolded distinct_filter_nth, rule_format, of i j]
        D [unfolded distinct_filter_nth, rule_format, of j i]
      by (cases i j rule: linorder_cases) auto
  qed
qed

lemma filter_entries:
  "values_init sl \<Longrightarrow>
   map fst (List.map_filter slot_entry sl) = map skey (filter (\<lambda>s. skey s \<noteq> EMPTY) sl)"
proof (induction sl)
  case (Cons s sl)
  have "values_init sl"
    using Cons.prems unfolding values_init_def occ_def by (metis Suc_less_eq length_Cons nth_Cons_Suc)
  moreover have "skey s \<noteq> EMPTY \<Longrightarrow> sval s \<noteq> None"
    using Cons.prems unfolding values_init_def occ_def by (metis length_greater_0_conv list.discI nth_Cons_0)
  ultimately show ?case using Cons.IH by (auto simp: List.map_filter_simps slot_entry_def)
qed (simp add: List.map_filter_simps)

lemma set_map_filter: "y \<in> set (List.map_filter f xs) \<longleftrightarrow> (\<exists>x\<in>set xs. f x = Some y)"
  by (induction xs) (auto simp: List.map_filter_simps split: option.splits)

lemma slot_entry_Some:
  "slot_entry s = Some (k, v) \<longleftrightarrow> skey s \<noteq> EMPTY \<and> skey s = k \<and> sval s = Some v"
  by (auto simp: slot_entry_def)

lemma in_entries_iff:
  "(k, v) \<in> set (List.map_filter slot_entry sl) \<longleftrightarrow>
   (\<exists>j. stored_at sl k j \<and> sval (sl ! j) = Some v)"
  unfolding set_map_filter slot_entry_Some stored_at_def occ_def
  by (auto simp: Bex_def in_set_conv_nth)

lemma tab_Some_iff:
  assumes "keys_once sl" "values_init sl"
  shows "tab sl k = Some v \<longleftrightarrow> (\<exists>j. stored_at sl k j \<and> sval (sl ! j) = Some v)"
proof -
  have "distinct (map fst (List.map_filter slot_entry sl))"
    using assms by (simp add: filter_entries keys_once_distinct)
  then show ?thesis unfolding tab_def by (simp add: in_entries_iff)
qed

lemma stored_at_unique:
  "keys_once sl \<Longrightarrow> stored_at sl k i \<Longrightarrow> stored_at sl k j \<Longrightarrow> i = j"
  by (auto simp: keys_once_def stored_at_def)

lemma tab_stored:
  assumes "keys_once sl" "values_init sl" "stored_at sl k j"
  shows "tab sl k = sval (sl ! j)"
proof -
  obtain v where "sval (sl ! j) = Some v"
    using assms by (auto simp: values_init_def stored_at_def)
  then show ?thesis using assms tab_Some_iff by metis
qed

lemma tab_not_stored:
  assumes "keys_once sl" "values_init sl" "\<And>j. \<not> stored_at sl k j"
  shows "tab sl k = None"
  using assms by (metis tab_Some_iff not_None_eq)

text \<open>Two tables with the same stored pairs are the same map.\<close>

lemma tab_eqI:
  assumes "keys_once sl" "values_init sl" "keys_once sl'" "values_init sl'"
    and "\<And>v. (\<exists>j. stored_at sl' k j \<and> sval (sl' ! j) = Some v)
             \<longleftrightarrow> (\<exists>j. stored_at sl k' j \<and> sval (sl ! j) = Some v)"
  shows "tab sl' k = tab sl k'"
proof (rule option.expand)
  show "(tab sl' k = None) = (tab sl k' = None)"
    using assms tab_Some_iff by (metis not_None_eq)
  show "the (tab sl' k) = the (tab sl k')" if "tab sl' k \<noteq> None" "tab sl k' \<noteq> None"
    using assms that tab_Some_iff by (metis option.collapse)
qed

lemma tab_cong:
  assumes "keys_once sl" "values_init sl" "keys_once sl'" "values_init sl'"
    and "\<And>j. stored_at sl' k j \<longleftrightarrow> stored_at sl k j"
    and "\<And>j. stored_at sl k j \<Longrightarrow> sval (sl' ! j) = sval (sl ! j)"
  shows "tab sl' k = tab sl k"
  by (rule tab_eqI [OF assms(1-4)]) (use assms(5,6) in auto)

section \<open>Writing a slot\<close>

lemma stored_at_update:
  assumes "j < length sl" "k \<noteq> EMPTY"
  shows "stored_at (sl[j := Slot k v]) k' i \<longleftrightarrow> (if i = j then k' = k else stored_at sl k' i)"
  using assms by (auto simp: stored_at_def occ_def nth_list_update)

lemma occ_update: "j < length sl \<Longrightarrow> occ (sl[j := s]) i \<longleftrightarrow> (if i = j then skey s \<noteq> EMPTY else occ sl i)"
  by (auto simp: occ_def)

lemma values_init_update:
  "values_init sl \<Longrightarrow> j < length sl \<Longrightarrow> values_init (sl[j := Slot k (Some v)])"
  by (auto simp: values_init_def occ_def nth_list_update)

lemma probe_ok_fill:
  assumes "probe_ok sl" "insert_point sl k j" "k \<noteq> EMPTY"
  shows "probe_ok (sl[j := Slot k v])"
  using assms unfolding probe_ok_def insert_point_def
  by (auto simp: occ_update nth_list_update split: if_splits)

lemma put_vacant:
  assumes g: "good_table sl" and ip: "insert_point sl k j" and k: "k \<noteq> EMPTY"
  shows "good_table (sl[j := Slot k (Some v)])"
    and "tab (sl[j := Slot k (Some v)]) = (tab sl)(k \<mapsto> v)"
    and "occ_count (sl[j := Slot k (Some v)]) = Suc (occ_count sl)"
proof -
  let ?sl = "sl[j := Slot k (Some v)]"
  have j: "j < length sl" "\<not> occ sl j" "\<And>p. \<not> stored_at sl k p"
    using ip by (auto simp: insert_point_def)
  have other: "\<And>p. p < length sl \<Longrightarrow> skey (sl ! p) \<noteq> k"
    using j k by (auto simp: stored_at_def occ_def)
  have once: "keys_once ?sl"
    using g j(1) k other by (auto simp: good_table_def keys_once_def occ_update nth_list_update)
  show g': "good_table ?sl"
    using g once ip k j by (simp add: good_table_def values_init_update probe_ok_fill)
  show "tab ?sl = (tab sl)(k \<mapsto> v)"
  proof
    fix k'
    have st: "stored_at ?sl k' i \<longleftrightarrow> (if i = j then k' = k else stored_at sl k' i)" for i
      using j k by (simp add: stored_at_update)
    show "tab ?sl k' = ((tab sl)(k \<mapsto> v)) k'"
    proof (cases "k' = k")
      case True
      then have "stored_at ?sl k' j" using st by simp
      then show ?thesis using g' tab_stored True j by (fastforce simp: good_table_def)
    next
      case False
      have "\<And>i. stored_at ?sl k' i \<longleftrightarrow> stored_at sl k' i" "\<not> stored_at sl k' j"
        using st False j by (auto simp: stored_at_def)
      then have "tab ?sl k' = tab sl k'"
        by (intro tab_cong) (use g g' j(1) in \<open>auto simp: good_table_def nth_list_update\<close>)
      then show ?thesis using False by simp
    qed
  qed
  show "occ_count ?sl = Suc (occ_count sl)"
    using length_filter_update [OF j(1), of "\<lambda>s. skey s \<noteq> EMPTY" "Slot k (Some v)"] j k
    by (simp add: occ_count_def occ_def)
qed

lemma put_found:
  assumes g: "good_table sl" and st: "stored_at sl k j"
  shows "good_table (sl[j := Slot k (Some v)])"
    and "tab (sl[j := Slot k (Some v)]) = (tab sl)(k \<mapsto> v)"
    and "occ_count (sl[j := Slot k (Some v)]) = occ_count sl"
proof -
  let ?sl = "sl[j := Slot k (Some v)]"
  have j: "j < length sl" "occ sl j" "skey (sl ! j) = k" "k \<noteq> EMPTY"
    using st by (auto simp: stored_at_def occ_def)
  have key: "skey (?sl ! i) = skey (sl ! i)" for i
    using j by (cases "i = j") auto
  have occ: "occ ?sl i = occ sl i" for i by (simp add: occ_def key)
  have "probe_ok ?sl = probe_ok sl" "keys_once ?sl = keys_once sl"
    unfolding probe_ok_def keys_once_def by (simp_all only: occ key length_list_update)
  then show g': "good_table ?sl"
    using g j(1) by (simp add: good_table_def values_init_update)
  have st': "stored_at ?sl k' i \<longleftrightarrow> stored_at sl k' i" for k' i
    by (simp add: stored_at_def occ key)
  show "tab ?sl = (tab sl)(k \<mapsto> v)"
  proof
    fix k'
    show "tab ?sl k' = ((tab sl)(k \<mapsto> v)) k'"
    proof (cases "k' = k")
      case True
      then have "stored_at ?sl k' j" using st st' by simp
      then show ?thesis using g' tab_stored True j by (fastforce simp: good_table_def)
    next
      case False
      have "\<not> stored_at sl k' j" using False j by (auto simp: stored_at_def)
      then have "tab ?sl k' = tab sl k'"
        by (intro tab_cong) (use g g' st' j(1) in \<open>auto simp: good_table_def nth_list_update\<close>)
      then show ?thesis using False by simp
    qed
  qed
  show "occ_count ?sl = occ_count sl"
    using length_filter_update [OF j(1), of "\<lambda>s. skey s \<noteq> EMPTY" "Slot k (Some v)"] j
    by (simp add: occ_count_def occ_def)
qed

section \<open>Backward-shift deletion\<close>

text \<open>
  While the deletion loop runs, slot \<open>e\<close> is the hole: it still holds a stale key. Every other
  entry keeps its probe path occupied, except that the path may cross the hole for the entries
  the scan has not reached yet.
\<close>

definition path_ok :: "'v slot list \<Rightarrow> nat \<Rightarrow> (nat \<Rightarrow> bool) \<Rightarrow> bool" where
  "path_ok T j Q \<longleftrightarrow>
     (\<forall>p < length T. cdist (length T) (home (length T) (skey (T ! j))) p
                      < cdist (length T) (home (length T) (skey (T ! j))) j \<longrightarrow> Q p)"

definition hole_inv :: "'v slot list \<Rightarrow> nat \<Rightarrow> nat \<Rightarrow> bool" where
  "hole_inv T e x \<longleftrightarrow>
     e < length T \<and> x < length T \<and> e \<noteq> x \<and>
     (\<forall>p < length T. cdist (length T) e p < cdist (length T) e x \<longrightarrow> occ T p) \<and>
     (\<forall>j < length T. occ T j \<longrightarrow> j \<noteq> e \<longrightarrow>
        path_ok T j (\<lambda>p. occ T p \<and> (p = e \<longrightarrow> cdist (length T) e x \<le> cdist (length T) e j))) \<and>
     (\<forall>i < length T. \<forall>j < length T. occ T i \<longrightarrow> i \<noteq> e \<longrightarrow> j \<noteq> e \<longrightarrow>
        skey (T ! i) = skey (T ! j) \<longrightarrow> i = j)"

definition closed_hole :: "'v slot list \<Rightarrow> nat \<Rightarrow> bool" where
  "closed_hole T e \<longleftrightarrow>
     e < length T \<and> occ T e \<and>
     (\<forall>j < length T. occ T j \<longrightarrow> j \<noteq> e \<longrightarrow> path_ok T j (\<lambda>p. occ T p \<and> p \<noteq> e)) \<and>
     (\<forall>i < length T. \<forall>j < length T. occ T i \<longrightarrow> i \<noteq> e \<longrightarrow> j \<noteq> e \<longrightarrow>
        skey (T ! i) = skey (T ! j) \<longrightarrow> i = j)"

definition contents :: "'v slot list \<Rightarrow> nat \<Rightarrow> 'v slot set" where
  "contents T e = {T ! j | j. j < length T \<and> j \<noteq> e \<and> occ T j}"

lemma path_okD:
  "path_ok T j Q \<Longrightarrow> p < length T \<Longrightarrow>
   cdist (length T) (home (length T) (skey (T ! j))) p
     < cdist (length T) (home (length T) (skey (T ! j))) j \<Longrightarrow> Q p"
  by (auto simp: path_ok_def)

lemma path_ok_mono: "path_ok T j Q \<Longrightarrow> (\<And>p. p < length T \<Longrightarrow> Q p \<Longrightarrow> R p) \<Longrightarrow> path_ok T j R"
  by (auto simp: path_ok_def)

lemma hole_inv_occ: "hole_inv T e x \<Longrightarrow> occ T e"
  unfolding hole_inv_def by (metis cdist_eq_0 cdist_self gr_zeroI)

text \<open>When the scan meets an empty slot, no remaining entry's path crosses the hole.\<close>

lemma hole_closed:
  assumes n: "pow2_size (length T)" and inv: "hole_inv T e x" and x: "\<not> occ T x"
  shows "closed_hole T e"
proof -
  let ?n = "length T"
  have bounds: "e < ?n" "x < ?n" using inv by (auto simp: hole_inv_def)
  have "path_ok T j (\<lambda>p. occ T p \<and> p \<noteq> e)" if j: "j < ?n" "occ T j" "j \<noteq> e" for j
  proof -
    let ?h = "home ?n (skey (T ! j))"
    have ok: "path_ok T j (\<lambda>p. occ T p \<and> (p = e \<longrightarrow> cdist ?n e x \<le> cdist ?n e j))"
      using inv j by (auto simp: hole_inv_def)
    have h: "?h < ?n" using n by simp
    have False if lt: "cdist ?n ?h e < cdist ?n ?h j"
    proof -
      have le: "cdist ?n e x \<le> cdist ?n e j" using path_okD [OF ok bounds(1) lt] by simp
      have "x \<noteq> j" using x j by auto
      then have "cdist ?n e x < cdist ?n e j"
        using le cdist_inj [OF bounds(1) bounds(2) j(1)] by simp
      moreover have sum: "cdist ?n ?h j = cdist ?n ?h e + cdist ?n e j"
        using cdist_triangle [OF h bounds(1) j(1)] lt by simp
      moreover have "cdist ?n ?h j < ?n" using cdist_lt h j by blast
      ultimately have "cdist ?n ?h x = cdist ?n ?h e + cdist ?n e x"
        by (intro cdist_trans) (use h bounds in auto)
      then have "cdist ?n ?h x < cdist ?n ?h j"
        using sum \<open>cdist ?n e x < cdist ?n e j\<close> by simp
      then show False using path_okD [OF ok bounds(2)] x by simp
    qed
    then show ?thesis using ok unfolding path_ok_def by blast
  qed
  moreover have "occ T e" by (rule hole_inv_occ [OF inv])
  ultimately show ?thesis
    using inv unfolding closed_hole_def hole_inv_def by blast
qed

text \<open>Moving the scanned entry into the hole makes its old slot the hole.\<close>

lemma hole_move:
  assumes n: "pow2_size (length T)" "1 < length T" and inv: "hole_inv T e x" and x: "occ T x"
    and mv: "cdist (length T) (home (length T) (skey (T ! x))) e
              < cdist (length T) (home (length T) (skey (T ! x))) x"
  shows "hole_inv (T[e := T ! x]) x (Suc x mod length T)"
    and "contents (T[e := T ! x]) x = contents T e"
    and "\<And>p. occ (T[e := T ! x]) p = occ T p"
proof -
  let ?n = "length T" and ?T = "T[e := T ! x]"
  have b: "e < ?n" "x < ?n" "e \<noteq> x" using inv by (auto simp: hole_inv_def)
  have oe: "occ T e" by (rule hole_inv_occ [OF inv])
  show occ': "\<And>p. occ ?T p = occ T p"
    using b x oe by (auto simp: occ_def nth_list_update)
  have nth: "?T ! j = (if j = e then T ! x else T ! j)" for j
    using b by (auto simp: nth_list_update)
  have d1: "cdist ?n x (Suc x mod ?n) = 1"
    using cdist_Suc [of x ?n x] b n by simp
  have pos: "1 \<le> cdist ?n x j" if "j < ?n" "j \<noteq> x" for j
    using cdist_eq_0 [OF b(2) that(1)] that(2) by (cases "cdist ?n x j") auto
  have sx: "Suc x mod ?n < ?n" "x \<noteq> Suc x mod ?n"
    using n b d1 by (auto intro!: mod_less_divisor)
  have paths: "path_ok ?T j (\<lambda>p. occ ?T p \<and> (p = x \<longrightarrow> cdist ?n x (Suc x mod ?n) \<le> cdist ?n x j))"
    if j: "j < ?n" "occ T j" "j \<noteq> x" for j
  proof (cases "j = e")
    case True
    have "path_ok T x (\<lambda>p. occ T p)"
      using inv b x by (auto simp: hole_inv_def intro: path_ok_mono)
    then have "occ T p" if "p < ?n"
      "cdist ?n (home ?n (skey (T ! x))) p < cdist ?n (home ?n (skey (T ! x))) e" for p
      using path_okD [of T x "occ T" p] that mv by simp
    then show ?thesis
      using True occ' d1 pos [OF j(1,3)] b unfolding path_ok_def by simp
  next
    case False
    have "path_ok T j (\<lambda>p. occ T p)"
      using inv j False by (auto simp: hole_inv_def intro: path_ok_mono)
    then show ?thesis
      using False occ' d1 pos [OF j(1,3)] nth unfolding path_ok_def by simp
  qed
  have once: "i = j"
    if "i < ?n" "j < ?n" "occ T i" "i \<noteq> x" "j \<noteq> x" "skey (?T ! i) = skey (?T ! j)" for i j
  proof -
    have K: "\<And>i j. i < ?n \<Longrightarrow> j < ?n \<Longrightarrow> occ T i \<Longrightarrow> i \<noteq> e \<Longrightarrow> j \<noteq> e \<Longrightarrow>
               skey (T ! i) = skey (T ! j) \<Longrightarrow> i = j"
      using inv unfolding hole_inv_def by blast
    show ?thesis
      using K [of x j] K [of i x] K [of i j] that b x oe unfolding nth occ_def
      by (cases "i = e"; cases "j = e") auto
  qed
  have first: "occ T p" if "p < ?n" "cdist ?n x p < 1" for p
    using that cdist_eq_0 [OF b(2), of p] x by simp
  show "hole_inv ?T x (Suc x mod ?n)"
    unfolding hole_inv_def length_list_update occ'
    using b sx first paths once d1 unfolding occ' by auto
  show "contents ?T x = contents T e"
  proof
    show "contents ?T x \<subseteq> contents T e"
      unfolding contents_def length_list_update occ' nth using b x by auto
    show "contents T e \<subseteq> contents ?T x"
    proof
      fix s assume "s \<in> contents T e"
      then obtain j where j: "j < ?n" "j \<noteq> e" "occ T j" "s = T ! j" by (auto simp: contents_def)
      define i where "i = (if j = x then e else j)"
      have "i < ?n \<and> i \<noteq> x \<and> occ ?T i \<and> s = ?T ! i"
        using j b oe unfolding i_def occ' nth by simp
      then show "s \<in> contents ?T x" unfolding contents_def by auto
    qed
  qed
qed

text \<open>Leaving the scanned entry in place.\<close>

lemma hole_skip:
  assumes n: "pow2_size (length T)" and inv: "hole_inv T e x" and x: "occ T x" and gap: "has_gap T"
    and nomv: "\<not> cdist (length T) (home (length T) (skey (T ! x))) e
              < cdist (length T) (home (length T) (skey (T ! x))) x"
  shows "hole_inv T e (Suc x mod length T)"
proof -
  let ?n = "length T"
  have b: "e < ?n" "x < ?n" "e \<noteq> x" using inv by (auto simp: hole_inv_def)
  have before: "\<forall>p<?n. cdist ?n e p < cdist ?n e x \<longrightarrow> occ T p"
    using inv by (auto simp: hole_inv_def)
  have lt: "Suc (cdist ?n e x) < ?n"
  proof (rule ccontr)
    assume "\<not> Suc (cdist ?n e x) < ?n"
    then have "occ T p" if "p < ?n" for p
      using ring_full_contra [of e ?n x "occ T" p] b before x that by (simp add: not_less)
    then show False using gap by (auto simp: has_gap_def)
  qed
  have d: "cdist ?n e (Suc x mod ?n) = Suc (cdist ?n e x)"
    by (rule cdist_Suc [OF b(1,2) lt])
  have sx: "Suc x mod ?n < ?n" "e \<noteq> Suc x mod ?n"
    using n b d by (auto intro!: mod_less_divisor)
  have bf: "occ T p" if "p < ?n" "cdist ?n e p < Suc (cdist ?n e x)" for p
    using that before x cdist_inj [OF b(1) that(1) b(2)] by (auto simp: less_Suc_eq)
  have "path_ok T j (\<lambda>p. occ T p \<and> (p = e \<longrightarrow> Suc (cdist ?n e x) \<le> cdist ?n e j))"
    if j: "j < ?n" "occ T j" "j \<noteq> e" for j
  proof (cases "j = x")
    case True
    have "path_ok T x (\<lambda>p. occ T p)"
      using inv b x by (auto simp: hole_inv_def intro: path_ok_mono)
    then show ?thesis using nomv True unfolding path_ok_def by blast
  next
    case False
    have "path_ok T j (\<lambda>p. occ T p \<and> (p = e \<longrightarrow> cdist ?n e x \<le> cdist ?n e j))"
      using inv j by (auto simp: hole_inv_def)
    moreover have "cdist ?n e x \<noteq> cdist ?n e j"
      using False cdist_inj [OF b(1) b(2) j(1)] by simp
    ultimately show ?thesis by (auto elim!: path_ok_mono)
  qed
  then show ?thesis
    using inv b sx bf unfolding hole_inv_def d by blast
qed

text \<open>The loop returns, and leaves the entries other than the removed one.\<close>

lemma backward_shift_spec:
  assumes n: "pow2_size (length T)" "1 < length T" and inv: "hole_inv T e x"
    and g: "g < length T" "\<not> occ T g" and fuel: "cdist (length T) x g < fuel"
  shows "\<exists>T' e'. backward_shift T (length T - 1) e x fuel = Some (T', e') \<and>
           length T' = length T \<and> closed_hole T' e' \<and> contents T' e' = contents T e \<and>
           (\<forall>p. occ T' p = occ T p)"
  using n inv g fuel
proof (induction fuel arbitrary: T e x)
  case 0
  then show ?case by simp
next
  case (Suc fuel)
  let ?n = "length T" let ?h = "home ?n (skey (T ! x))"
  note n = Suc.prems(1,2) and inv = Suc.prems(3) and g = Suc.prems(4,5)
  have b: "e < ?n" "x < ?n" using inv by (auto simp: hole_inv_def)
  show ?case
  proof (cases "occ T x")
    case False
    then show ?thesis
      using hole_closed [OF n(1) inv False] by (auto simp: occ_def)
  next
    case True
    have xg: "x \<noteq> g" using True g by auto
    have fuel': "cdist ?n (Suc x mod ?n) g < fuel"
      using cdist_pred [OF b(2) g(1) xg] cdist_eq_0 [OF b(2) g(1)] xg Suc.prems(6) by simp
    have idx: "Suc x AND ?n - Suc 0 = Suc x mod ?n" using n by (simp add: and_mask_mod)
    have home: "i64_hash (skey (T ! x)) AND ?n - Suc 0 = ?h" using n by (simp add: hash_and_mask)
    have btw: "(if ?h \<le> x then ?h \<le> e \<and> e < x else ?h \<le> e \<or> e < x) \<longleftrightarrow> cdist ?n ?h e < cdist ?n ?h x"
      using between_iff_cdist [of ?h ?n e x] n b by simp
    show ?thesis
    proof (cases "cdist ?n ?h e < cdist ?n ?h x")
      case mv: True
      let ?T = "T[e := T ! x]"
      note hm = hole_move [OF n inv True mv]
      have step: "backward_shift T (?n - 1) e x (Suc fuel) = backward_shift ?T (?n - 1) x (Suc x mod ?n) fuel"
        using True mv btw by (simp add: occ_def idx home Let_def)
      have "\<exists>T' e'. backward_shift ?T (length ?T - 1) x (Suc x mod ?n) fuel = Some (T', e') \<and>
           length T' = length ?T \<and> closed_hole T' e' \<and> contents T' e' = contents ?T x \<and>
           (\<forall>p. occ T' p = occ ?T p)"
        by (rule Suc.IH) (use n hm g fuel' in auto)
      then show ?thesis unfolding step using hm by simp
    next
      case nomv: False
      have gap: "has_gap T" using g by (auto simp: has_gap_def)
      note hs = hole_skip [OF n(1) inv True gap nomv]
      have step: "backward_shift T (?n - 1) e x (Suc fuel) = backward_shift T (?n - 1) e (Suc x mod ?n) fuel"
        using True nomv btw by (simp add: occ_def idx home Let_def)
      show ?thesis unfolding step
        by (rule Suc.IH) (use n hs g fuel' in auto)
    qed
  qed
qed

lemma hole_inv_start:
  assumes g: "good_table T" "1 < length T" and i: "i < length T" "occ T i"
  shows "hole_inv T i (Suc i mod length T)"
proof -
  let ?n = "length T"
  have n: "pow2_size ?n" using g by (simp add: good_table_def)
  have d: "cdist ?n i (Suc i mod ?n) = 1" using cdist_Suc [of i ?n i] g i by simp
  have s: "Suc i mod ?n < ?n" "i \<noteq> Suc i mod ?n" using n i d by (auto intro!: mod_less_divisor)
  have "occ T p" if "p < ?n" "cdist ?n i p < 1" for p
    using that cdist_eq_0 [OF i(1), of p] i by simp
  moreover have "path_ok T j (\<lambda>p. occ T p \<and> (p = i \<longrightarrow> 1 \<le> cdist ?n i j))"
    if j: "j < ?n" "occ T j" "j \<noteq> i" for j
  proof -
    have "1 \<le> cdist ?n i j" using cdist_eq_0 [OF i(1) j(1)] j(3) by (cases "cdist ?n i j") auto
    then show ?thesis using g j unfolding path_ok_def good_table_def probe_ok_def by blast
  qed
  ultimately show ?thesis
    using g i s unfolding hole_inv_def d good_table_def keys_once_def by blast
qed

text \<open>Clearing a closed hole gives a good table without the removed entry.\<close>

lemma clear_hole:
  assumes n: "pow2_size (length T)" and c: "closed_hole T e" and vi: "\<forall>s \<in> contents T e. sval s \<noteq> None"
  shows "good_table (T[e := Slot EMPTY v])"
    and "\<And>k w. (\<exists>j. stored_at (T[e := Slot EMPTY v]) k j \<and> sval (T[e := Slot EMPTY v] ! j) = Some w) \<longleftrightarrow>
          k \<noteq> EMPTY \<and> (\<exists>s \<in> contents T e. skey s = k \<and> sval s = Some w)"
    and "Suc (occ_count (T[e := Slot EMPTY v])) = occ_count T"
proof -
  let ?T = "T[e := Slot EMPTY v]"
  have e: "e < length T" "occ T e" using c by (auto simp: closed_hole_def)
  have oc: "occ ?T p \<longleftrightarrow> p \<noteq> e \<and> occ T p" for p
    using e by (auto simp: occ_def nth_list_update)
  have nth: "p \<noteq> e \<Longrightarrow> ?T ! p = T ! p" for p by simp
  have "path_ok ?T j (occ ?T)" if j: "j < length T" "occ ?T j" for j
  proof -
    have "path_ok T j (\<lambda>p. occ T p \<and> p \<noteq> e)" and "?T ! j = T ! j"
      using c j by (auto simp: closed_hole_def oc)
    then show ?thesis by (simp add: path_ok_def oc)
  qed
  then have "probe_ok ?T" unfolding probe_ok_def path_ok_def by simp
  moreover have "keys_once ?T"
    unfolding keys_once_def length_list_update
  proof (intro allI impI)
    fix i j assume i: "i < length T" and j: "j < length T" and o: "occ ?T i"
      and eq: "skey (?T ! i) = skey (?T ! j)"
    have "occ ?T j" using o eq by (simp add: occ_def)
    then have "i \<noteq> e" "j \<noteq> e" "occ T i" using o by (auto simp: oc)
    then show "i = j" using c i j eq by (simp add: closed_hole_def)
  qed
  moreover have "values_init ?T"
    unfolding values_init_def length_list_update
  proof (intro allI impI)
    fix i assume "i < length T" "occ ?T i"
    then have "T ! i \<in> contents T e" "?T ! i = T ! i" by (auto simp: contents_def oc)
    then show "sval (?T ! i) \<noteq> None" using vi by simp
  qed
  ultimately show "good_table ?T" using n by (simp add: good_table_def)
  show "(\<exists>j. stored_at ?T k j \<and> sval (?T ! j) = Some w) \<longleftrightarrow>
          k \<noteq> EMPTY \<and> (\<exists>s \<in> contents T e. skey s = k \<and> sval s = Some w)" for k w
  proof
    assume "\<exists>j. stored_at ?T k j \<and> sval (?T ! j) = Some w"
    then obtain j where j: "j < length T" "occ ?T j" "skey (?T ! j) = k" "sval (?T ! j) = Some w"
      by (auto simp: stored_at_def)
    then have "T ! j \<in> contents T e" "?T ! j = T ! j" by (auto simp: contents_def oc)
    moreover have "k \<noteq> EMPTY" using j by (auto simp: occ_def)
    ultimately show "k \<noteq> EMPTY \<and> (\<exists>s \<in> contents T e. skey s = k \<and> sval s = Some w)" using j by auto
  next
    assume "k \<noteq> EMPTY \<and> (\<exists>s \<in> contents T e. skey s = k \<and> sval s = Some w)"
    then obtain j where "j < length T" "j \<noteq> e" "occ T j" "skey (T ! j) = k" "sval (T ! j) = Some w"
      by (auto simp: contents_def)
    then show "\<exists>j. stored_at ?T k j \<and> sval (?T ! j) = Some w"
      by (intro exI [of _ j]) (simp add: stored_at_def oc)
  qed
  show "Suc (occ_count ?T) = occ_count T"
    using length_filter_update [OF e(1), of "\<lambda>s. skey s \<noteq> EMPTY" "Slot EMPTY v"] e
    by (simp add: occ_count_def occ_def)
qed

end
