(* ===== verification/Dictionary.thy ===== *)
theory Dictionary
  imports Prelude
begin

text \<open>
  The contract of a keyed container as its clients use it: every call returns, and on the stored
  entries it acts as the same operation of a finite map. \<open>repr_of s\<close> is the map a representation
  \<open>s\<close> stands for; \<open>room s n\<close> says that \<open>n\<close> more insertions fit in memory. The client lemma is a
  simulation of whole call sequences.
\<close>

datatype ('k, 'v) dict_op = DInsert 'k 'v | DRemove 'k | DGet 'k

fun map_op :: "('k, 'v) dict_op \<Rightarrow> ('k \<Rightarrow> 'v option) \<Rightarrow> 'v option \<times> ('k \<Rightarrow> 'v option)" where
  "map_op (DInsert k v) m = (m k, m(k \<mapsto> v))"
| "map_op (DRemove k) m = (m k, m(k := None))"
| "map_op (DGet k) m = (m k, m)"

fun map_run :: "('k, 'v) dict_op list \<Rightarrow> ('k \<Rightarrow> 'v option) \<Rightarrow> 'v option list \<times> ('k \<Rightarrow> 'v option)" where
  "map_run [] m = ([], m)"
| "map_run (p # ps) m = (let (r, m') = map_op p m; (rs, m'') = map_run ps m' in (r # rs, m''))"

text \<open>The same sequence on a representation; \<open>None\<close> is a call that does not return.\<close>

fun rep_op ::
  "('k \<Rightarrow> 'v \<Rightarrow> 's \<Rightarrow> ('v option \<times> 's) option) \<Rightarrow> ('k \<Rightarrow> 's \<Rightarrow> ('v option \<times> 's) option) \<Rightarrow>
   ('s \<Rightarrow> 'k \<Rightarrow> 'v option option) \<Rightarrow> ('k, 'v) dict_op \<Rightarrow> 's \<Rightarrow> ('v option \<times> 's) option" where
  "rep_op ins rem fnd (DInsert k v) s = ins k v s"
| "rep_op ins rem fnd (DRemove k) s = rem k s"
| "rep_op ins rem fnd (DGet k) s = map_option (\<lambda>r. (r, s)) (fnd s k)"

fun rep_run ::
  "(('k, 'v) dict_op \<Rightarrow> 's \<Rightarrow> ('v option \<times> 's) option) \<Rightarrow> ('k, 'v) dict_op list \<Rightarrow> 's \<Rightarrow>
   ('v option list \<times> 's) option" where
  "rep_run step [] s = Some ([], s)"
| "rep_run step (p # ps) s =
     (case step p s of
        None \<Rightarrow> None
      | Some (r, s') \<Rightarrow> map_option (\<lambda>(rs, s''). (r # rs, s'')) (rep_run step ps s'))"

locale dictionary =
  fixes ins :: "'k \<Rightarrow> 'v \<Rightarrow> 's \<Rightarrow> ('v option \<times> 's) option"
    and rem :: "'k \<Rightarrow> 's \<Rightarrow> ('v option \<times> 's) option"
    and fnd :: "'s \<Rightarrow> 'k \<Rightarrow> 'v option option"
    and repr_of :: "'s \<Rightarrow> 'k \<Rightarrow> 'v option"
    and ok :: "'s \<Rightarrow> bool"
    and room :: "'s \<Rightarrow> nat \<Rightarrow> bool"
  assumes find_abs: "ok s \<Longrightarrow> fnd s k = Some (repr_of s k)"
    and ins_abs: "ok s \<Longrightarrow> room s (Suc n) \<Longrightarrow>
          \<exists>s'. ins k v s = Some (repr_of s k, s') \<and> ok s' \<and> repr_of s' = (repr_of s)(k \<mapsto> v) \<and> room s' n"
    and rem_abs: "ok s \<Longrightarrow> room s n \<Longrightarrow>
          \<exists>s'. rem k s = Some (repr_of s k, s') \<and> ok s' \<and> repr_of s' = (repr_of s)(k := None) \<and> room s' n"
    and room_mono: "room s n \<Longrightarrow> m \<le> n \<Longrightarrow> room s m"
begin

lemma step_simulates:
  assumes "ok s" "room s (Suc n)"
  shows "\<exists>s'. rep_op ins rem fnd p s = Some (fst (map_op p (repr_of s)), s') \<and> ok s' \<and>
           repr_of s' = snd (map_op p (repr_of s)) \<and> room s' n"
proof (cases p)
  case (DInsert k v)
  then show ?thesis using ins_abs [OF assms, of k v] by simp
next
  case (DRemove k)
  then show ?thesis using rem_abs [OF assms(1) room_mono [OF assms(2)], of n k] by simp
next
  case (DGet k)
  then show ?thesis using find_abs [OF assms(1), of k] assms room_mono by auto
qed

lemma run_simulates:
  assumes "ok s" "room s (length ps)"
  shows "\<exists>s'. rep_run (rep_op ins rem fnd) ps s = Some (fst (map_run ps (repr_of s)), s') \<and> ok s' \<and>
           repr_of s' = snd (map_run ps (repr_of s))"
  using assms
proof (induction ps arbitrary: s)
  case (Cons p ps)
  obtain s' where s': "rep_op ins rem fnd p s = Some (fst (map_op p (repr_of s)), s')" "ok s'"
      "repr_of s' = snd (map_op p (repr_of s))" "room s' (length ps)"
    using step_simulates [of s "length ps" p] Cons.prems by auto
  show ?case using Cons.IH [OF s'(2,4)] s' by (auto split: prod.splits)
qed simp

end

end
