(* ===== verification/I64_Map_Correct.thy ===== *)
theory I64_Map_Correct
  imports I64_Map_Inv Dictionary
begin

text \<open>
  The map-level invariant of \<open>I64Map\<close>, and that every operation terminates, keeps the invariant
  and acts on the stored entries as the same operation of a finite map does.
\<close>

section \<open>The representation invariant and the abstract map\<close>

definition inv_map :: "'v i64_map \<Rightarrow> bool" where
  "inv_map M \<longleftrightarrow>
     good_table (m_slots M) \<and> 8 \<le> length (m_slots M) \<and>
     m_mask M = length (m_slots M) - 1 \<and>
     m_len M = occ_count (m_slots M) + (if m_min M = None then 0 else 1) \<and>
     4 * occ_count (m_slots M) \<le> 3 * length (m_slots M)"

definition lookup :: "'v i64_map \<Rightarrow> i64 \<Rightarrow> 'v option" where
  "lookup M k = (if k = EMPTY then m_min M else tab (m_slots M) k)"

lemma occ_count_gap: "occ_count sl < length sl \<Longrightarrow> has_gap sl"
  unfolding occ_count_def has_gap_def occ_def
  by (metis (mono_tags, lifting) filter_True in_set_conv_nth less_irrefl)

lemma inv_mapD:
  assumes "inv_map M"
  shows "good_table (m_slots M)" "8 \<le> length (m_slots M)" "m_mask M = length (m_slots M) - 1"
    and "m_len M = occ_count (m_slots M) + (if m_min M = None then 0 else 1)"
    and "4 * occ_count (m_slots M) \<le> 3 * length (m_slots M)"
    and "has_gap (m_slots M)" "pow2_size (length (m_slots M))" "probe_ok (m_slots M)"
    and "keys_once (m_slots M)" "values_init (m_slots M)"
proof -
  show g: "good_table (m_slots M)" "8 \<le> length (m_slots M)" "m_mask M = length (m_slots M) - 1"
    "m_len M = occ_count (m_slots M) + (if m_min M = None then 0 else 1)"
    "4 * occ_count (m_slots M) \<le> 3 * length (m_slots M)"
    using assms by (auto simp: inv_map_def)
  show "has_gap (m_slots M)" using g(2,5) by (intro occ_count_gap) linarith
  show "pow2_size (length (m_slots M))" "probe_ok (m_slots M)" "keys_once (m_slots M)"
    "values_init (m_slots M)"
    using g(1) by (auto simp: good_table_def)
qed

lemma pow2_size_dvd4: "pow2_size n \<Longrightarrow> 8 \<le> n \<Longrightarrow> 4 dvd n"
proof -
  assume "pow2_size n" "8 \<le> n"
  then obtain b where b: "n = 2 ^ b" by (auto simp: pow2_size_def)
  have "2 \<le> b"
  proof (rule ccontr)
    assume "\<not> 2 \<le> b"
    then have "b = 0 \<or> b = 1" by auto
    then show False using b \<open>8 \<le> n\<close> by auto
  qed
  then have "(2::nat) ^ 2 dvd 2 ^ b" by (rule le_imp_power_dvd)
  then show ?thesis by (simp add: b)
qed

lemma load_room:
  assumes "inv_map M" "\<not> needs_grow M"
  shows "4 * Suc (occ_count (m_slots M)) \<le> 3 * length (m_slots M)"
proof -
  obtain c where "length (m_slots M) = 4 * c"
    using pow2_size_dvd4 inv_mapD(2,7) [OF assms(1)] by (meson dvdE)
  moreover have "occ_count (m_slots M) \<le> m_len M" using inv_mapD(4) [OF assms(1)] by simp
  ultimately show ?thesis using assms(2)
    by (simp add: needs_grow_def LOAD_FACTOR_NUM_def LOAD_FACTOR_DEN_def)
qed

lemma probe_inv:
  assumes "inv_map M"
  obtains (found) j where "probe M k = Found j" "stored_at (m_slots M) k j"
      "tab (m_slots M) k = sval (m_slots M ! j)" "sval (m_slots M ! j) \<noteq> None"
  | (vacant) j where "probe M k = Vacant j" "insert_point (m_slots M) k j"
      "tab (m_slots M) k = None"
proof -
  note i = inv_mapD [OF assms]
  consider j where "probe M k = Found j" "stored_at (m_slots M) k j"
    | j where "probe M k = Vacant j" "insert_point (m_slots M) k j"
    using probe_cases [OF i(7,3,6,8), of k] by blast
  then show thesis
  proof cases
    case 1
    have "sval (m_slots M ! j) \<noteq> None"
      using i(10) 1(2) by (simp add: values_init_def stored_at_def)
    then show thesis using found [OF 1] tab_stored [OF i(9,10) 1(2)] by simp
  next
    case 2
    then have "tab (m_slots M) k = None"
      by (intro tab_not_stored [OF i(9,10)]) (simp add: insert_point_def)
    then show thesis using vacant [OF 2] by simp
  qed
qed

section \<open>Lookup\<close>

lemma get_lookup: "inv_map M \<Longrightarrow> get M k = Some (lookup M k)"
  by (erule probe_inv [where k = k]) (simp_all add: get_def lookup_def)

lemma contains_key_lookup: "inv_map M \<Longrightarrow> contains_key M k = Some (lookup M k \<noteq> None)"
  by (simp add: contains_key_def get_lookup)

section \<open>Insertion without growth\<close>

lemma put_lookup:
  assumes inv: "inv_map M" and k: "k \<noteq> EMPTY" and room: "\<not> needs_grow M"
  shows "\<exists>M'. put k v M = Some (lookup M k, M') \<and> inv_map M' \<and> lookup M' = (lookup M)(k \<mapsto> v) \<and>
           length (m_slots M') = length (m_slots M) \<and> m_min M' = m_min M \<and>
           m_len M' = m_len M + (if lookup M k = None then 1 else 0)"
  using inv
proof (cases rule: probe_inv [where k = k])
  case (found j)
  note i = inv_mapD [OF inv]
  have j: "skey (m_slots M ! j) = k" using found by (simp add: stored_at_def)
  let ?M = "M\<lparr>m_slots := (m_slots M)[j := Slot k (Some v)]\<rparr>"
  note pf = put_found [OF i(1) found(2), of v]
  have "inv_map ?M" using i(2-5) pf by (simp add: inv_map_def)
  moreover have "lookup ?M = (lookup M)(k \<mapsto> v)" using k pf(2) by (auto simp: lookup_def)
  ultimately show ?thesis
    using found k j by (simp add: put_def lookup_def)
next
  case (vacant j)
  note i = inv_mapD [OF inv]
  let ?M = "M\<lparr>m_slots := (m_slots M)[j := Slot k (Some v)], m_len := m_len M + 1\<rparr>"
  note pv = put_vacant [OF i(1) vacant(2) k, of v]
  have "inv_map ?M" using i(2-5) pv load_room [OF inv room] by (simp add: inv_map_def)
  moreover have "lookup ?M = (lookup M)(k \<mapsto> v)" using k pv(2) by (auto simp: lookup_def)
  ultimately show ?thesis
    using vacant k by (simp add: put_def lookup_def)
qed

lemma insert_no_grow:
  assumes "inv_map M" "k \<noteq> EMPTY" "\<not> needs_grow M"
  shows "insert_d d k v M = put k v M"
  using assms by (simp add: insert_d.simps)

section \<open>Rehashing\<close>

lemma occ_count_Cons [simp]:
  "occ_count [] = 0"
  "occ_count (s # sl) = (if skey s = EMPTY then 0 else 1) + occ_count sl"
  by (auto simp: occ_count_def)

lemma slot_entry_cases:
  "skey s = EMPTY \<Longrightarrow> slot_entry s = None"
  "skey s \<noteq> EMPTY \<Longrightarrow> sval s = Some v \<Longrightarrow> slot_entry s = Some (skey s, v)"
  by (simp_all add: slot_entry_def)

lemma reinsert_lookup:
  assumes "inv_map M" and "distinct (map skey (filter (\<lambda>s. skey s \<noteq> EMPTY) ss))"
    and "\<And>s. s \<in> set ss \<Longrightarrow> skey s \<noteq> EMPTY \<Longrightarrow> sval s \<noteq> None \<and> lookup M (skey s) = None"
    and "4 * (m_len M + occ_count ss) \<le> 3 * length (m_slots M)"
  shows "\<exists>M'. reinsert_d d ss M = Some M' \<and> inv_map M' \<and>
           length (m_slots M') = length (m_slots M) \<and> m_min M' = m_min M \<and>
           m_len M' = m_len M + occ_count ss \<and>
           lookup M' = lookup M ++ map_of (List.map_filter slot_entry ss)"
  using assms
proof (induction ss arbitrary: M)
  case Nil
  then show ?case by (simp add: List.map_filter_simps)
next
  case (Cons s ss)
  show ?case
  proof (cases "skey s = EMPTY")
    case True
    have "\<exists>M'. reinsert_d d ss M = Some M' \<and> inv_map M' \<and>
           length (m_slots M') = length (m_slots M) \<and> m_min M' = m_min M \<and>
           m_len M' = m_len M + occ_count ss \<and>
           lookup M' = lookup M ++ map_of (List.map_filter slot_entry ss)"
      by (rule Cons.IH) (use Cons.prems True in auto)
    then show ?thesis using True by (simp add: slot_entry_cases)
  next
    case False
    obtain v where v: "sval s = Some v" "lookup M (skey s) = None"
      using Cons.prems(3) [of s] False by auto
    have room: "\<not> needs_grow M"
      using Cons.prems(4) False by (simp add: needs_grow_def LOAD_FACTOR_NUM_def LOAD_FACTOR_DEN_def)
    obtain M1 where M1: "put (skey s) v M = Some (lookup M (skey s), M1)" "inv_map M1"
        "lookup M1 = (lookup M)(skey s \<mapsto> v)" "length (m_slots M1) = length (m_slots M)"
        "m_min M1 = m_min M" "m_len M1 = m_len M + 1"
      using put_lookup [OF Cons.prems(1) False room, of v] v by auto
    have ne: "skey t \<noteq> skey s" if "t \<in> set ss" "skey t \<noteq> EMPTY" for t
      using Cons.prems(2) that False by (auto simp: image_iff)
    have "\<exists>M'. reinsert_d d ss M1 = Some M' \<and> inv_map M' \<and>
           length (m_slots M') = length (m_slots M1) \<and> m_min M' = m_min M1 \<and>
           m_len M' = m_len M1 + occ_count ss \<and>
           lookup M' = lookup M1 ++ map_of (List.map_filter slot_entry ss)"
      by (rule Cons.IH) (use Cons.prems False M1 ne in auto)
    moreover have "lookup M1 ++ map_of (List.map_filter slot_entry ss)
        = lookup M ++ map_of (List.map_filter slot_entry (s # ss))"
    proof -
      have "skey s \<notin> dom (map_of (List.map_filter slot_entry ss))"
      proof
        assume "skey s \<in> dom (map_of (List.map_filter slot_entry ss))"
        then obtain w where "(skey s, w) \<in> set (List.map_filter slot_entry ss)"
          by (auto dest: map_of_SomeD)
        then obtain x where "x \<in> set ss" "slot_entry x = Some (skey s, w)"
          by (auto simp: set_map_filter)
        then show False using ne [of x] False by (auto simp: slot_entry_Some)
      qed
      then show ?thesis
        using M1(3) v False by (simp add: slot_entry_cases map_add_upd_left)
    qed
    ultimately show ?thesis
      using False v M1 insert_no_grow [OF Cons.prems(1) False room, of d v] by simp
  qed
qed

lemma occ_fresh [simp]:
  "i < cap \<Longrightarrow> \<not> occ (fresh_slots cap) i" "length (fresh_slots cap) = cap"
  "occ_count (fresh_slots cap) = 0"
  by (auto simp: occ_def fresh_slots_def occ_count_def)

lemma good_fresh: "pow2_size cap \<Longrightarrow> good_table (fresh_slots cap)"
  by (auto simp: good_table_def probe_ok_def keys_once_def values_init_def)

lemma tab_fresh: "tab (fresh_slots cap) = Map.empty"
proof -
  have "List.map_filter slot_entry (fresh_slots cap :: 'a slot list) = []"
    by (induction cap) (simp_all add: fresh_slots_def List.map_filter_simps slot_entry_def)
  then show ?thesis by (simp add: tab_def)
qed

lemma resized_props:
  assumes "pow2_size cap" "8 \<le> cap"
  shows "inv_map (resized cap M)" "length (m_slots (resized cap M)) = cap"
    "m_min (resized cap M) = m_min M" "m_len (resized cap M) = (if m_min M = None then 0 else 1)"
    "lookup (resized cap M) = (\<lambda>k. if k = EMPTY then m_min M else None)"
  using assms by (auto simp: inv_map_def resized_def good_fresh lookup_def tab_fresh)

lemma rehash_lookup:
  assumes inv: "inv_map M" and cap: "pow2_size cap" "8 \<le> cap" "4 * m_len M \<le> 3 * cap"
  shows "\<exists>M'. reinsert_d d (m_slots M) (resized cap M) = Some M' \<and> inv_map M' \<and>
           length (m_slots M') = cap \<and> m_min M' = m_min M \<and> m_len M' = m_len M \<and>
           lookup M' = lookup M"
proof -
  note i = inv_mapD [OF inv] and r = resized_props [OF cap(1,2), of M]
  have "\<exists>M'. reinsert_d d (m_slots M) (resized cap M) = Some M' \<and> inv_map M' \<and>
           length (m_slots M') = length (m_slots (resized cap M)) \<and>
           m_min M' = m_min (resized cap M) \<and>
           m_len M' = m_len (resized cap M) + occ_count (m_slots M) \<and>
           lookup M' = lookup (resized cap M) ++ map_of (List.map_filter slot_entry (m_slots M))"
  proof (rule reinsert_lookup [OF r(1)])
    show "distinct (map skey (filter (\<lambda>s. skey s \<noteq> EMPTY) (m_slots M)))"
      using i(9) by (simp add: keys_once_distinct)
    show "sval s \<noteq> None \<and> lookup (resized cap M) (skey s) = None"
      if "s \<in> set (m_slots M)" "skey s \<noteq> EMPTY" for s
      using i(10) that unfolding values_init_def occ_def r(5) by (auto simp: in_set_conv_nth)
    show "4 * (m_len (resized cap M) + occ_count (m_slots M)) \<le> 3 * length (m_slots (resized cap M))"
      using cap(3) i(4) r by simp
  qed
  moreover have "lookup (resized cap M) ++ map_of (List.map_filter slot_entry (m_slots M)) = lookup M"
  proof
    fix k
    have "k = EMPTY \<Longrightarrow> tab (m_slots M) k = None"
      by (intro tab_not_stored [OF i(9,10)]) (auto simp: stored_at_def occ_def)
    then show "(lookup (resized cap M) ++ map_of (List.map_filter slot_entry (m_slots M))) k = lookup M k"
      unfolding tab_def [symmetric] r(5) by (auto simp: lookup_def map_add_def split: option.splits)
  qed
  ultimately show ?thesis using r i(4) by auto
qed

section \<open>Growing, shrinking and insertion\<close>

lemma grown_capacity:
  assumes "inv_map M"
  shows "max (length (m_slots M) * 2) MIN_CAPACITY = 2 * length (m_slots M)"
    "pow2_size (2 * length (m_slots M))" "4 * m_len M \<le> 3 * (2 * length (m_slots M))"
proof -
  note i = inv_mapD [OF assms]
  show "max (length (m_slots M) * 2) MIN_CAPACITY = 2 * length (m_slots M)"
    using i(2) by (simp add: MIN_CAPACITY_def)
  show "pow2_size (2 * length (m_slots M))"
    using i(7) unfolding pow2_size_def by (metis power_Suc)
  show "4 * m_len M \<le> 3 * (2 * length (m_slots M))" using i(2,4,5) by simp
qed

lemma grow_lookup:
  assumes "inv_map M"
  shows "\<exists>M'. grow M = Some M' \<and> inv_map M' \<and> length (m_slots M') = 2 * length (m_slots M) \<and>
           m_len M' = m_len M \<and> lookup M' = lookup M"
  using rehash_lookup [OF assms grown_capacity(2) [OF assms] _ grown_capacity(3) [OF assms], of grow_depth]
    inv_mapD(2) [OF assms]
  by (auto simp: grow_def grown_capacity(1) [OF assms])

text \<open>
  An insertion returns the previous value and updates the map; the table at most doubles, and
  only when the entries fill three quarters of it.
\<close>

lemma insert_lookup:
  assumes inv: "inv_map M"
  shows "\<exists>M'. insert_map k v M = Some (lookup M k, M') \<and> inv_map M' \<and>
           lookup M' = (lookup M)(k \<mapsto> v) \<and>
           m_len M' = m_len M + (if lookup M k = None then 1 else 0) \<and>
           length (m_slots M') = (if k \<noteq> EMPTY \<and> needs_grow M then 2 else 1) * length (m_slots M)"
proof (cases "k = EMPTY")
  case True
  have "lookup (M\<lparr>m_min := Some v, m_len := l\<rparr>) = (lookup M)(EMPTY \<mapsto> v)" for l
    by (auto simp: lookup_def)
  then show ?thesis
    using True inv by (auto simp: insert_map_def insert_d.simps lookup_def inv_map_def)
next
  case k: False
  show ?thesis
  proof (cases "needs_grow M")
    case False
    then show ?thesis
      using put_lookup [OF inv k False, of v] k by (auto simp: insert_map_def insert_no_grow [OF inv k])
  next
    case True
    note g = grown_capacity [OF inv] and i = inv_mapD [OF inv]
    obtain M1 where M1: "reinsert_d 0 (m_slots M) (resized (2 * length (m_slots M)) M) = Some M1"
        "inv_map M1" "length (m_slots M1) = 2 * length (m_slots M)" "m_len M1 = m_len M"
        "lookup M1 = lookup M"
      using rehash_lookup [OF inv g(2) _ g(3), of 0] i(2) by auto
    have "\<not> needs_grow M1"
      using M1(3,4) i(2,4,5) by (auto simp: needs_grow_def LOAD_FACTOR_NUM_def LOAD_FACTOR_DEN_def)
    note put_lookup [OF M1(2) k this, of v]
    then show ?thesis
      using k True M1 by (auto simp: insert_map_def grow_depth_def insert_d.simps g(1))
  qed
qed

lemma pow2_above_props:
  "0 < p \<Longrightarrow> pow2_size p \<Longrightarrow> n \<le> pow2_above p n \<and> pow2_size (pow2_above p n)"
proof (induction p n rule: pow2_above.induct)
  case (1 p n)
  have "pow2_size (2 * p)" using 1(3) unfolding pow2_size_def by (metis power_Suc)
  moreover have "p \<noteq> 0" using 1(2) by simp
  ultimately show ?case using 1(1,3) unfolding pow2_above.simps [of p n] by (simp del: pow2_size_pos)
qed

lemma capacity_for_props:
  assumes "4 * n \<le> u64_max"
  shows "pow2_size (capacity_for n)" "8 \<le> capacity_for n" "4 * n \<le> 3 * capacity_for n"
proof -
  have one: "pow2_size 1" "pow2_size 8"
    by (auto simp: pow2_size_def intro: exI [of _ 0] exI [of _ 3])
  note p = pow2_above_props [OF _ one(1), of "4 * n div 3", simplified]
  have sat: "saturating_mul_u64 n LOAD_FACTOR_DEN = 4 * n"
    using assms by (simp add: saturating_mul_u64_def LOAD_FACTOR_DEN_def)
  show P: "pow2_size (capacity_for n)" "8 \<le> capacity_for n"
    using p one(2) by (auto simp: capacity_for_def sat MIN_CAPACITY_def LOAD_FACTOR_NUM_def
        next_power_of_two_def max_def)
  have "4 * n div 3 \<le> capacity_for n"
    using p by (auto simp: capacity_for_def sat MIN_CAPACITY_def LOAD_FACTOR_NUM_def
        next_power_of_two_def max_def)
  then have "4 * n < 3 * capacity_for n + 3" by linarith
  moreover obtain c where "capacity_for n = 4 * c" using pow2_size_dvd4 [OF P] by (meson dvdE)
  ultimately show "4 * n \<le> 3 * capacity_for n" by simp
qed

lemma shrink_lookup:
  assumes "inv_map M" "4 * m_len M \<le> u64_max"
  shows "\<exists>M'. shrink M = Some M' \<and> inv_map M' \<and> length (m_slots M') \<le> length (m_slots M) \<and>
           m_len M' = m_len M \<and> lookup M' = lookup M"
  using rehash_lookup [OF assms(1) capacity_for_props [OF assms(2)], of grow_depth] assms(1)
  by (auto simp: shrink_def Let_def)

lemma reserve_lookup:
  assumes "inv_map M" "4 * (m_len M + a) \<le> u64_max"
  shows "\<exists>M'. reserve M a = Some M' \<and> inv_map M' \<and> 4 * (m_len M + a) \<le> 3 * length (m_slots M') \<and>
           m_len M' = m_len M \<and> lookup M' = lookup M"
proof -
  note c = capacity_for_props [OF assms(2)]
  have "4 * m_len M \<le> 3 * capacity_for (m_len M + a)" using c(3) by simp
  from rehash_lookup [OF assms(1) c(1,2) this, of grow_depth] show ?thesis
    using assms(1) c(3) by (auto simp: reserve_def Let_def)
qed

section \<open>Removal\<close>

lemma remove_at_lookup:
  assumes inv: "inv_map M" and st: "stored_at (m_slots M) k j"
  shows "\<exists>M'. remove_at M j = Some M' \<and> inv_map M' \<and> lookup M' = (lookup M)(k := None) \<and>
           m_len M' = m_len M - 1 \<and> length (m_slots M') = length (m_slots M) \<and> m_min M' = m_min M"
proof -
  let ?T = "m_slots M" let ?n = "length ?T"
  note i = inv_mapD [OF inv]
  have j: "j < ?n" "occ ?T j" "skey (?T ! j) = k" and k: "k \<noteq> EMPTY"
    using st by (auto simp: stored_at_def occ_def)
  have n: "1 < ?n" using i(2) by simp
  obtain g where g: "g < ?n" "\<not> occ ?T g" using i(6) by (auto simp: has_gap_def)
  have "Suc j mod ?n < ?n" using n by (intro mod_less_divisor) linarith
  then have fuel: "cdist ?n (Suc j mod ?n) g < ?n" using cdist_lt g(1) by simp
  obtain T' e where bs: "backward_shift ?T (?n - 1) j (Suc j mod ?n) ?n = Some (T', e)"
      "length T' = ?n" "closed_hole T' e" "contents T' e = contents ?T j" "\<And>p. occ T' p = occ ?T p"
    using backward_shift_spec [OF i(7) n hole_inv_start [OF i(1) n j(1,2)] g fuel] by blast
  let ?T' = "T'[e := Slot EMPTY (sval (T' ! e))]"
  let ?M = "M\<lparr>m_slots := ?T', m_len := m_len M - 1\<rparr>"
  have vi: "\<forall>s \<in> contents T' e. sval s \<noteq> None"
    unfolding bs(4) using i(10) by (auto simp: contents_def values_init_def)
  note ch = clear_hole [OF _ bs(3) vi, of "sval (T' ! e)", unfolded bs(2), OF i(7)]
  have occs: "occ_count T' = occ_count ?T"
    using bs(2,5) by (simp add: occ_count_def length_filter_conv_card occ_def)
  have "Suc (occ_count ?T') = occ_count ?T" using ch(3) occs by simp
  then have "inv_map ?M" using ch(1) i(2-5) bs(2) by (auto simp: inv_map_def)
  moreover have "lookup ?M = (lookup M)(k := None)"
  proof
    fix q
    have eq: "tab ?T' q = Some w \<longleftrightarrow> q \<noteq> k \<and> tab ?T q = Some w" for w
    proof -
      have "tab ?T' q = Some w \<longleftrightarrow> q \<noteq> EMPTY \<and> (\<exists>s \<in> contents ?T j. skey s = q \<and> sval s = Some w)"
        using ch(1,2) bs(4) by (simp add: tab_Some_iff good_table_def)
      also have "\<dots> \<longleftrightarrow> (\<exists>p. p \<noteq> j \<and> stored_at ?T q p \<and> sval (?T ! p) = Some w)"
        by (auto simp: contents_def stored_at_def occ_def)
      also have "\<dots> \<longleftrightarrow> q \<noteq> k \<and> tab ?T q = Some w"
      proof -
        have "p \<noteq> j \<longleftrightarrow> q \<noteq> k" if "stored_at ?T q p" for p
          using stored_at_unique [OF i(9) st, of p] that j(3) by (auto simp: stored_at_def)
        then show ?thesis unfolding tab_Some_iff [OF i(9,10)] by blast
      qed
      finally show ?thesis .
    qed
    show "lookup ?M q = ((lookup M)(k := None)) q"
    proof (cases "q = k")
      case True
      then have "tab ?T' q = None" using eq by (meson not_Some_eq)
      then show ?thesis using True k by (simp add: lookup_def)
    next
      case False
      then have "tab ?T' q = tab ?T q" using eq by (metis not_None_eq)
      then show ?thesis using False by (simp add: lookup_def)
    qed
  qed
  moreover have "remove_at M j = Some ?M"
    using bs(1) i(2,3,7) by (simp add: remove_at_def and_mask_mod)
  ultimately show ?thesis using bs(2) by simp
qed

lemma shrink_if_sparse_lookup:
  assumes "inv_map M" "length (m_slots M) \<le> u64_max"
  shows "\<exists>M'. shrink_if_sparse M = Some M' \<and> inv_map M' \<and> length (m_slots M') \<le> length (m_slots M) \<and>
           m_len M' = m_len M \<and> lookup M' = lookup M"
proof (cases "should_shrink M")
  case True
  then have "4 * m_len M \<le> u64_max"
    using assms(2) unfolding should_shrink_def SHRINK_DIVISOR_def by linarith
  from shrink_lookup [OF assms(1) this] show ?thesis using True by (simp add: shrink_if_sparse_def)
qed (use assms in \<open>simp add: shrink_if_sparse_def\<close>)

lemma remove_lookup:
  assumes inv: "inv_map M" and sz: "length (m_slots M) \<le> u64_max"
  shows "\<exists>M'. remove_map k M = Some (lookup M k, M') \<and> inv_map M' \<and>
           lookup M' = (lookup M)(k := None) \<and>
           m_len M' = m_len M - (if lookup M k = None then 0 else 1) \<and>
           length (m_slots M') \<le> length (m_slots M)"
proof (cases "k = EMPTY")
  case True
  show ?thesis
  proof (cases "m_min M")
    case None
    then show ?thesis using True inv by (auto simp: remove_map_def lookup_def)
  next
    case (Some v)
    let ?M = "M\<lparr>m_min := None, m_len := m_len M - 1\<rparr>"
    have "inv_map ?M" using inv Some by (auto simp: inv_map_def)
    moreover have "lookup ?M = (lookup M)(EMPTY := None)" by (auto simp: lookup_def)
    ultimately show ?thesis
      using shrink_if_sparse_lookup [of ?M] True Some sz
      by (auto simp: remove_map_def lookup_def)
  qed
next
  case k: False
  show ?thesis using inv
  proof (cases rule: probe_inv [where k = k])
    case (found j)
    obtain M1 where M1: "remove_at M j = Some M1" "inv_map M1" "lookup M1 = (lookup M)(k := None)"
        "m_len M1 = m_len M - 1" "length (m_slots M1) = length (m_slots M)"
      using remove_at_lookup [OF inv found(2)] by blast
    show ?thesis
      using shrink_if_sparse_lookup [OF M1(2)] M1 found k sz by (auto simp: remove_map_def lookup_def)
  next
    case (vacant j)
    then show ?thesis using k inv by (auto simp: remove_map_def lookup_def)
  qed
qed

lemma remove_all_lookup:
  assumes "inv_map M" "length (m_slots M) \<le> u64_max"
  shows "\<exists>M'. remove_all ks M = Some M' \<and> inv_map M' \<and>
           lookup M' = (\<lambda>k. if k \<in> set ks then None else lookup M k) \<and>
           length (m_slots M') \<le> length (m_slots M)"
  using assms
proof (induction ks arbitrary: M)
  case (Cons k ks)
  obtain M1 where M1: "remove_map k M = Some (lookup M k, M1)" "inv_map M1"
      "lookup M1 = (lookup M)(k := None)" "length (m_slots M1) \<le> length (m_slots M)"
    using remove_lookup [OF Cons.prems, of k] by blast
  show ?case using Cons.IH [OF M1(2)] M1 Cons.prems(2) by fastforce
qed simp

section \<open>Writing through a reference, clearing, retaining and enumerating\<close>

lemma modify_lookup:
  assumes inv: "inv_map M"
  shows "\<exists>M'. modify M k f = Some M' \<and> inv_map M' \<and>
           lookup M' = (lookup M)(k := map_option f (lookup M k)) \<and> m_len M' = m_len M"
proof (cases "k = EMPTY")
  case True
  have "lookup (M\<lparr>m_min := x\<rparr>) = (lookup M)(EMPTY := x)" for x by (auto simp: lookup_def)
  then show ?thesis using True inv by (simp add: modify_def inv_map_def lookup_def)
next
  case k: False
  show ?thesis using inv
  proof (cases rule: probe_inv [where k = k])
    case (found j)
    note i = inv_mapD [OF inv]
    obtain v where v: "sval (m_slots M ! j) = Some v" using found(4) by auto
    have j: "skey (m_slots M ! j) = k" using found(2) by (simp add: stored_at_def)
    note pf = put_found [OF i(1) found(2), of "f v"]
    let ?M = "M\<lparr>m_slots := (m_slots M)[j := Slot k (Some (f v))]\<rparr>"
    have "inv_map ?M" using i(2-5) pf by (simp add: inv_map_def)
    moreover have "lookup ?M = (lookup M)(k \<mapsto> f v)" using pf(2) k by (auto simp: lookup_def)
    ultimately show ?thesis using found(1,3) j v k by (simp add: modify_def lookup_def)
  next
    case (vacant j)
    have "lookup M k = None" using vacant(3) k by (simp add: lookup_def)
    then have "lookup M = (lookup M)(k := map_option f (lookup M k))" by auto
    then show ?thesis using vacant k inv by (simp add: modify_def)
  qed
qed

text \<open>Rewriting the values of a table keeps its shape.\<close>

lemma map_values_table:
  assumes k: "\<And>s. skey (h s) = skey s" and v: "\<And>s. skey s \<noteq> EMPTY \<Longrightarrow> sval (h s) = map_option (g (skey s)) (sval s)"
    and inv: "inv_map M"
  shows "inv_map (M\<lparr>m_slots := map h (m_slots M)\<rparr>)"
    and "k \<noteq> EMPTY \<Longrightarrow> tab (map h (m_slots M)) k = map_option (g k) (tab (m_slots M) k)"
proof -
  let ?T = "m_slots M" let ?T' = "map h ?T"
  note i = inv_mapD [OF inv]
  have oc: "p < length ?T \<Longrightarrow> occ ?T' p = occ ?T p" for p by (simp add: occ_def k)
  have cnt: "occ_count ?T' = occ_count ?T" by (simp add: occ_count_def filter_map comp_def k)
  have po: "probe_ok ?T'" using i(8) by (simp add: probe_ok_def oc k)
  have ko: "keys_once ?T'" using i(9) by (simp add: keys_once_def oc k)
  have vi: "values_init ?T'" using i(10) by (auto simp: values_init_def oc) (auto simp: occ_def v)
  show "inv_map (M\<lparr>m_slots := ?T'\<rparr>)"
    using i(1-5,7) po ko vi cnt by (simp add: inv_map_def good_table_def)
  have st: "stored_at ?T' q p = stored_at ?T q p" for p q by (auto simp: stored_at_def oc k)
  assume "k \<noteq> EMPTY"
  show "tab ?T' k = map_option (g k) (tab ?T k)"
  proof (cases "\<exists>p. stored_at ?T k p")
    case True
    then obtain p where p: "stored_at ?T k p" by blast
    have "tab ?T' k = sval (?T' ! p)" using tab_stored [OF ko vi, of k p] p st by simp
    moreover have "tab ?T k = sval (?T ! p)" using tab_stored [OF i(9,10) p] .
    ultimately show ?thesis using p v \<open>k \<noteq> EMPTY\<close> by (auto simp: stored_at_def)
  next
    case False
    then show ?thesis
      using tab_not_stored [OF ko vi, of k] tab_not_stored [OF i(9,10), of k] st by simp
  qed
qed

lemma entries_lookup:
  assumes "inv_map M"
  shows "map_of (entries M) = lookup M" "distinct (map fst (entries M))"
    "length (entries M) = m_len M" "map_keys M = map fst (entries M)"
proof -
  note i = inv_mapD [OF assms]
  have e: "EMPTY \<notin> fst ` set (List.map_filter slot_entry (m_slots M))"
    by (auto simp: set_map_filter slot_entry_Some)
  have len: "length (List.map_filter slot_entry (m_slots M)) = occ_count (m_slots M)"
    using arg_cong [OF filter_entries [OF i(10)], of length] by (simp add: occ_count_def)
  have "tab (m_slots M) EMPTY = None" using e by (simp add: tab_def map_of_eq_None_iff)
  then show "map_of (entries M) = lookup M"
    unfolding entries_def tab_def lookup_def
    by (auto simp: fun_eq_iff map_add_def split: option.splits)
  show "distinct (map fst (entries M))"
    using e i(9) filter_entries [OF i(10)] by (auto simp: entries_def keys_once_distinct split: option.splits)
  show "length (entries M) = m_len M" using i(4) len by (auto simp: entries_def split: option.splits)
  show "map_keys M = map fst (entries M)"
    using filter_entries [OF i(10)] by (auto simp: map_keys_def entries_def split: option.splits)
qed

lemma clear_lookup:
  assumes "inv_map M"
  shows "inv_map (clear_map M)" "lookup (clear_map M) = Map.empty" "m_len (clear_map M) = 0"
proof -
  note i = inv_mapD [OF assms]
  let ?T = "map (\<lambda>s. Slot EMPTY (sval s)) (m_slots M)"
  have noc: "p < length ?T \<Longrightarrow> \<not> occ ?T p" for p by (simp add: occ_def)
  have "good_table ?T" using i(7) noc by (auto simp: good_table_def probe_ok_def keys_once_def values_init_def)
  moreover have "occ_count ?T = 0" by (simp add: occ_count_def filter_map comp_def)
  moreover show "m_len (clear_map M) = 0" using i(4) by (simp add: clear_map_def occ_count_def)
  ultimately show "inv_map (clear_map M)" using i(2,3) by (simp add: inv_map_def clear_map_def)
  have "List.map_filter slot_entry (map (\<lambda>s. Slot EMPTY (sval s)) sl) = []" for sl :: "'a slot list"
    by (induction sl) (simp_all add: slot_entry_cases)
  then show "lookup (clear_map M) = Map.empty"
    by (auto simp: lookup_def clear_map_def tab_def fun_eq_iff)
qed

lemma drain_lookup:
  "inv_map (snd (drain M))" "lookup (snd (drain M)) = Map.empty" "fst (drain M) = entries M"
proof -
  have "pow2_size 8" unfolding pow2_size_def by (rule exI [of _ 3]) simp
  then show "inv_map (snd (drain M))"
    by (simp add: drain_def inv_map_def MIN_CAPACITY_def good_fresh)
  show "lookup (snd (drain M)) = Map.empty" by (auto simp: drain_def lookup_def tab_fresh)
  show "fst (drain M) = entries M" by (simp add: drain_def)
qed

definition retained :: "(i64 \<Rightarrow> 'v \<Rightarrow> bool \<times> 'v) \<Rightarrow> i64 \<Rightarrow> 'v option \<Rightarrow> 'v option" where
  "retained f k x = (case x of None \<Rightarrow> None | Some v \<Rightarrow> if fst (f k v) then Some (snd (f k v)) else None)"

lemma dropped_keys_iff:
  assumes "keys_once sl" "values_init sl"
  shows "k \<in> set (dropped_keys f sl) \<longleftrightarrow> (\<exists>v. tab sl k = Some v \<and> \<not> fst (f k v))"
proof -
  have "(case slot_entry s of None \<Rightarrow> None | Some (k, v) \<Rightarrow> if fst (f k v) then None else Some k) = Some k \<longleftrightarrow>
        (\<exists>v. slot_entry s = Some (k, v) \<and> \<not> fst (f k v))" for s
    by (auto split: option.splits if_splits)
  then have "k \<in> set (dropped_keys f sl) \<longleftrightarrow>
        (\<exists>v. (k, v) \<in> set (List.map_filter slot_entry sl) \<and> \<not> fst (f k v))"
    unfolding dropped_keys_def set_map_filter by blast
  then show ?thesis by (simp add: in_entries_iff tab_Some_iff [OF assms])
qed

lemma retain_lookup:
  assumes inv: "inv_map M" and sz: "length (m_slots M) \<le> u64_max"
  shows "\<exists>M'. retain f M = Some M' \<and> inv_map M' \<and> lookup M' = (\<lambda>k. retained f k (lookup M k))"
proof -
  define M1 where "M1 = (case m_min M of
                  None \<Rightarrow> M
                | Some v \<Rightarrow>
                    (case f EMPTY v of
                       (True, v') \<Rightarrow> M\<lparr>m_min := Some v'\<rparr>
                     | (False, _) \<Rightarrow> M\<lparr>m_min := None, m_len := m_len M - 1\<rparr>))"
  let ?M2 = "M1\<lparr>m_slots := map (retain_slot f) (m_slots M1)\<rparr>"
  have M1: "inv_map M1" "m_slots M1 = m_slots M" "m_min M1 = retained f EMPTY (m_min M)"
    using inv by (auto simp: M1_def inv_map_def retained_def split: option.splits prod.splits bool.splits)
  note i = inv_mapD [OF M1(1)]
  note mv = map_values_table [of "retain_slot f" "\<lambda>k v. snd (f k v)" M1, OF _ _ M1(1)]
  have inv2: "inv_map ?M2" by (rule mv(1)) (auto simp: retain_slot_def)
  have tab2: "k \<noteq> EMPTY \<Longrightarrow> tab (m_slots ?M2) k = map_option (\<lambda>v. snd (f k v)) (tab (m_slots M) k)" for k
    using mv(2) [of k] M1(2) by (simp add: retain_slot_def)
  obtain M' where M': "remove_all (dropped_keys f (m_slots M1)) ?M2 = Some M'" "inv_map M'"
      "lookup M' = (\<lambda>k. if k \<in> set (dropped_keys f (m_slots M1)) then None else lookup ?M2 k)"
    using remove_all_lookup [OF inv2, of "dropped_keys f (m_slots M1)"] sz M1(2) by auto
  have "lookup M' k = retained f k (lookup M k)" for k
  proof (cases "k = EMPTY")
    case True
    have "tab (m_slots M1) EMPTY = None"
      by (rule tab_not_stored [OF i(9,10)]) (auto simp: stored_at_def occ_def)
    then have "EMPTY \<notin> set (dropped_keys f (m_slots M1))"
      by (simp add: dropped_keys_iff [OF i(9,10)])
    then show ?thesis using True M'(3) M1(3) by (simp add: lookup_def)
  next
    case False
    then show ?thesis
      using tab2 [of k] M1(2) unfolding M'(3) dropped_keys_iff [OF i(9,10)]
      by (auto simp: lookup_def retained_def split: option.splits)
  qed
  then have "lookup M' = (\<lambda>k. retained f k (lookup M k))" by (rule ext)
  moreover have "retain f M = Some M'" using M'(1) by (simp add: retain_def M1_def)
  ultimately show ?thesis using M'(2) by blast
qed

section \<open>The map as a dictionary\<close>

text \<open>
  The table has a \<open>usize\<close> length while \<open>n\<close> more entries are inserted: it doubles only when the
  entries fill three quarters of it.
\<close>

definition room_for :: "'v i64_map \<Rightarrow> nat \<Rightarrow> bool" where
  "room_for M n \<longleftrightarrow> length (m_slots M) \<le> u64_max \<and> 8 * (m_len M + n + 1) \<le> u64_max"

interpretation i64: dictionary insert_map remove_map get lookup inv_map room_for
proof
  fix M :: "'v i64_map" and k v n
  assume inv: "inv_map M"
  show "get M k = Some (lookup M k)" using inv by (rule get_lookup)
  assume room: "room_for M (Suc n)"
  note i = inv_mapD [OF inv]
  have grown: "2 * length (m_slots M) \<le> u64_max" if "needs_grow M"
    using room that by (simp add: room_for_def needs_grow_def LOAD_FACTOR_NUM_def LOAD_FACTOR_DEN_def)
  obtain M' where M': "insert_map k v M = Some (lookup M k, M')" "inv_map M'"
      "lookup M' = (lookup M)(k \<mapsto> v)" "m_len M' = m_len M + (if lookup M k = None then 1 else 0)"
      "length (m_slots M') = (if k \<noteq> EMPTY \<and> needs_grow M then 2 else 1) * length (m_slots M)"
    using insert_lookup [OF inv, of k v] by blast
  have "room_for M' n" using room grown M'(4,5) by (auto simp: room_for_def split: if_splits)
  then show "\<exists>M'. insert_map k v M = Some (lookup M k, M') \<and> inv_map M' \<and>
      lookup M' = (lookup M)(k \<mapsto> v) \<and> room_for M' n"
    using M' by blast
next
  fix M :: "'v i64_map" and k n
  assume inv: "inv_map M" and room: "room_for M n"
  have "length (m_slots M) \<le> u64_max" using room by (simp add: room_for_def)
  from remove_lookup [OF inv this, of k]
  show "\<exists>M'. remove_map k M = Some (lookup M k, M') \<and> inv_map M' \<and>
      lookup M' = (lookup M)(k := None) \<and> room_for M' n"
    using room by (auto simp: room_for_def)
next
  show "room_for M n \<Longrightarrow> m \<le> n \<Longrightarrow> room_for M m" for M :: "'v i64_map" and m n
    by (auto simp: room_for_def)
qed

lemma with_capacity_props:
  assumes "4 * n \<le> u64_max"
  shows "inv_map (with_capacity n)" "lookup (with_capacity n) = Map.empty" "m_len (with_capacity n) = 0"
  using capacity_for_props [OF assms]
  by (auto simp: with_capacity_def inv_map_def lookup_def good_fresh tab_fresh Let_def)

lemma new_map_props:
  "inv_map new_map" "lookup new_map = Map.empty" "m_len new_map = 0" "length (m_slots new_map) = 8"
  using with_capacity_props [of 0]
  by (simp_all add: new_map_def with_capacity_def capacity_for_def MIN_CAPACITY_def Let_def)

lemma new_map_room: "n < 2 ^ 60 \<Longrightarrow> room_for new_map n"
  by (simp add: room_for_def new_map_props)

section \<open>Properties\<close>

text \<open>
  C3. Every sequence of fewer than 2^60 calls of \<open>insert\<close>, \<open>remove\<close> and \<open>get\<close> on a new \<open>I64Map\<close>
  returns, hands back the results the same calls give on a finite map, and leaves a well-formed
  table that stands for the same map. In particular \<open>i64::MIN\<close> is a usable key although it
  marks the empty slots, and growing, shrinking and backward-shift deletion lose nothing.
\<close>

theorem i64_map_refines_map:
  assumes "length ps < 2 ^ 60"
  shows "\<exists>M. rep_run (rep_op insert_map remove_map get) ps new_map
               = Some (fst (map_run ps Map.empty), M) \<and>
           inv_map M \<and> lookup M = snd (map_run ps Map.empty)"
  using i64.run_simulates [OF new_map_props(1) new_map_room [OF assms]]
  unfolding new_map_props(2) by blast

theorem i64_map_refines_map_witness:
  "\<exists>M. rep_run (rep_op insert_map remove_map get)
        [DInsert EMPTY True, DInsert 5 False, DRemove EMPTY, DGet EMPTY, DGet 5] new_map
        = Some ([None, None, Some True, None, Some False], M) \<and> inv_map M \<and> lookup M = [5 \<mapsto> False]"
  using i64_map_refines_map [of "[DInsert EMPTY True, DInsert 5 False, DRemove EMPTY, DGet EMPTY, DGet 5]"]
  by (simp add: EMPTY_def fun_upd_twist)

text \<open>
  C25. \<open>retain\<close> returns and keeps exactly the entries its closure accepts, with the values the
  closure left behind, \<open>i64::MIN\<close> included, although it removes the rejected keys one by one from
  a table that may shrink meanwhile.
\<close>

theorem i64_map_retain:
  assumes "inv_map M" "length (m_slots M) \<le> u64_max"
  shows "\<exists>M'. retain f M = Some M' \<and> inv_map M' \<and>
           (\<forall>k. lookup M' k = (case lookup M k of None \<Rightarrow> None
                              | Some v \<Rightarrow> if fst (f k v) then Some (snd (f k v)) else None))"
  using retain_lookup [OF assms, of f] by (auto simp: retained_def)

theorem i64_map_retain_witness:
  "\<exists>M M'. insert_map 7 (1 :: nat) new_map = Some (None, M) \<and>
          retain (\<lambda>k v. (v < 5, v + 1)) M = Some M' \<and> inv_map M' \<and> lookup M' 7 = Some 2"
proof -
  obtain M where M: "insert_map 7 (1 :: nat) new_map = Some (None, M)" "inv_map M" "lookup M 7 = Some 1"
      "length (m_slots M) = 8"
    using insert_lookup [OF new_map_props(1), of 7 "1 :: nat"]
    by (auto simp: new_map_props needs_grow_def LOAD_FACTOR_NUM_def LOAD_FACTOR_DEN_def)
  then show ?thesis using i64_map_retain [OF M(2), of "\<lambda>k v. (v < 5, v + 1)"] by force
qed

text \<open>
  C26. After \<open>reserve(n)\<close> the table has the same entries and room for \<open>n\<close> more: until the map has
  \<open>n\<close> more entries, an insertion does not rehash (the slot array keeps its length).
\<close>

theorem i64_map_reserve:
  assumes "inv_map M" "4 * (m_len M + n) \<le> u64_max"
  shows "\<exists>M'. reserve M n = Some M' \<and> inv_map M' \<and> lookup M' = lookup M \<and>
           (\<forall>N. length (m_slots N) = length (m_slots M') \<longrightarrow> m_len N < m_len M + n \<longrightarrow> \<not> needs_grow N)"
  using reserve_lookup [OF assms]
  by (fastforce simp: needs_grow_def LOAD_FACTOR_NUM_def LOAD_FACTOR_DEN_def)

theorem i64_map_reserve_witness:
  "\<exists>M'. reserve (new_map :: nat i64_map) 1000 = Some M' \<and> inv_map M' \<and> lookup M' = Map.empty"
  using i64_map_reserve [OF new_map_props(1), of 1000] by (auto simp: new_map_props)

end
