(* ===== verification/I64_Map_Entry.thy ===== *)
theory I64_Map_Entry
  imports I64_Map_Correct
begin

text \<open>
  The entry API of \<open>I64Map\<close> (\<open>crates/radixdb-core/src/i64_map.rs\<close>): \<open>entry\<close> finds the slot of a
  key once and hands it to \<open>OccupiedEntry\<close> or \<open>VacantEntry\<close>, whose methods then work on the slot
  index without another lookup. An entry holds the map it borrows. A method that returns
  \<open>&mut V\<close> is modelled with the write \<open>f\<close> the caller makes through the reference.
\<close>

datatype 'v entry =
    Occupied (e_map: "'v i64_map") (e_idx: nat) (e_min: bool)
  | VacantE (e_map: "'v i64_map") (e_key: i64) (e_idx: nat) (e_min: bool)

text \<open>The loop that looks for an empty slot only, after \<open>grow\<close>.\<close>

fun first_empty :: "'v slot list \<Rightarrow> nat \<Rightarrow> nat \<Rightarrow> nat \<Rightarrow> nat option" where
  "first_empty sl msk idx 0 = None"
| "first_empty sl msk idx (Suc n) =
     (if skey (sl ! idx) = EMPTY then Some idx else first_empty sl msk ((idx + 1) AND msk) n)"

definition map_entry :: "'v i64_map \<Rightarrow> i64 \<Rightarrow> 'v entry option" where
  "map_entry M key =
     (if key = EMPTY then
        Some (if m_min M \<noteq> None then Occupied M 0 True else VacantE M key 0 True)
      else case probe M key of
             Vacant idx \<Rightarrow>
               if needs_grow M then
                 (case grow M of
                    None \<Rightarrow> None
                  | Some M' \<Rightarrow>
                      map_option (\<lambda>new_idx. VacantE M' key new_idx False)
                        (first_empty (m_slots M') (m_mask M') (i64_hash key AND m_mask M')
                           (length (m_slots M'))))
               else Some (VacantE M key idx False)
           | Found idx \<Rightarrow> Some (Occupied M idx False)
           | Diverges \<Rightarrow> None)"

definition occupied_get :: "'v i64_map \<Rightarrow> nat \<Rightarrow> bool \<Rightarrow> 'v option" where
  "occupied_get M idx is_min = (if is_min then m_min M else sval (m_slots M ! idx))"

definition occupied_write :: "'v i64_map \<Rightarrow> nat \<Rightarrow> bool \<Rightarrow> ('v \<Rightarrow> 'v) \<Rightarrow> 'v i64_map" where
  "occupied_write M idx is_min f =
     (if is_min then M\<lparr>m_min := map_option f (m_min M)\<rparr>
      else M\<lparr>m_slots := (m_slots M)[idx :=
              Slot (skey (m_slots M ! idx)) (map_option f (sval (m_slots M ! idx)))]\<rparr>)"

definition occupied_insert :: "'v i64_map \<Rightarrow> nat \<Rightarrow> bool \<Rightarrow> 'v \<Rightarrow> 'v option \<times> 'v i64_map" where
  "occupied_insert M idx is_min value =
     (if is_min then (m_min M, M\<lparr>m_min := Some value\<rparr>)
      else (sval (m_slots M ! idx),
            M\<lparr>m_slots := (m_slots M)[idx := Slot (skey (m_slots M ! idx)) (Some value)]\<rparr>))"

definition occupied_remove :: "'v i64_map \<Rightarrow> nat \<Rightarrow> bool \<Rightarrow> ('v option \<times> 'v i64_map) option" where
  "occupied_remove M idx is_min =
     (if is_min then Some (m_min M, M\<lparr>m_min := None, m_len := m_len M - 1\<rparr>)
      else map_option (Pair (sval (m_slots M ! idx))) (remove_at M idx))"

definition vacant_insert :: "'v i64_map \<Rightarrow> i64 \<Rightarrow> nat \<Rightarrow> bool \<Rightarrow> 'v \<Rightarrow> 'v i64_map" where
  "vacant_insert M key idx is_min value =
     (if is_min then M\<lparr>m_min := Some value, m_len := m_len M + 1\<rparr>
      else M\<lparr>m_slots := (m_slots M)[idx := Slot key (Some value)], m_len := m_len M + 1\<rparr>)"

text \<open>\<open>or_insert\<close> followed by a write \<open>f\<close> through the reference it returns.\<close>

definition or_insert :: "'v entry \<Rightarrow> 'v \<Rightarrow> ('v \<Rightarrow> 'v) \<Rightarrow> 'v i64_map" where
  "or_insert e dflt f =
     (case e of
        Occupied M idx is_min \<Rightarrow> occupied_write M idx is_min f
      | VacantE M key idx is_min \<Rightarrow> vacant_insert M key idx is_min (f dflt))"

definition and_modify :: "'v entry \<Rightarrow> ('v \<Rightarrow> 'v) \<Rightarrow> 'v entry" where
  "and_modify e f =
     (case e of
        Occupied M idx is_min \<Rightarrow> Occupied (occupied_write M idx is_min f) idx is_min
      | VacantE M key idx is_min \<Rightarrow> VacantE M key idx is_min)"

section \<open>Entries point at the right slot\<close>

definition entry_ok :: "i64 \<Rightarrow> 'v entry \<Rightarrow> bool" where
  "entry_ok k e \<longleftrightarrow>
     inv_map (e_map e) \<and>
     (case e of
        Occupied M idx is_min \<Rightarrow>
          (if is_min then k = EMPTY \<and> m_min M \<noteq> None else stored_at (m_slots M) k idx)
      | VacantE M key idx is_min \<Rightarrow>
          key = k \<and>
          (if is_min then k = EMPTY \<and> m_min M = None
           else k \<noteq> EMPTY \<and> \<not> needs_grow M \<and> insert_point (m_slots M) k idx))"

lemma first_empty_probe:
  "probe_from sl msk k idx n = Vacant j \<Longrightarrow> first_empty sl msk idx n = Some j"
  by (induction sl msk k idx n rule: probe_from.induct) (auto split: if_splits)

lemma grow_not_needed: "inv_map M \<Longrightarrow> grow M = Some M' \<Longrightarrow> \<not> needs_grow M'"
  using grow_lookup [of M] inv_mapD(2,4,5) [of M]
  by (auto simp: needs_grow_def LOAD_FACTOR_NUM_def LOAD_FACTOR_DEN_def split: if_splits)

lemma map_entry_ok:
  assumes inv: "inv_map M"
  shows "\<exists>e. map_entry M k = Some e \<and> entry_ok k e \<and> lookup (e_map e) = lookup M \<and>
           m_len (e_map e) = m_len M"
proof (cases "k = EMPTY")
  case True
  then show ?thesis using inv by (auto simp: map_entry_def entry_ok_def)
next
  case k: False
  show ?thesis using inv
  proof (cases rule: probe_inv [where k = k])
    case (found j)
    then show ?thesis using k inv by (simp add: map_entry_def entry_ok_def)
  next
    case (vacant j)
    show ?thesis
    proof (cases "needs_grow M")
      case False
      then show ?thesis using vacant k inv by (simp add: map_entry_def entry_ok_def)
    next
      case True
      obtain M' where M': "grow M = Some M'" "inv_map M'" "lookup M' = lookup M" "m_len M' = m_len M"
        using grow_lookup [OF inv] by blast
      have none: "tab (m_slots M') k = None" using vacant(3) M'(3) k by (metis lookup_def)
      obtain j' where j': "probe M' k = Vacant j'" "insert_point (m_slots M') k j'"
        using M'(2) none by (cases rule: probe_inv [where k = k]) auto
      then have "first_empty (m_slots M') (m_mask M') (i64_hash k AND m_mask M') (length (m_slots M')) = Some j'"
        by (simp add: probe_def first_empty_probe)
      then show ?thesis
        using vacant True M' j' k grow_not_needed [OF inv M'(1)]
        by (simp add: map_entry_def entry_ok_def)
    qed
  qed
qed

lemma vacant_insert_lookup:
  assumes "entry_ok k (VacantE M key idx is_min)"
  shows "inv_map (vacant_insert M key idx is_min v)"
    "lookup (vacant_insert M key idx is_min v) = (lookup M)(k \<mapsto> v)" "lookup M k = None"
proof -
  have inv: "inv_map M" and key: "key = k" using assms by (auto simp: entry_ok_def)
  note i = inv_mapD [OF inv]
  have "inv_map (vacant_insert M key idx is_min v) \<and>
        lookup (vacant_insert M key idx is_min v) = (lookup M)(k \<mapsto> v) \<and> lookup M k = None"
  proof (cases is_min)
    case True
    then show ?thesis using assms by (auto simp: entry_ok_def vacant_insert_def inv_map_def lookup_def)
  next
    case False
    then have k: "k \<noteq> EMPTY" "insert_point (m_slots M) k idx" "\<not> needs_grow M"
      using assms by (auto simp: entry_ok_def)
    note pv = put_vacant [OF i(1) k(2,1), of v]
    have "tab (m_slots M) k = None"
      by (rule tab_not_stored [OF i(9,10)]) (use k(2) in \<open>simp add: insert_point_def\<close>)
    then show ?thesis
      using pv i(2-5) load_room [OF inv k(3)] k(1) False key
      by (auto simp: vacant_insert_def inv_map_def lookup_def fun_eq_iff)
  qed
  then show "inv_map (vacant_insert M key idx is_min v)"
    "lookup (vacant_insert M key idx is_min v) = (lookup M)(k \<mapsto> v)" "lookup M k = None"
    by auto
qed

lemma occupied_write_lookup:
  assumes ok: "entry_ok k (Occupied M idx is_min)"
  shows "\<exists>v. lookup M k = Some v \<and> inv_map (occupied_write M idx is_min f) \<and>
           lookup (occupied_write M idx is_min f) = (lookup M)(k \<mapsto> f v) \<and>
           entry_ok k (Occupied (occupied_write M idx is_min f) idx is_min)"
proof (cases is_min)
  case True
  then show ?thesis
    using ok by (auto simp: entry_ok_def occupied_write_def lookup_def inv_map_def fun_eq_iff)
next
  case False
  have inv: "inv_map M" and st: "stored_at (m_slots M) k idx" using ok False by (auto simp: entry_ok_def)
  note i = inv_mapD [OF inv]
  have k: "k \<noteq> EMPTY" "skey (m_slots M ! idx) = k" using st by (auto simp: stored_at_def occ_def)
  obtain v where v: "sval (m_slots M ! idx) = Some v" "tab (m_slots M) k = Some v"
    using i(10) st tab_stored [OF i(9,10) st] by (auto simp: values_init_def stored_at_def)
  note pf = put_found [OF i(1) st, of "f v"]
  have "stored_at ((m_slots M)[idx := Slot k (Some (f v))]) k idx"
    using st k(1) by (simp add: stored_at_def occ_def)
  then show ?thesis
    using pf i(2-5) False k v
    by (auto simp: occupied_write_def inv_map_def lookup_def fun_eq_iff entry_ok_def)
qed

lemma occupied_insert_write:
  "entry_ok k (Occupied M idx is_min) \<Longrightarrow>
   occupied_insert M idx is_min v = (lookup M k, occupied_write M idx is_min (\<lambda>_. v))"
  using occupied_write_lookup [of k M idx is_min "\<lambda>_. v"] tab_stored [of "m_slots M" k idx]
    inv_mapD(9,10) [of M]
  by (auto simp: entry_ok_def occupied_insert_def occupied_write_def lookup_def stored_at_def occ_def
      split: if_splits)

lemma occupied_remove_lookup:
  assumes ok: "entry_ok k (Occupied M idx is_min)"
  shows "\<exists>M'. occupied_remove M idx is_min = Some (lookup M k, M') \<and> inv_map M' \<and>
           lookup M' = (lookup M)(k := None)"
proof (cases is_min)
  case True
  then show ?thesis
    using ok by (auto simp: entry_ok_def occupied_remove_def lookup_def inv_map_def fun_eq_iff)
next
  case False
  have inv: "inv_map M" and st: "stored_at (m_slots M) k idx" using ok False by (auto simp: entry_ok_def)
  have "k \<noteq> EMPTY" using st by (auto simp: stored_at_def occ_def)
  then have "lookup M k = sval (m_slots M ! idx)"
    using tab_stored [OF inv_mapD(9,10) [OF inv] st] by (simp add: lookup_def)
  then show ?thesis
    using remove_at_lookup [OF inv st] False by (auto simp: occupied_remove_def)
qed

section \<open>Properties\<close>

text \<open>
  C27. \<open>entry(k).or_insert(d)\<close> followed by a write \<open>f\<close> through the returned reference, on a
  well-formed map, updates \<open>k\<close> to \<open>f\<close> of its old value, or of \<open>d\<close> when \<open>k\<close> was absent, and changes
  no other key, also when the lookup had to grow the table.
\<close>

theorem entry_or_insert:
  assumes "inv_map M"
  shows "\<exists>e. map_entry M k = Some e \<and> inv_map (or_insert e d f) \<and>
           lookup (or_insert e d f)
             = (lookup M)(k \<mapsto> f (case lookup M k of None \<Rightarrow> d | Some v \<Rightarrow> v))"
proof -
  obtain e where e: "map_entry M k = Some e" "entry_ok k e" "lookup (e_map e) = lookup M"
    using map_entry_ok [OF assms] by blast
  show ?thesis
  proof (cases e)
    case (Occupied N idx is_min)
    then show ?thesis using e occupied_write_lookup [of k N idx is_min f] by (auto simp: or_insert_def)
  next
    case (VacantE N key idx is_min)
    then show ?thesis
      using e vacant_insert_lookup(1,2) [of k N key idx is_min "f d"]
        vacant_insert_lookup(3) [of k N key idx is_min] by (auto simp: or_insert_def)
  qed
qed

theorem entry_or_insert_witness:
  "\<exists>e. map_entry (new_map :: nat i64_map) 9 = Some e \<and> inv_map (or_insert e 4 Suc) \<and>
       lookup (or_insert e 4 Suc) = [9 \<mapsto> 5]"
  using entry_or_insert [OF new_map_props(1), of 9 4 Suc] by (simp add: new_map_props)

text \<open>
  C28. \<open>OccupiedEntry::remove\<close> on the entry of a present key returns its value and removes exactly
  that key, and \<open>OccupiedEntry::insert\<close> replaces the value and returns the old one.
\<close>

theorem entry_occupied_ops:
  assumes "inv_map M" "map_entry M k = Some (Occupied N idx is_min)"
  shows "\<exists>N' N''. occupied_remove N idx is_min = Some (lookup M k, N') \<and> inv_map N' \<and>
           lookup N' = (lookup M)(k := None) \<and>
           occupied_insert N idx is_min v = (lookup M k, N'') \<and> inv_map N'' \<and>
           lookup N'' = (lookup M)(k \<mapsto> v)"
proof -
  have ok: "entry_ok k (Occupied N idx is_min)" and eq: "lookup N = lookup M"
    using map_entry_ok [OF assms(1), of k] assms(2) by auto
  show ?thesis
    using occupied_remove_lookup [OF ok] occupied_write_lookup [OF ok, of "\<lambda>_. v"] eq
    unfolding occupied_insert_write [OF ok] by auto
qed

theorem entry_occupied_ops_witness:
  "\<exists>N' N''. occupied_remove (new_map\<lparr>m_min := Some True, m_len := 1\<rparr>) 0 True = Some (Some True, N') \<and>
     inv_map N' \<and>
     occupied_insert (new_map\<lparr>m_min := Some True, m_len := 1\<rparr>) 0 True False = (Some True, N'') \<and>
     lookup N'' EMPTY = Some False"
proof -
  let ?M = "new_map\<lparr>m_min := Some True, m_len := 1\<rparr> :: bool i64_map"
  have "inv_map ?M" using new_map_props(1,3) by (auto simp: inv_map_def new_map_def with_capacity_def Let_def)
  moreover have "lookup ?M EMPTY = Some True" by (simp add: lookup_def)
  moreover have "map_entry ?M EMPTY = Some (Occupied ?M 0 True)" by (simp add: map_entry_def)
  ultimately show ?thesis
    using entry_occupied_ops [of ?M EMPTY ?M 0 True False] by auto
qed

end
