(* ===== verification/Txn_State.thy ===== *)
theory Txn_State
  imports Prelude
begin

text \<open>
  The packed transaction state of \<open>crates/radixdb-storage/src/mvcc/registry.rs\<close>. The status and
  the commit sequence share one 64-bit word: the two top bits hold the status, the 62 low bits the
  sequence. The word is kept at its width; identifiers and sequences are integers.
\<close>

definition INVALID_TRANSACTION_ID :: int where
  "INVALID_TRANSACTION_ID = -999999999"

definition RECOVERY_TRANSACTION_ID :: int where
  "RECOVERY_TRANSACTION_ID = -1"

definition ABORTED_SENTINEL :: int where
  "ABORTED_SENTINEL = -1"

definition DDL_TXN_ID :: int where
  "DDL_TXN_ID = -2"

definition is_internal_durable_transaction_id :: "int \<Rightarrow> bool" where
  "is_internal_durable_transaction_id txn_id \<longleftrightarrow> txn_id \<le> DDL_TXN_ID"

datatype txn_status = Active | Committing | Aborted

record txn_state =
  begin_seq_field :: int
  state_seq :: "64 word"
  begin_timestamp_nanos :: int

definition STATUS_SHIFT :: nat where
  "STATUS_SHIFT = 62"

definition SEQ_MASK :: int where
  "SEQ_MASK = 2 ^ 62 - 1"

definition new_active :: "int \<Rightarrow> int \<Rightarrow> txn_state" where
  "new_active begin_seq now =
     \<lparr>begin_seq_field = begin_seq, state_seq = 0, begin_timestamp_nanos = now\<rparr>"

definition new_aborted :: txn_state where
  "new_aborted =
     \<lparr>begin_seq_field = ABORTED_SENTINEL, state_seq = push_bit STATUS_SHIFT 2,
      begin_timestamp_nanos = 0\<rparr>"

definition is_aborted :: "txn_state \<Rightarrow> bool" where
  "is_aborted st \<longleftrightarrow> begin_seq_field st = ABORTED_SENTINEL"

definition begin_seq :: "txn_state \<Rightarrow> int" where
  "begin_seq st = (if begin_seq_field st = ABORTED_SENTINEL then 0 else begin_seq_field st)"

text \<open>\<open>(state_seq >> 62) as u8\<close>: an arithmetic shift, truncated to eight bits.\<close>

definition status :: "txn_state \<Rightarrow> txn_status" where
  "status st =
     (if begin_seq_field st = ABORTED_SENTINEL then Aborted
      else let tag = (ucast (signed_drop_bit STATUS_SHIFT (state_seq st)) :: 8 word)
           in if tag = 0 then Active else if tag = 1 then Committing else Aborted)"

definition is_active_or_committing :: "txn_state \<Rightarrow> bool" where
  "is_active_or_committing st \<longleftrightarrow> begin_seq_field st \<noteq> ABORTED_SENTINEL"

definition set_committing :: "int \<Rightarrow> txn_state \<Rightarrow> txn_state" where
  "set_committing commit_seq st =
     st\<lparr>state_seq := word_of_int commit_seq OR push_bit STATUS_SHIFT 1\<rparr>"

definition commit_seq :: "txn_state \<Rightarrow> int" where
  "commit_seq st = sint (state_seq st AND word_of_int SEQ_MASK)"

section \<open>The packing is lossless\<close>

text \<open>The shift is kept symbolic so that the packed word is reasoned about bit by bit.\<close>

lemma seq_mask_word: "word_of_int SEQ_MASK = (mask STATUS_SHIFT :: 64 word)"
  by (simp add: SEQ_MASK_def STATUS_SHIFT_def mask_eq_exp_minus_1)

lemma seq_bits:
  assumes "0 \<le> c" "c \<le> SEQ_MASK" "STATUS_SHIFT \<le> n"
  shows "\<not> bit (word_of_int c :: 64 word) n"
proof -
  have "take_bit 62 c = c" using assms by (simp add: take_bit_int_eq_self SEQ_MASK_def)
  then have "\<not> bit c n"
    using assms(3) unfolding STATUS_SHIFT_def by (metis bit_take_bit_iff not_less)
  then show ?thesis by (simp add: bit_word_of_int_iff)
qed

lemma tag_bit: "bit (2 ^ STATUS_SHIFT :: 64 word) n \<longleftrightarrow> n = STATUS_SHIFT"
proof -
  have "bit ((2 :: 64 word) ^ 62) n \<longleftrightarrow> n = 62" unfolding bit_exp_iff by auto
  then show ?thesis by (simp only: STATUS_SHIFT_def)
qed

lemma pack_low:
  assumes "0 \<le> c" "c \<le> SEQ_MASK"
  shows "((word_of_int c OR 2 ^ STATUS_SHIFT) AND mask STATUS_SHIFT :: 64 word) = word_of_int c"
proof (rule bit_eqI)
  fix n
  show "bit ((word_of_int c OR 2 ^ STATUS_SHIFT) AND mask STATUS_SHIFT :: 64 word) n
        = bit (word_of_int c :: 64 word) n"
    using seq_bits [OF assms, of n]
    by (cases "n < STATUS_SHIFT")
      (auto simp: bit_and_iff bit_or_iff tag_bit bit_mask_iff bit_word_of_int_iff)
qed

lemma sint_small: "0 \<le> c \<Longrightarrow> c \<le> SEQ_MASK \<Longrightarrow> sint (word_of_int c :: 64 word) = c"
  by (simp add: SEQ_MASK_def sint_sbintrunc' signed_take_bit_int_eq_self)

lemma pack_high:
  assumes "0 \<le> c" "c \<le> SEQ_MASK"
  shows "(ucast (signed_drop_bit STATUS_SHIFT (word_of_int c OR 2 ^ STATUS_SHIFT :: 64 word)) :: 8 word) = 1"
proof (rule bit_eqI)
  fix n
  assume "possible_bit TYPE(8 word) n"
  then have n: "n < 8" by simp
  have s: "63 \<noteq> STATUS_SHIFT" "STATUS_SHIFT < 64" "64 - STATUS_SHIFT \<noteq> 0"
    "\<not> bit (word_of_int c :: 64 word) 63" "\<And>m. \<not> bit (word_of_int c :: 64 word) (STATUS_SHIFT + m)"
    using seq_bits [OF assms] by (simp_all add: STATUS_SHIFT_def)
  then show "bit (ucast (signed_drop_bit STATUS_SHIFT (word_of_int c OR 2 ^ STATUS_SHIFT :: 64 word)) :: 8 word) n
             = bit (1 :: 8 word) n"
    using n by (auto simp: bit_ucast_iff bit_signed_drop_bit_iff bit_or_iff tag_bit bit_1_iff)
qed

lemma new_active_props [simp]:
  "begin_seq_field (new_active b t) = b"
  "b \<noteq> -1 \<Longrightarrow> status (new_active b t) = Active"
  "b \<noteq> -1 \<Longrightarrow> is_active_or_committing (new_active b t)"
  "b \<noteq> -1 \<Longrightarrow> begin_seq (new_active b t) = b"
  "commit_seq (new_active b t) = 0"
  by (simp_all add: new_active_def status_def is_active_or_committing_def begin_seq_def
      commit_seq_def ABORTED_SENTINEL_def)

lemma new_aborted_props [simp]:
  "status new_aborted = Aborted" "\<not> is_active_or_committing new_aborted" "is_aborted new_aborted"
  "begin_seq new_aborted = 0"
  by (simp_all add: new_aborted_def status_def is_active_or_committing_def is_aborted_def begin_seq_def)

lemma set_committing_props [simp]:
  "begin_seq_field (set_committing c st) = begin_seq_field st"
  "begin_seq (set_committing c st) = begin_seq st"
  "is_active_or_committing (set_committing c st) = is_active_or_committing st"
  by (simp_all add: set_committing_def begin_seq_def is_active_or_committing_def)

lemma set_committing_status:
  "is_active_or_committing st \<Longrightarrow> 0 \<le> c \<Longrightarrow> c \<le> SEQ_MASK \<Longrightarrow>
   status (set_committing c st) = Committing"
  by (simp add: set_committing_def status_def is_active_or_committing_def pack_high)

lemma set_committing_seq:
  "0 \<le> c \<Longrightarrow> c \<le> SEQ_MASK \<Longrightarrow> commit_seq (set_committing c st) = c"
  by (simp add: set_committing_def commit_seq_def seq_mask_word pack_low sint_small)

lemma aborted_iff: "is_aborted st \<longleftrightarrow> \<not> is_active_or_committing st"
  by (simp add: is_aborted_def is_active_or_committing_def)

lemma status_live: "status st \<noteq> Aborted \<Longrightarrow> is_active_or_committing st"
  by (auto simp: status_def is_active_or_committing_def)

section \<open>Properties\<close>

text \<open>
  C29. Packing is lossless: for a live state and a commit sequence of the 62-bit domain, the state
  after \<open>set_committing\<close> reads back as \<open>Committing\<close> with exactly that sequence and an unchanged
  begin sequence; the aborted marker reads back as \<open>Aborted\<close> whatever its packed word is shifted to.
\<close>

theorem packed_state_round_trip:
  assumes "is_active_or_committing st" "0 \<le> c" "c \<le> SEQ_MASK"
  shows "status (set_committing c st) = Committing \<and> commit_seq (set_committing c st) = c \<and>
         begin_seq (set_committing c st) = begin_seq st \<and>
         status new_aborted = Aborted \<and> \<not> is_active_or_committing new_aborted"
  using assms by (simp add: set_committing_status set_committing_seq)

theorem packed_state_round_trip_witness:
  "status (set_committing SEQ_MASK (new_active 7 0)) = Committing \<and>
   commit_seq (set_committing SEQ_MASK (new_active 7 0)) = 2 ^ 62 - 1"
  using packed_state_round_trip [of "new_active 7 0" SEQ_MASK] by (simp add: SEQ_MASK_def)

end
