(* ===== verification/Txn_Registry.thy ===== *)
theory Txn_Registry
  imports Txn_State
begin

text \<open>
  The transaction registry of \<open>crates/radixdb-storage/src/mvcc/registry.rs\<close>: admission, two-phase
  commit, abort, recovery, visibility, garbage collection and the wait-for graph. The lock-protected
  maps are association lists (\<open>I64_Map_Correct\<close> shows that the \<open>I64Map\<close> behind them acts as a finite
  map), counters are 64-bit words that wrap, and the \<open>Arc<AtomicBool>\<close> a snapshot boundary shares with
  the thread-local caches is an address into \<open>flags\<close>. \<open>get_fast_timestamp()\<close> is an argument \<open>now\<close>.
  An operation that releases a lock in the middle is the composition of one definition per section.
\<close>

section \<open>State\<close>

datatype registry_error =
    InvalidTransactionTransition int string string
  | InternalError string
  | RecoveredIdOutsideDomain int
  | RecoveredSequenceOutsideDomain int

datatype isolation_level = ReadCommitted | SnapshotIsolation

record snapshot_boundary =
  max_txn_id :: int
  excluded :: "int list"
  active_flag :: nat

record registry =
  cache_epoch :: nat
  transactions :: "(int \<times> txn_state) list"
  snapshot_seqs :: "(int \<times> int) list"
  snapshot_exclusions :: "(int \<times> snapshot_boundary) list"
  terminal_times :: "(int \<times> int) list"
  next_txn_id :: int
  next_sequence :: int
  global_isolation_level :: nat
  isolation_overrides :: "(int \<times> nat) list"
  override_count :: "64 word"
  active_txn_count :: "64 word"
  accepting :: bool
  waits_for :: "(int \<times> int) list"
  flags :: "bool list"

definition boundary_visible :: "snapshot_boundary \<Rightarrow> int \<Rightarrow> bool" where
  "boundary_visible b version_txn_id \<longleftrightarrow>
     0 < version_txn_id \<and> version_txn_id \<le> max_txn_id b \<and>
     \<not> bsearch_hit (excluded b) version_txn_id"

definition new_registry :: "nat \<Rightarrow> registry" where
  "new_registry epoch =
     \<lparr>cache_epoch = epoch, transactions = [], snapshot_seqs = [], snapshot_exclusions = [],
      terminal_times = [], next_txn_id = 0, next_sequence = 0, global_isolation_level = 0,
      isolation_overrides = [], override_count = 0, active_txn_count = 0, accepting = True,
      waits_for = [], flags = []\<rparr>"

section \<open>Isolation levels\<close>

fun isolation_to_u8 :: "isolation_level \<Rightarrow> nat" where
  "isolation_to_u8 ReadCommitted = 0"
| "isolation_to_u8 SnapshotIsolation = 1"

definition u8_to_isolation :: "nat \<Rightarrow> isolation_level" where
  "u8_to_isolation v = (if v = 0 then ReadCommitted else SnapshotIsolation)"

definition set_global_isolation_level :: "isolation_level \<Rightarrow> registry \<Rightarrow> registry" where
  "set_global_isolation_level level s = s\<lparr>global_isolation_level := isolation_to_u8 level\<rparr>"

definition get_global_isolation_level :: "registry \<Rightarrow> isolation_level" where
  "get_global_isolation_level s = u8_to_isolation (global_isolation_level s)"

definition set_transaction_isolation_level :: "registry \<Rightarrow> int \<Rightarrow> isolation_level \<Rightarrow> bool" where
  "set_transaction_isolation_level s txn_id level =
     (case map_of (isolation_overrides s) txn_id of
        None \<Rightarrow> False | Some stored \<Rightarrow> stored = isolation_to_u8 level)"

text \<open>The three sections of \<open>remove_transaction_isolation_level\<close>.\<close>

definition remove_override :: "int \<Rightarrow> registry \<Rightarrow> bool \<times> registry" where
  "remove_override txn_id s =
     (map_of (isolation_overrides s) txn_id \<noteq> None,
      s\<lparr>isolation_overrides := AList.delete txn_id (isolation_overrides s)\<rparr>)"

definition decrement_override_count :: "registry \<Rightarrow> registry" where
  "decrement_override_count s = s\<lparr>override_count := override_count s - 1\<rparr>"

definition remove_boundary :: "int \<Rightarrow> registry \<Rightarrow> registry" where
  "remove_boundary txn_id s =
     (case map_of (snapshot_exclusions s) txn_id of
        None \<Rightarrow> s
      | Some b \<Rightarrow>
          s\<lparr>snapshot_exclusions := AList.delete txn_id (snapshot_exclusions s),
            flags := (flags s)[active_flag b := False]\<rparr>)"

definition remove_transaction_isolation_level :: "int \<Rightarrow> registry \<Rightarrow> registry" where
  "remove_transaction_isolation_level txn_id s =
     (let (present, s1) = remove_override txn_id s;
          s2 = (if present then decrement_override_count s1 else s1)
      in remove_boundary txn_id s2)"

definition get_isolation_level :: "registry \<Rightarrow> int \<Rightarrow> isolation_level" where
  "get_isolation_level s txn_id =
     (case (if override_count s \<noteq> 0 then map_of (isolation_overrides s) txn_id else None) of
        Some level \<Rightarrow> u8_to_isolation level
      | None \<Rightarrow> get_global_isolation_level s)"

definition needs_snapshot_isolation :: "registry \<Rightarrow> int \<Rightarrow> bool" where
  "needs_snapshot_isolation s txn_id =
     (case (if override_count s \<noteq> 0 then map_of (isolation_overrides s) txn_id else None) of
        Some level \<Rightarrow> level = 1
      | None \<Rightarrow> global_isolation_level s = 1)"

fun min_option :: "int list \<Rightarrow> int option" where
  "min_option [] = None"
| "min_option (x # xs) = (case min_option xs of None \<Rightarrow> Some x | Some y \<Rightarrow> Some (min x y))"

definition get_min_snapshot_begin_seq :: "registry \<Rightarrow> int option" where
  "get_min_snapshot_begin_seq s =
     min_option (map (\<lambda>(_, st). begin_seq st)
       (filter (\<lambda>(txn_id, st). is_active_or_committing st \<and>
                               map_of (isolation_overrides s) txn_id = Some 1)
          (transactions s)))"

section \<open>Admission and two-phase commit\<close>

definition next_id :: "registry \<Rightarrow> int option" where
  "next_id s =
     (case checked_add_i64 (next_txn_id s) 1 of
        Some n \<Rightarrow> if n < i64_max then Some n else None
      | None \<Rightarrow> None)"

definition next_seq :: "registry \<Rightarrow> int option" where
  "next_seq s =
     (case checked_add_i64 (next_sequence s) 1 of
        Some n \<Rightarrow> if n \<le> SEQ_MASK then Some n else None
      | None \<Rightarrow> None)"

definition begin_transaction_with_isolation ::
  "isolation_level \<Rightarrow> int \<Rightarrow> registry \<Rightarrow> (int \<times> int) \<times> registry" where
  "begin_transaction_with_isolation level now s =
     (if \<not> accepting s then ((INVALID_TRANSACTION_ID, 0), s)
      else case next_id s of
             None \<Rightarrow> ((INVALID_TRANSACTION_ID, 0), s)
           | Some txn_id \<Rightarrow>
               (case next_seq s of
                  None \<Rightarrow> ((INVALID_TRANSACTION_ID, 0), s)
                | Some begin_s \<Rightarrow>
                    (let excl = (if level = SnapshotIsolation then sort (map fst (transactions s)) else []);
                         s1 = s\<lparr>next_txn_id := txn_id, next_sequence := begin_s,
                                transactions := AList.update txn_id (new_active begin_s now) (transactions s),
                                isolation_overrides :=
                                  AList.update txn_id (isolation_to_u8 level) (isolation_overrides s)\<rparr>;
                         s2 = (if level = SnapshotIsolation
                               then s1\<lparr>snapshot_exclusions :=
                                         AList.update txn_id
                                           \<lparr>max_txn_id = txn_id, excluded = excl, active_flag = length (flags s1)\<rparr>
                                           (snapshot_exclusions s1),
                                       flags := flags s1 @ [True]\<rparr>
                               else s1)
                     in ((txn_id, begin_s),
                         s2\<lparr>override_count := override_count s2 + 1,
                            active_txn_count := active_txn_count s2 + 1\<rparr>))))"

definition begin_transaction :: "int \<Rightarrow> registry \<Rightarrow> (int \<times> int) \<times> registry" where
  "begin_transaction now s = begin_transaction_with_isolation (get_global_isolation_level s) now s"

fun status_debug :: "txn_status \<Rightarrow> string" where
  "status_debug Active = ''Active''"
| "status_debug Committing = ''Committing''"
| "status_debug Aborted = ''Aborted''"

definition start_commit :: "int \<Rightarrow> registry \<Rightarrow> (registry_error, int \<times> registry) result" where
  "start_commit txn_id s =
     (case map_of (transactions s) txn_id of
        None \<Rightarrow> Inl (InvalidTransactionTransition txn_id ''Active'' ''missing'')
      | Some entry \<Rightarrow>
          if status entry \<noteq> Active
          then Inl (InvalidTransactionTransition txn_id ''Active'' (status_debug (status entry)))
          else case next_seq s of
                 None \<Rightarrow> Inl (InternalError ''MVCC commit sequence domain exhausted'')
               | Some seq \<Rightarrow>
                   Inr (seq, s\<lparr>next_sequence := seq,
                               transactions :=
                                 AList.update txn_id (set_committing seq entry) (transactions s)\<rparr>))"

text \<open>The section of \<open>complete_commit_inner\<close> under the \<open>transactions\<close> lock.\<close>

definition publish_commit ::
  "int \<Rightarrow> bool \<Rightarrow> int \<Rightarrow> registry \<Rightarrow> (registry_error, int \<times> registry) result" where
  "publish_commit txn_id reserve_storage_seq now s =
     (case map_of (transactions s) txn_id of
        None \<Rightarrow> Inl (InvalidTransactionTransition txn_id ''Committing'' ''missing'')
      | Some st \<Rightarrow>
          if status st \<noteq> Committing \<or> commit_seq st \<le> 0
          then Inl (InvalidTransactionTransition txn_id ''Committing'' (status_debug (status st)))
          else
            rbind
              (if reserve_storage_seq
               then (case next_seq s of
                       None \<Rightarrow> Inl (InternalError ''MVCC storage publication sequence domain exhausted'')
                     | Some n \<Rightarrow> Inr (n, s\<lparr>next_sequence := n\<rparr>))
               else Inr (commit_seq st, s))
              (\<lambda>(storage_seq, s1).
                 Inr (storage_seq,
                      s1\<lparr>snapshot_seqs := AList.update txn_id (commit_seq st) (snapshot_seqs s1),
                         terminal_times := AList.update txn_id now (terminal_times s1),
                         transactions := AList.delete txn_id (transactions s1)\<rparr>)))"

definition decrement_active :: "registry \<Rightarrow> registry" where
  "decrement_active s = s\<lparr>active_txn_count := active_txn_count s - 1\<rparr>"

definition complete_commit_inner ::
  "int \<Rightarrow> bool \<Rightarrow> int \<Rightarrow> registry \<Rightarrow> (registry_error, int \<times> registry) result" where
  "complete_commit_inner txn_id reserve_storage_seq now s =
     rbind (publish_commit txn_id reserve_storage_seq now s)
       (\<lambda>(storage_seq, s1).
          Inr (storage_seq, remove_transaction_isolation_level txn_id (decrement_active s1)))"

definition complete_commit :: "int \<Rightarrow> int \<Rightarrow> registry \<Rightarrow> (registry_error, registry) result" where
  "complete_commit txn_id now s =
     rbind (complete_commit_inner txn_id False now s) (\<lambda>(_, s1). Inr s1)"

definition complete_commit_with_storage_publication ::
  "int \<Rightarrow> int \<Rightarrow> registry \<Rightarrow> (registry_error, int \<times> registry) result" where
  "complete_commit_with_storage_publication txn_id now s = complete_commit_inner txn_id True now s"

text \<open>The sections of \<open>abort_transaction\<close>: the marker, the completion time, the counters.\<close>

definition mark_aborted :: "int \<Rightarrow> registry \<Rightarrow> bool \<times> registry" where
  "mark_aborted txn_id s =
     (case map_of (transactions s) txn_id of
        None \<Rightarrow> (False, s)
      | Some st \<Rightarrow>
          (is_active_or_committing st,
           s\<lparr>transactions := AList.update txn_id new_aborted (transactions s)\<rparr>))"

definition record_terminal :: "int \<Rightarrow> int \<Rightarrow> registry \<Rightarrow> registry" where
  "record_terminal txn_id now s = s\<lparr>terminal_times := AList.update txn_id now (terminal_times s)\<rparr>"

definition abort_transaction :: "int \<Rightarrow> int \<Rightarrow> registry \<Rightarrow> registry" where
  "abort_transaction txn_id now s =
     (let (should_decrement, s1) = mark_aborted txn_id s
      in if should_decrement
         then remove_transaction_isolation_level txn_id (decrement_active (record_terminal txn_id now s1))
         else s1)"

section \<open>Recovery\<close>

definition raise_sequence :: "int \<Rightarrow> registry \<Rightarrow> registry" where
  "raise_sequence seq s = (if next_sequence s < seq then s\<lparr>next_sequence := seq\<rparr> else s)"

definition recover_transaction_high_water_locked :: "int \<Rightarrow> registry \<Rightarrow> registry" where
  "recover_transaction_high_water_locked txn_id s =
     (if next_txn_id s < txn_id then s\<lparr>next_txn_id := txn_id\<rparr> else s)"

definition recover_committed_transaction ::
  "int \<Rightarrow> int \<Rightarrow> int \<Rightarrow> registry \<Rightarrow> (registry_error, registry) result" where
  "recover_committed_transaction txn_id seq now s =
     (if \<not> is_internal_durable_transaction_id txn_id \<and> (txn_id \<le> 0 \<or> txn_id = i64_max)
      then Inl (RecoveredIdOutsideDomain txn_id)
      else if \<not> (1 \<le> seq \<and> seq \<le> SEQ_MASK) then Inl (RecoveredSequenceOutsideDomain seq)
      else if is_internal_durable_transaction_id txn_id then Inr (raise_sequence seq s)
      else Inr (raise_sequence seq (recover_transaction_high_water_locked txn_id
                  (record_terminal txn_id now
                    (s\<lparr>snapshot_seqs := AList.update txn_id seq (snapshot_seqs s)\<rparr>)))))"

definition recover_aborted_transaction :: "int \<Rightarrow> int \<Rightarrow> registry \<Rightarrow> (registry_error, registry) result" where
  "recover_aborted_transaction txn_id now s =
     (if is_internal_durable_transaction_id txn_id then Inr s
      else if txn_id \<le> 0 \<or> txn_id = i64_max then Inl (RecoveredIdOutsideDomain txn_id)
      else Inr (recover_transaction_high_water_locked txn_id
                 (record_terminal txn_id now
                   (s\<lparr>transactions := AList.update txn_id new_aborted (transactions s)\<rparr>))))"

definition recover_transaction_high_water :: "int \<Rightarrow> registry \<Rightarrow> (registry_error, registry) result" where
  "recover_transaction_high_water txn_id s =
     (if txn_id \<le> 0 then Inr s
      else if txn_id = i64_max then Inl (RecoveredIdOutsideDomain txn_id)
      else Inr (recover_transaction_high_water_locked txn_id s))"

definition recover_visibility_high_water :: "int \<Rightarrow> registry \<Rightarrow> (registry_error, registry) result" where
  "recover_visibility_high_water seq s =
     (if \<not> (0 \<le> seq \<and> seq \<le> SEQ_MASK) then Inl (RecoveredSequenceOutsideDomain seq)
      else Inr (raise_sequence seq s))"

section \<open>The thread-local cache\<close>

definition CACHE_SIZE :: nat where
  "CACHE_SIZE = 4096"

definition CACHE_SHIFT :: nat where
  "CACHE_SHIFT = 12"

record committed_cache =
  registry_epoch :: nat
  cache_entries :: "int list"
  occupied_indices :: "nat list"
  snapshot_viewer :: int
  cached_boundary :: "snapshot_boundary option"

definition new_cache :: committed_cache where
  "new_cache =
     \<lparr>registry_epoch = 0, cache_entries = replicate CACHE_SIZE 0, occupied_indices = [],
      snapshot_viewer = 0, cached_boundary = None\<rparr>"

definition cache_index :: "int \<Rightarrow> nat" where
  "cache_index txn_id =
     (let x = (word_of_int txn_id :: 64 word)
      in unat (x XOR drop_bit CACHE_SHIFT x) AND (CACHE_SIZE - 1))"

definition cache_contains :: "committed_cache \<Rightarrow> nat \<Rightarrow> int \<Rightarrow> bool" where
  "cache_contains c epoch txn_id \<longleftrightarrow>
     registry_epoch c = epoch \<and> cache_entries c ! cache_index txn_id = txn_id"

text \<open>The loop that zeroes the occupied entries when the cache changes owner.\<close>

definition evict_entries :: "committed_cache \<Rightarrow> committed_cache" where
  "evict_entries c =
     c\<lparr>cache_entries := fold (\<lambda>i es. es[i := 0]) (occupied_indices c) (cache_entries c),
       occupied_indices := []\<rparr>"

definition cache_insert :: "nat \<Rightarrow> int \<Rightarrow> committed_cache \<Rightarrow> committed_cache" where
  "cache_insert epoch txn_id c =
     (let c1 = (if registry_epoch c \<noteq> epoch
                then (evict_entries c)\<lparr>registry_epoch := epoch, snapshot_viewer := 0,
                                       cached_boundary := None\<rparr>
                else c);
          idx = cache_index txn_id;
          c2 = (if cache_entries c1 ! idx = 0
                then c1\<lparr>occupied_indices := occupied_indices c1 @ [idx]\<rparr> else c1)
      in c2\<lparr>cache_entries := (cache_entries c2)[idx := txn_id]\<rparr>)"

definition snapshot_visibility ::
  "bool list \<Rightarrow> committed_cache \<Rightarrow> nat \<Rightarrow> int \<Rightarrow> int \<Rightarrow> bool option" where
  "snapshot_visibility fl c epoch version_txn_id viewer_txn_id =
     (if registry_epoch c \<noteq> epoch \<or> snapshot_viewer c \<noteq> viewer_txn_id then None
      else case cached_boundary c of
             None \<Rightarrow> None
           | Some b \<Rightarrow> if fl ! active_flag b then Some (boundary_visible b version_txn_id) else None)"

definition install_snapshot ::
  "nat \<Rightarrow> int \<Rightarrow> snapshot_boundary \<Rightarrow> committed_cache \<Rightarrow> committed_cache" where
  "install_snapshot epoch viewer_txn_id b c =
     (let c1 = (if registry_epoch c \<noteq> epoch
                then (evict_entries c)\<lparr>registry_epoch := epoch\<rparr> else c)
      in c1\<lparr>snapshot_viewer := viewer_txn_id, cached_boundary := Some b\<rparr>)"

section \<open>Visibility\<close>

definition check_committed :: "registry \<Rightarrow> int \<Rightarrow> committed_cache \<Rightarrow> bool \<times> committed_cache" where
  "check_committed s txn_id c =
     (if txn_id \<le> 0 \<or> next_txn_id s < txn_id then (False, c)
      else if map_of (transactions s) txn_id \<noteq> None then (False, c)
      else if cache_contains c (cache_epoch s) txn_id then (True, c)
      else (True, cache_insert (cache_epoch s) txn_id c))"

definition is_directly_visible :: "registry \<Rightarrow> int \<Rightarrow> committed_cache \<Rightarrow> bool \<times> committed_cache" where
  "is_directly_visible s version_txn_id c =
     (if version_txn_id = RECOVERY_TRANSACTION_ID then (True, c)
      else check_committed s version_txn_id c)"

definition is_visible_snapshot ::
  "registry \<Rightarrow> int \<Rightarrow> int \<Rightarrow> committed_cache \<Rightarrow> bool \<times> committed_cache" where
  "is_visible_snapshot s version_txn_id viewer_txn_id c =
     (case snapshot_visibility (flags s) c (cache_epoch s) version_txn_id viewer_txn_id of
        Some visible \<Rightarrow> (visible, c)
      | None \<Rightarrow>
          (case map_of (snapshot_exclusions s) viewer_txn_id of
             None \<Rightarrow> check_committed s version_txn_id c
           | Some b \<Rightarrow>
               (boundary_visible b version_txn_id,
                install_snapshot (cache_epoch s) viewer_txn_id b c)))"

definition is_visible ::
  "registry \<Rightarrow> int \<Rightarrow> int \<Rightarrow> committed_cache \<Rightarrow> bool \<times> committed_cache" where
  "is_visible s version_txn_id viewer_txn_id c =
     (if version_txn_id = viewer_txn_id then (True, c)
      else if version_txn_id = RECOVERY_TRANSACTION_ID then (True, c)
      else if needs_snapshot_isolation s viewer_txn_id
      then is_visible_snapshot s version_txn_id viewer_txn_id c
      else check_committed s version_txn_id c)"

section \<open>Queries\<close>

definition is_committed :: "registry \<Rightarrow> int \<Rightarrow> bool" where
  "is_committed s txn_id \<longleftrightarrow>
     map_of (transactions s) txn_id = None \<and> 0 < txn_id \<and> txn_id \<le> next_txn_id s"

definition get_commit_sequence :: "registry \<Rightarrow> int \<Rightarrow> int option" where
  "get_commit_sequence s txn_id =
     (case map_of (snapshot_seqs s) txn_id of
        Some seq \<Rightarrow> Some seq
      | None \<Rightarrow>
          (case map_of (transactions s) txn_id of
             Some st \<Rightarrow>
               if is_aborted st \<or> is_active_or_committing st then None
               else if 0 < txn_id \<and> txn_id \<le> next_txn_id s then Some 0 else None
           | None \<Rightarrow> if 0 < txn_id \<and> txn_id \<le> next_txn_id s then Some 0 else None))"

definition get_transaction_begin_sequence :: "registry \<Rightarrow> int \<Rightarrow> int" where
  "get_transaction_begin_sequence s txn_id =
     (case map_of (transactions s) txn_id of None \<Rightarrow> 0 | Some st \<Rightarrow> begin_seq st)"

definition get_committing_sequence :: "registry \<Rightarrow> int \<Rightarrow> int" where
  "get_committing_sequence s txn_id =
     (case map_of (transactions s) txn_id of None \<Rightarrow> 0 | Some st \<Rightarrow> commit_seq st)"

definition reserve_visibility_sequence :: "registry \<Rightarrow> (registry_error, int \<times> registry) result" where
  "reserve_visibility_sequence s =
     (case next_seq s of
        None \<Rightarrow> Inl (InternalError ''MVCC visibility sequence domain exhausted'')
      | Some seq \<Rightarrow> Inr (seq, s\<lparr>next_sequence := seq\<rparr>))"

fun scan_committing :: "(int \<times> txn_state) list \<Rightarrow> int \<Rightarrow> int" where
  "scan_committing [] acc = acc"
| "scan_committing ((_, st) # xs) acc =
     scan_committing xs
       (if status st = Committing \<and> 0 < commit_seq st \<and> commit_seq st < acc
        then commit_seq st else acc)"

definition safe_snapshot_cutoff :: "registry \<Rightarrow> int" where
  "safe_snapshot_cutoff s =
     (let min_committing = scan_committing (transactions s) i64_max
      in if min_committing = i64_max then next_sequence s else min_committing - 1)"

definition active_transaction_ids :: "registry \<Rightarrow> int list" where
  "active_transaction_ids s =
     map fst (filter (\<lambda>(_, st). status st = Active \<or> status st = Committing) (transactions s))"

definition is_active :: "registry \<Rightarrow> int \<Rightarrow> bool" where
  "is_active s txn_id =
     (case map_of (transactions s) txn_id of None \<Rightarrow> False | Some st \<Rightarrow> status st = Active)"

definition is_committed_before :: "registry \<Rightarrow> int \<Rightarrow> int \<Rightarrow> bool" where
  "is_committed_before s txn_id cutoff_commit_seq =
     (if txn_id < 0 then True
      else if map_of (transactions s) txn_id \<noteq> None then False
      else case map_of (snapshot_seqs s) txn_id of
             Some seq \<Rightarrow> seq \<le> cutoff_commit_seq
           | None \<Rightarrow> 0 < txn_id \<and> txn_id \<le> next_txn_id s)"

section \<open>Garbage collection\<close>

definition saturating_sub_i64 :: "int \<Rightarrow> int \<Rightarrow> int" where
  "saturating_sub_i64 a b = max i64_min (min i64_max (a - b))"

definition retention_ns :: "nat \<Rightarrow> int" where
  "retention_ns nanos = (if int nanos \<le> i64_max then int nanos else i64_max)"

definition is_expired :: "int \<Rightarrow> int \<Rightarrow> int \<Rightarrow> bool" where
  "is_expired retention now completed_at \<longleftrightarrow>
     retention = 0 \<or> retention \<noteq> i64_max \<and> retention \<le> saturating_sub_i64 now completed_at"

definition gc_override_keys :: "registry \<Rightarrow> int list" where
  "gc_override_keys s = (if override_count s \<noteq> 0 then map fst (isolation_overrides s) else [])"

definition live_states :: "registry \<Rightarrow> (int \<times> txn_state) list" where
  "live_states s = filter (\<lambda>(_, st). is_active_or_committing st) (transactions s)"

definition gc_min_begin :: "registry \<Rightarrow> int" where
  "gc_min_begin s = foldl (\<lambda>m (_, st). min m (begin_seq st)) i64_max (live_states s)"

definition gc_min_id :: "registry \<Rightarrow> int" where
  "gc_min_id s =
     (let m = foldl (\<lambda>m (txn_id, _). min m txn_id) i64_max (live_states s)
      in if m = i64_max then next_txn_id s else m)"

definition gc_drops :: "registry \<Rightarrow> int \<Rightarrow> int \<Rightarrow> int \<times> txn_state \<Rightarrow> bool" where
  "gc_drops s retention now e \<longleftrightarrow>
     is_aborted (snd e) \<and> fst e < saturating_sub_i64 (gc_min_id s) 10000 \<and>
     (case map_of (terminal_times s) (fst e) of None \<Rightarrow> False | Some t \<Rightarrow> is_expired retention now t)"

definition gc_invalid :: "registry \<Rightarrow> int list \<Rightarrow> int list" where
  "gc_invalid s keys =
     filter (\<lambda>k. case map_of (transactions s) k of None \<Rightarrow> True | Some st \<Rightarrow> is_aborted st) keys"

record gc_sweep_result =
  gc_min_begin_seq :: int
  gc_invalid_overrides :: "int list"
  gc_removed_ids :: "int list"
  gc_removed :: nat

definition gc_sweep :: "int \<Rightarrow> int \<Rightarrow> int list \<Rightarrow> registry \<Rightarrow> gc_sweep_result \<times> registry" where
  "gc_sweep retention now keys s =
     (let min_begin = gc_min_begin s;
          drops = (if 0 < saturating_sub_i64 (gc_min_id s) 10000
                   then filter (gc_drops s retention now) (transactions s) else []);
          s1 = (if 0 < saturating_sub_i64 (gc_min_id s) 10000
                then s\<lparr>transactions := filter (\<lambda>e. \<not> gc_drops s retention now e) (transactions s)\<rparr>
                else s)
      in (\<lparr>gc_min_begin_seq = min_begin, gc_invalid_overrides = gc_invalid s1 keys,
           gc_removed_ids = map fst drops, gc_removed = length drops\<rparr>, s1))"

definition seq_drops :: "registry \<Rightarrow> int \<Rightarrow> int \<Rightarrow> int \<Rightarrow> int \<times> int \<Rightarrow> bool" where
  "seq_drops s retention now min_begin e \<longleftrightarrow>
     snd e < min_begin \<and>
     (case map_of (terminal_times s) (fst e) of None \<Rightarrow> False | Some t \<Rightarrow> is_expired retention now t)"

definition gc_sequences :: "int \<Rightarrow> int \<Rightarrow> int \<Rightarrow> registry \<Rightarrow> int list \<times> registry" where
  "gc_sequences retention now min_begin s =
     (map fst (filter (seq_drops s retention now min_begin) (snapshot_seqs s)),
      s\<lparr>snapshot_seqs := filter (\<lambda>e. \<not> seq_drops s retention now min_begin e) (snapshot_seqs s)\<rparr>)"

definition gc_times :: "int list \<Rightarrow> registry \<Rightarrow> registry" where
  "gc_times ids s = s\<lparr>terminal_times := fold AList.delete ids (terminal_times s)\<rparr>"

fun remove_overrides :: "int list \<Rightarrow> (int \<times> nat) list \<Rightarrow> nat \<times> (int \<times> nat) list" where
  "remove_overrides [] ov = (0, ov)"
| "remove_overrides (k # ks) ov =
     (let (n, ov') = remove_overrides ks (AList.delete k ov)
      in (if map_of ov k \<noteq> None then n + 1 else n, ov'))"

definition gc_overrides :: "int list \<Rightarrow> registry \<Rightarrow> nat \<times> registry" where
  "gc_overrides invalid s =
     (let (n, ov) = remove_overrides invalid (isolation_overrides s)
      in (n, s\<lparr>isolation_overrides := ov, override_count := override_count s - of_nat n\<rparr>))"

definition run_gc_with_retention :: "nat \<Rightarrow> int \<Rightarrow> registry \<Rightarrow> nat \<times> registry" where
  "run_gc_with_retention max_age now s =
     (let ret = retention_ns max_age;
          keys = gc_override_keys s;
          (sw, s1) = gc_sweep ret now keys s;
          (ids, s2) = gc_sequences ret now (gc_min_begin_seq sw) s1;
          s3 = gc_times (gc_removed_ids sw @ ids) s2;
          (n, s4) = gc_overrides (gc_invalid_overrides sw) s3
      in (gc_removed sw + length ids + n, s4))"

definition run_gc :: "int \<Rightarrow> registry \<Rightarrow> nat \<times> registry" where
  "run_gc now s = run_gc_with_retention 0 now s"

section \<open>Admission control and reset\<close>

definition stop_accepting_transactions :: "registry \<Rightarrow> registry" where
  "stop_accepting_transactions s = s\<lparr>accepting := False\<rparr>"

definition start_accepting_transactions :: "registry \<Rightarrow> registry" where
  "start_accepting_transactions s = s\<lparr>accepting := True\<rparr>"

definition reset_after_failed_startup :: "registry \<Rightarrow> registry" where
  "reset_after_failed_startup s =
     s\<lparr>accepting := False, transactions := [], snapshot_seqs := [],
       flags := fold (\<lambda>(_, b) fl. fl[active_flag b := False]) (snapshot_exclusions s) (flags s),
       snapshot_exclusions := [], terminal_times := [], isolation_overrides := [], waits_for := [],
       next_txn_id := 0, next_sequence := 0, override_count := 0, active_txn_count := 0\<rparr>"

section \<open>Seal visibility\<close>

record seal_visibility =
  max_visible_txn_id :: "int option"
  excluded_txn_ids :: "int list"

definition new_seal_visibility :: "int option \<Rightarrow> int list \<Rightarrow> seal_visibility" where
  "new_seal_visibility mx excl =
     \<lparr>max_visible_txn_id = mx, excluded_txn_ids = remdups_adj (sort excl)\<rparr>"

definition seal_visible :: "seal_visibility \<Rightarrow> int \<Rightarrow> bool" where
  "seal_visible sv txn_id \<longleftrightarrow>
     txn_id < 0 \<or>
     0 < txn_id \<and>
     (case max_visible_txn_id sv of None \<Rightarrow> True | Some mx \<Rightarrow> txn_id \<le> mx) \<and>
     \<not> bsearch_hit (excluded_txn_ids sv) txn_id"

definition active_boundaries :: "registry \<Rightarrow> snapshot_boundary list" where
  "active_boundaries s = filter (\<lambda>b. flags s ! active_flag b) (map snd (snapshot_exclusions s))"

definition capture_seal_visibility :: "registry \<Rightarrow> seal_visibility" where
  "capture_seal_visibility s =
     (let mx = min_option (map max_txn_id (active_boundaries s))
      in new_seal_visibility mx
           (map fst (live_states s) @
            concat (map (\<lambda>b. filter (\<lambda>x. case mx of None \<Rightarrow> True | Some m \<Rightarrow> x \<le> m) (excluded b))
                      (active_boundaries s))))"

section \<open>The wait-for graph\<close>

function wait_walk :: "(int \<times> int) list \<Rightarrow> int \<Rightarrow> int \<Rightarrow> nat \<Rightarrow> bool" where
  "wait_walk graph waiter current steps =
     (case map_of graph current of
        None \<Rightarrow> True
      | Some nxt \<Rightarrow>
          if nxt = waiter then False
          else if length graph < steps + 1 then False
          else wait_walk graph waiter nxt (steps + 1))"
  by pat_completeness auto
termination
  by (relation "measure (\<lambda>(graph, waiter, current, steps). length graph + 1 - steps)") auto

declare wait_walk.simps [simp del]

definition register_row_wait :: "int \<Rightarrow> int \<Rightarrow> registry \<Rightarrow> bool \<times> registry" where
  "register_row_wait waiter_txn_id owner_txn_id s =
     (if waiter_txn_id = owner_txn_id then (True, s)
      else
        let graph = AList.update waiter_txn_id owner_txn_id (waits_for s)
        in if wait_walk graph waiter_txn_id owner_txn_id 0
           then (True, s\<lparr>waits_for := graph\<rparr>)
           else (False, s\<lparr>waits_for := AList.delete waiter_txn_id graph\<rparr>))"

definition clear_row_wait :: "int \<Rightarrow> registry \<Rightarrow> registry" where
  "clear_row_wait waiter_txn_id s = s\<lparr>waits_for := AList.delete waiter_txn_id (waits_for s)\<rparr>"

end
