(* ===== verification/Txn_System.thy ===== *)
theory Txn_System
  imports Txn_Registry
begin

text \<open>
  The registry of \<open>crates/radixdb-storage/src/mvcc/registry.rs\<close> under concurrent callers. A section
  that runs under one lock, or one atomic instruction, is one step; what an operation still has to do
  after releasing the \<open>transactions\<close> lock is a job, and the jobs of all threads interleave freely with
  every other call. Each thread has its own \<open>CommittedCache\<close>.
\<close>

section \<open>Pending work\<close>

datatype job =
    RecordAbort int
  | DecActive int
  | RemOverride int
  | DecOverride int
  | RemBoundary int
  | GcSweep int int "int list"
  | GcSequences int int gc_sweep_result
  | GcTimes "int list" "int list"
  | GcOverrides "int list"

text \<open>One step of a job: what is left of it, and the registry afterwards.\<close>

fun job_step :: "int \<Rightarrow> job \<Rightarrow> registry \<Rightarrow> job option \<times> registry" where
  "job_step now (RecordAbort i) s = (Some (DecActive i), record_terminal i now s)"
| "job_step now (DecActive i) s = (Some (RemOverride i), decrement_active s)"
| "job_step now (RemOverride i) s =
     (let (present, s1) = remove_override i s
      in (Some (if present then DecOverride i else RemBoundary i), s1))"
| "job_step now (DecOverride i) s = (Some (RemBoundary i), decrement_override_count s)"
| "job_step now (RemBoundary i) s = (None, remove_boundary i s)"
| "job_step now (GcSweep ret t keys) s =
     (let (sw, s1) = gc_sweep ret t keys s in (Some (GcSequences ret t sw), s1))"
| "job_step now (GcSequences ret t sw) s =
     (let (ids, s1) = gc_sequences ret t (gc_min_begin_seq sw) s
      in (Some (GcTimes (gc_removed_ids sw @ ids) (gc_invalid_overrides sw)), s1))"
| "job_step now (GcTimes ids invalid) s = (Some (GcOverrides invalid), gc_times ids s)"
| "job_step now (GcOverrides invalid) s = (None, snd (gc_overrides invalid s))"

record system =
  reg :: registry
  jobs :: "job list"
  caches :: "nat \<Rightarrow> committed_cache"

datatype event =
    EBegin isolation_level int
  | EStartCommit int
  | EPublish int bool int
  | EAbort int
  | EJob nat int
  | EGc nat int
  | EReserve
  | EStop
  | EStart
  | ESetGlobal isolation_level
  | EVisible nat int int
  | EDirect nat int
  | EWait int int
  | EClearWait int

definition add_job :: "job \<Rightarrow> registry \<Rightarrow> system \<Rightarrow> system" where
  "add_job j s S = S\<lparr>reg := s, jobs := jobs S @ [j]\<rparr>"

definition run_job :: "nat \<Rightarrow> int \<Rightarrow> system \<Rightarrow> system" where
  "run_job i now S =
     (if i < length (jobs S) then
        let (rest, s) = job_step now (jobs S ! i) (reg S)
        in S\<lparr>reg := s,
             jobs := take i (jobs S) @ (case rest of None \<Rightarrow> [] | Some j \<Rightarrow> [j]) @ drop (Suc i) (jobs S)\<rparr>
      else S)"

fun sys_step :: "event \<Rightarrow> system \<Rightarrow> system" where
  "sys_step (EBegin level now) S =
     S\<lparr>reg := snd (begin_transaction_with_isolation level now (reg S))\<rparr>"
| "sys_step (EStartCommit i) S =
     (case start_commit i (reg S) of Inl _ \<Rightarrow> S | Inr (_, s) \<Rightarrow> S\<lparr>reg := s\<rparr>)"
| "sys_step (EPublish i reserve now) S =
     (case publish_commit i reserve now (reg S) of Inl _ \<Rightarrow> S | Inr (_, s) \<Rightarrow> add_job (DecActive i) s S)"
| "sys_step (EAbort i) S =
     (let (d, s) = mark_aborted i (reg S) in if d then add_job (RecordAbort i) s S else S\<lparr>reg := s\<rparr>)"
| "sys_step (EJob i now) S = run_job i now S"
| "sys_step (EGc max_age now) S =
     add_job (GcSweep (retention_ns max_age) now (gc_override_keys (reg S))) (reg S) S"
| "sys_step EReserve S =
     (case reserve_visibility_sequence (reg S) of Inl _ \<Rightarrow> S | Inr (_, s) \<Rightarrow> S\<lparr>reg := s\<rparr>)"
| "sys_step EStop S = S\<lparr>reg := stop_accepting_transactions (reg S)\<rparr>"
| "sys_step EStart S = S\<lparr>reg := start_accepting_transactions (reg S)\<rparr>"
| "sys_step (ESetGlobal level) S = S\<lparr>reg := set_global_isolation_level level (reg S)\<rparr>"
| "sys_step (EVisible t x v) S =
     S\<lparr>caches := (caches S)(t := snd (is_visible (reg S) x v (caches S t)))\<rparr>"
| "sys_step (EDirect t x) S =
     S\<lparr>caches := (caches S)(t := snd (is_directly_visible (reg S) x (caches S t)))\<rparr>"
| "sys_step (EWait w ow) S = S\<lparr>reg := snd (register_row_wait w ow (reg S))\<rparr>"
| "sys_step (EClearWait w) S = S\<lparr>reg := clear_row_wait w (reg S)\<rparr>"

inductive step :: "system \<Rightarrow> system \<Rightarrow> bool" where
  step_event: "step S (sys_step e S)"

inductive_cases stepE: "step S S'"

text \<open>
  The registry a database opens with: a new one that startup recovery has filled. Recovery runs
  before any transaction is admitted; the identifiers it passes are \<open>i64\<close> values.
\<close>

inductive recovered :: "registry \<Rightarrow> bool" where
  rec_new: "recovered (new_registry epoch)"
| rec_committed: "recovered s \<Longrightarrow> i \<le> i64_max \<Longrightarrow> recover_committed_transaction i seq now s = Inr s' \<Longrightarrow> recovered s'"
| rec_aborted: "recovered s \<Longrightarrow> i \<le> i64_max \<Longrightarrow> recover_aborted_transaction i now s = Inr s' \<Longrightarrow> recovered s'"
| rec_id: "recovered s \<Longrightarrow> i \<le> i64_max \<Longrightarrow> recover_transaction_high_water i s = Inr s' \<Longrightarrow> recovered s'"
| rec_seq: "recovered s \<Longrightarrow> recover_visibility_high_water seq s = Inr s' \<Longrightarrow> recovered s'"

text \<open>A cache may hold another registry's entries, and indexes what it holds.\<close>

definition cache_wf :: "committed_cache \<Rightarrow> bool" where
  "cache_wf c \<longleftrightarrow>
     length (cache_entries c) = CACHE_SIZE \<and>
     (\<forall>i < CACHE_SIZE. cache_entries c ! i \<noteq> 0 \<longrightarrow> i \<in> set (occupied_indices c))"

inductive reachable :: "system \<Rightarrow> bool" where
  reach_init:
    "recovered s \<Longrightarrow> (\<And>t. cache_wf (cs t) \<and> registry_epoch (cs t) \<noteq> cache_epoch s) \<Longrightarrow>
     reachable \<lparr>reg = s, jobs = [], caches = cs\<rparr>"
| reach_step: "reachable S \<Longrightarrow> step S S' \<Longrightarrow> reachable S'"

section \<open>The invariant\<close>

definition live :: "registry \<Rightarrow> int set" where
  "live s = {i. \<exists>st. map_of (transactions s) i = Some st \<and> is_active_or_committing st}"

definition state_ok :: "int \<Rightarrow> txn_state \<Rightarrow> bool" where
  "state_ok seq st \<longleftrightarrow>
     (is_active_or_committing st \<longrightarrow>
        1 \<le> begin_seq st \<and> begin_seq st \<le> seq \<and>
        (status st = Active \<or>
         status st = Committing \<and> begin_seq st < commit_seq st \<and> commit_seq st \<le> seq))"

definition boundary_ok :: "bool list \<Rightarrow> int \<Rightarrow> snapshot_boundary \<Rightarrow> bool" where
  "boundary_ok fl i b \<longleftrightarrow>
     max_txn_id b = i \<and> sorted (excluded b) \<and> set (excluded b) \<subseteq> {0<..<i} \<and>
     active_flag b < length fl \<and> fl ! active_flag b"

text \<open>Identifiers and sequences stay in their domains and the tables have one entry per key.\<close>

definition ids_in :: "int \<Rightarrow> (int \<times> 'a) list \<Rightarrow> bool" where
  "ids_in n xs \<longleftrightarrow> (\<forall>i. map_of xs i \<noteq> None \<longrightarrow> 0 < i \<and> i \<le> n)"

definition keys_ok :: "registry \<Rightarrow> bool" where
  "keys_ok s \<longleftrightarrow>
     distinct (map fst (transactions s)) \<and> distinct (map fst (isolation_overrides s)) \<and>
     distinct (map fst (snapshot_exclusions s))"

definition ids_ok :: "registry \<Rightarrow> bool" where
  "ids_ok s \<longleftrightarrow>
     0 \<le> next_txn_id s \<and> next_txn_id s < i64_max \<and> 0 \<le> next_sequence s \<and> next_sequence s \<le> SEQ_MASK \<and>
     ids_in (next_txn_id s) (transactions s) \<and> ids_in (next_txn_id s) (isolation_overrides s) \<and>
     ids_in (next_txn_id s) (snapshot_exclusions s)"

definition states_ok :: "registry \<Rightarrow> bool" where
  "states_ok s \<longleftrightarrow> (\<forall>i st. map_of (transactions s) i = Some st \<longrightarrow> state_ok (next_sequence s) st)"

text \<open>Every live transaction has its isolation level and, for snapshot isolation, its boundary.\<close>

definition levels_ok :: "registry \<Rightarrow> bool" where
  "levels_ok s \<longleftrightarrow>
     (\<forall>i \<in> live s. \<exists>l \<in> {0, 1}. map_of (isolation_overrides s) i = Some l \<and>
        (l = 1 \<longrightarrow> map_of (snapshot_exclusions s) i \<noteq> None))"

definition boundaries_ok :: "registry \<Rightarrow> bool" where
  "boundaries_ok s \<longleftrightarrow>
     (\<forall>i b. map_of (snapshot_exclusions s) i = Some b \<longrightarrow> boundary_ok (flags s) i b) \<and>
     (\<forall>i j b c. map_of (snapshot_exclusions s) i = Some b \<longrightarrow>
        map_of (snapshot_exclusions s) j = Some c \<longrightarrow> active_flag b = active_flag c \<longrightarrow> i = j)"

definition reg_ok :: "registry \<Rightarrow> bool" where
  "reg_ok s \<longleftrightarrow> keys_ok s \<and> ids_ok s \<and> states_ok s \<and> levels_ok s \<and> boundaries_ok s"

text \<open>The transaction a job finishes, and what the job still owes to the counters.\<close>

fun finishes :: "job \<Rightarrow> int option" where
  "finishes (RecordAbort i) = Some i"
| "finishes (DecActive i) = Some i"
| "finishes (RemOverride i) = Some i"
| "finishes (DecOverride i) = Some i"
| "finishes (RemBoundary i) = Some i"
| "finishes _ = None"

fun owes_active :: "job \<Rightarrow> bool" where
  "owes_active (RecordAbort i) = True"
| "owes_active (DecActive i) = True"
| "owes_active _ = False"

fun owes_override :: "job \<Rightarrow> bool" where
  "owes_override (DecOverride i) = True"
| "owes_override _ = False"

fun gc_keys :: "job \<Rightarrow> int list" where
  "gc_keys (GcSweep _ _ keys) = keys"
| "gc_keys (GcSequences _ _ sw) = gc_invalid_overrides sw"
| "gc_keys (GcTimes _ invalid) = invalid"
| "gc_keys (GcOverrides invalid) = invalid"
| "gc_keys _ = []"

fun gc_removes :: "job \<Rightarrow> int list" where
  "gc_removes (GcSweep _ _ keys) = []"
| "gc_removes j = gc_keys j"

definition jobs_ok :: "registry \<Rightarrow> job list \<Rightarrow> bool" where
  "jobs_ok s js \<longleftrightarrow>
     distinct (List.map_filter finishes js) \<and>
     (\<forall>i \<in> set (List.map_filter finishes js). i \<notin> live s \<and> 0 < i \<and> i \<le> next_txn_id s) \<and>
     (\<forall>j \<in> set js. (\<forall>i \<in> set (gc_keys j). 0 < i \<and> i \<le> next_txn_id s) \<and>
                    (\<forall>i \<in> set (gc_removes j). i \<notin> live s))"

definition counts_ok :: "registry \<Rightarrow> job list \<Rightarrow> bool" where
  "counts_ok s js \<longleftrightarrow>
     active_txn_count s = of_nat (card (live s) + length (filter owes_active js)) \<and>
     override_count s = of_nat (length (isolation_overrides s) + length (filter owes_override js))"

definition sys_ok :: "system \<Rightarrow> bool" where
  "sys_ok S \<longleftrightarrow> reg_ok (reg S) \<and> jobs_ok (reg S) (jobs S) \<and> counts_ok (reg S) (jobs S)"

text \<open>
  How a registry may change: identifiers and sequences only grow, nothing is resurrected, and a
  transaction that is still live kept its isolation level and its boundary.
\<close>

definition evolves :: "registry \<Rightarrow> registry \<Rightarrow> bool" where
  "evolves s s' \<longleftrightarrow>
     cache_epoch s' = cache_epoch s \<and> next_txn_id s \<le> next_txn_id s' \<and>
     next_sequence s \<le> next_sequence s' \<and> length (flags s) \<le> length (flags s') \<and>
     (\<forall>i < length (flags s). \<not> flags s ! i \<longrightarrow> \<not> flags s' ! i) \<and>
     (\<forall>i \<le> next_txn_id s. map_of (transactions s') i \<noteq> None \<longrightarrow> map_of (transactions s) i \<noteq> None) \<and>
     (\<forall>i \<in> live s'. i \<le> next_txn_id s \<longrightarrow>
        i \<in> live s \<and> map_of (isolation_overrides s') i = map_of (isolation_overrides s) i \<and>
        map_of (snapshot_exclusions s') i = map_of (snapshot_exclusions s) i) \<and>
     (\<forall>i st. map_of (transactions s') i = Some st \<longrightarrow> status st = Committing \<longrightarrow>
        map_of (transactions s) i = Some st \<or> next_sequence s < commit_seq st) \<and>
     (\<forall>i st. map_of (transactions s) i = Some st \<longrightarrow> status st = Committing \<longrightarrow> i \<in> live s' \<longrightarrow>
        map_of (transactions s') i = Some st) \<and>
     (\<forall>i b. map_of (snapshot_exclusions s) i = Some b \<longrightarrow> active_flag b < length (flags s) \<longrightarrow>
        map_of (snapshot_exclusions s') i = Some b \<or> \<not> flags s' ! active_flag b)"

end
