(* ===== verification/Txn_System_Inv.thy ===== *)
theory Txn_System_Inv
  imports Txn_System
begin

text \<open>
  The invariant of the concurrent registry (\<open>Txn_System\<close>): every event keeps it, and every event lets
  the registry evolve only as \<open>evolves\<close> allows.
\<close>

section \<open>Basic facts\<close>

lemma evolves_refl [simp, intro!]: "evolves s s"
  by (auto simp: evolves_def)

lemma evolvesD:
  assumes "evolves s s'"
  shows "cache_epoch s' = cache_epoch s" "next_txn_id s \<le> next_txn_id s'"
    and "next_sequence s \<le> next_sequence s'" "length (flags s) \<le> length (flags s')"
    and "\<And>k. k < length (flags s) \<Longrightarrow> \<not> flags s ! k \<Longrightarrow> \<not> flags s' ! k"
    and "\<And>i. i \<le> next_txn_id s \<Longrightarrow> map_of (transactions s') i \<noteq> None \<Longrightarrow> map_of (transactions s) i \<noteq> None"
    and "\<And>i. i \<in> live s' \<Longrightarrow> i \<le> next_txn_id s \<Longrightarrow> i \<in> live s"
    and "\<And>i. i \<in> live s' \<Longrightarrow> i \<le> next_txn_id s \<Longrightarrow>
           map_of (isolation_overrides s') i = map_of (isolation_overrides s) i"
    and "\<And>i. i \<in> live s' \<Longrightarrow> i \<le> next_txn_id s \<Longrightarrow>
           map_of (snapshot_exclusions s') i = map_of (snapshot_exclusions s) i"
    and "\<And>i st. map_of (transactions s') i = Some st \<Longrightarrow> status st = Committing \<Longrightarrow>
           map_of (transactions s) i = Some st \<or> next_sequence s < commit_seq st"
    and "\<And>i b. map_of (snapshot_exclusions s) i = Some b \<Longrightarrow> active_flag b < length (flags s) \<Longrightarrow>
           map_of (snapshot_exclusions s') i = Some b \<or> \<not> flags s' ! active_flag b"
    and "\<And>i st. map_of (transactions s) i = Some st \<Longrightarrow> status st = Committing \<Longrightarrow> i \<in> live s' \<Longrightarrow>
           map_of (transactions s') i = Some st"
  using assms unfolding evolves_def by blast+

lemma evolves_trans:
  assumes st: "evolves s t" and tu: "evolves t u"
    and le: "\<And>i x. map_of (transactions s) i = Some x \<Longrightarrow> i \<le> next_txn_id s"
  shows "evolves s u"
  unfolding evolves_def
proof (intro conjI allI ballI impI)
  note a = evolvesD [OF st] and b = evolvesD [OF tu]
  show "cache_epoch u = cache_epoch s" using a(1) b(1) by simp
  show "next_txn_id s \<le> next_txn_id u" "next_sequence s \<le> next_sequence u"
    "length (flags s) \<le> length (flags u)"
    using a(2-4) b(2-4) by simp_all
  show "\<not> flags u ! k" if "k < length (flags s)" "\<not> flags s ! k" for k
    using a(5) [OF that] b(5) [of k] that(1) a(4) by simp
  show "map_of (transactions s) i \<noteq> None"
    if "i \<le> next_txn_id s" "map_of (transactions u) i \<noteq> None" for i
    using a(6) [OF that(1)] b(6) [of i] that a(2) by simp
  fix i
  show "i \<in> live s" "map_of (isolation_overrides u) i = map_of (isolation_overrides s) i"
    "map_of (snapshot_exclusions u) i = map_of (snapshot_exclusions s) i"
    if "i \<in> live u" "i \<le> next_txn_id s"
  proof -
    have i: "i \<le> next_txn_id t" using that a(2) by simp
    show "i \<in> live s" using a(7) [OF b(7) [OF that(1) i] that(2)] .
    show "map_of (isolation_overrides u) i = map_of (isolation_overrides s) i"
      using a(8) [OF b(7) [OF that(1) i] that(2)] b(8) [OF that(1) i] by simp
    show "map_of (snapshot_exclusions u) i = map_of (snapshot_exclusions s) i"
      using a(9) [OF b(7) [OF that(1) i] that(2)] b(9) [OF that(1) i] by simp
  qed
  show "map_of (transactions s) i = Some x \<or> next_sequence s < commit_seq x"
    if "map_of (transactions u) i = Some x" "status x = Committing" for x
    using b(10) [OF that] a(10) [OF _ that(2)] a(3) by fastforce
  show "map_of (snapshot_exclusions u) i = Some x \<or> \<not> flags u ! active_flag x"
    if "map_of (snapshot_exclusions s) i = Some x" "active_flag x < length (flags s)" for x
    using a(11) [OF that] b(11) [of i x] b(5) [of "active_flag x"] that(2) a(4) by fastforce
  show "map_of (transactions u) i = Some x"
    if "map_of (transactions s) i = Some x" "status x = Committing" "i \<in> live u" for x
  proof -
    have "i \<le> next_txn_id t" using a(2) le [OF that(1)] by simp
    then have "map_of (transactions t) i = Some x" using a(12) [OF that(1,2)] b(7) [OF that(3)] by simp
    then show ?thesis using b(12) [OF _ that(2,3)] by simp
  qed
qed

lemma live_eq: "transactions s' = transactions s \<Longrightarrow> live s' = live s"
  by (simp add: live_def)

lemma finite_live [simp]: "finite (live s)"
  by (rule finite_subset [of _ "fst ` set (transactions s)"]) (auto simp: live_def dest: map_of_SomeD intro: rev_image_eqI)

lemma keys_map_of: "i \<in> fst ` set xs \<longleftrightarrow> map_of xs i \<noteq> None"
  by (simp add: map_of_eq_None_iff)

lemma ids_inD: "ids_in n xs \<Longrightarrow> map_of xs i = Some v \<Longrightarrow> 0 < i \<and> i \<le> n"
  unfolding ids_in_def by blast

lemma ids_in_mono: "ids_in n xs \<Longrightarrow> n \<le> m \<Longrightarrow> ids_in m xs"
  unfolding ids_in_def by fastforce

lemma ids_in_update: "ids_in n xs \<Longrightarrow> 0 < i \<Longrightarrow> i \<le> n \<Longrightarrow> ids_in n (AList.update i v xs)"
  unfolding ids_in_def by simp

lemma ids_in_sub: "ids_in n xs \<Longrightarrow> (\<And>i. map_of ys i \<noteq> None \<Longrightarrow> map_of xs i \<noteq> None) \<Longrightarrow> ids_in n ys"
  unfolding ids_in_def by blast

lemma ids_in_delete: "ids_in n xs \<Longrightarrow> ids_in n (AList.delete k xs)"
  by (erule ids_in_sub) (simp split: if_splits)

lemma ids_in_fresh: "ids_in n xs \<Longrightarrow> n < i \<Longrightarrow> map_of xs i = None"
  unfolding ids_in_def by (meson leD)

lemma reg_okD:
  assumes "reg_ok s"
  shows "keys_ok s" "ids_ok s" "states_ok s" "levels_ok s" "boundaries_ok s"
    "0 \<le> next_txn_id s" "next_txn_id s < i64_max" "0 \<le> next_sequence s" "next_sequence s \<le> SEQ_MASK"
    "ids_in (next_txn_id s) (transactions s)" "ids_in (next_txn_id s) (isolation_overrides s)"
    "ids_in (next_txn_id s) (snapshot_exclusions s)"
  using assms by (auto simp: reg_ok_def ids_ok_def)

lemma live_ids: "reg_ok s \<Longrightarrow> i \<in> live s \<Longrightarrow> 0 < i \<and> i \<le> next_txn_id s"
  using ids_inD [OF reg_okD(10)] by (auto simp: live_def)

lemma boundariesD:
  assumes "boundaries_ok s" "map_of (snapshot_exclusions s) i = Some b"
  shows "boundary_ok (flags s) i b"
    "map_of (snapshot_exclusions s) j = Some c \<Longrightarrow> active_flag b = active_flag c \<Longrightarrow> i = j"
  using assms unfolding boundaries_ok_def by blast+

lemma jobs_ok_mono:
  assumes js: "jobs_ok s js" and l: "\<And>i. i \<in> live t \<Longrightarrow> i \<in> live s \<or> next_txn_id s < i"
    and n: "next_txn_id s \<le> next_txn_id t"
  shows "jobs_ok t js"
proof -
  have A: "i \<notin> live t \<and> 0 < i \<and> i \<le> next_txn_id t"
    if "i \<notin> live s \<and> 0 < i \<and> i \<le> next_txn_id s" for i
    using that l [of i] n by auto
  have B: "0 < i \<and> i \<le> next_txn_id t" if "0 < i \<and> i \<le> next_txn_id s" for i
    using that n by auto
  have C: "set (gc_removes j) \<subseteq> set (gc_keys j)" for j by (cases j) auto
  show ?thesis
    unfolding jobs_ok_def
  proof (intro conjI ballI)
    show "distinct (List.map_filter finishes js)" using js by (simp add: jobs_ok_def)
    show "i \<notin> live t" "0 < i" "i \<le> next_txn_id t" if "i \<in> set (List.map_filter finishes js)" for i
      using js that A [of i] unfolding jobs_ok_def by blast+
    fix j assume j: "j \<in> set js"
    show "0 < i" "i \<le> next_txn_id t" if "i \<in> set (gc_keys j)" for i
      using js that B [of i] j unfolding jobs_ok_def by blast+
    show "i \<notin> live t" if "i \<in> set (gc_removes j)" for i
      using js that A [of i] C [of j] j unfolding jobs_ok_def by blast
  qed
qed

text \<open>Changes outside the fields the invariant speaks of.\<close>

definition same_core :: "registry \<Rightarrow> registry \<Rightarrow> bool" where
  "same_core s s' \<longleftrightarrow>
     cache_epoch s' = cache_epoch s \<and>
     transactions s' = transactions s \<and> isolation_overrides s' = isolation_overrides s \<and>
     snapshot_exclusions s' = snapshot_exclusions s \<and> flags s' = flags s \<and>
     next_txn_id s' = next_txn_id s"

lemma state_ok_mono: "state_ok q st \<Longrightarrow> q \<le> q' \<Longrightarrow> state_ok q' st"
  by (auto simp: state_ok_def)

lemma same_core_reg_ok:
  assumes "same_core s s'" "reg_ok s" "next_sequence s \<le> next_sequence s'" "next_sequence s' \<le> SEQ_MASK"
  shows "reg_ok s'"
proof -
  have l: "live s' = live s" using assms(1) by (intro live_eq) (simp add: same_core_def)
  note eqs = assms(1) [unfolded same_core_def]
  note r = reg_okD [OF assms(2)]
  have "keys_ok s'" using r(1) unfolding keys_ok_def by (simp add: eqs)
  moreover have "ids_ok s'" using r(2) assms(3,4) unfolding ids_ok_def by (simp add: eqs)
  moreover have "states_ok s'"
    unfolding states_ok_def
  proof (intro allI impI)
    fix i st assume "map_of (transactions s') i = Some st"
    then have "state_ok (next_sequence s) st" using assms(1,2) by (simp add: same_core_def reg_ok_def states_ok_def)
    then show "state_ok (next_sequence s') st" by (rule state_ok_mono [OF _ assms(3)])
  qed
  moreover have "levels_ok s'" "boundaries_ok s'"
    using r(4,5) unfolding levels_ok_def boundaries_ok_def by (simp_all only: eqs l)
  ultimately show ?thesis by (simp add: reg_ok_def)
qed

lemma same_core_evolves:
  "same_core s s' \<Longrightarrow> next_sequence s \<le> next_sequence s' \<Longrightarrow> evolves s s'"
  by (auto simp: same_core_def evolves_def live_def)

lemma same_core_jobs_ok: "same_core s s' \<Longrightarrow> jobs_ok s js \<Longrightarrow> jobs_ok s' js"
  by (simp add: same_core_def jobs_ok_def live_def)

lemma same_core_counts_ok:
  "same_core s s' \<Longrightarrow> active_txn_count s' = active_txn_count s \<Longrightarrow> override_count s' = override_count s \<Longrightarrow>
   counts_ok s js \<Longrightarrow> counts_ok s' js"
  by (simp add: same_core_def counts_ok_def live_def)

lemmas same_core_simps = same_core_def record_terminal_def decrement_active_def
  decrement_override_count_def stop_accepting_transactions_def start_accepting_transactions_def
  set_global_isolation_level_def register_row_wait_def clear_row_wait_def gc_sequences_def gc_times_def

lemma next_seq_Some:
  "next_seq s = Some q \<longleftrightarrow> q = next_sequence s + 1 \<and> q \<le> SEQ_MASK \<and> i64_min \<le> q"
  by (auto simp: next_seq_def checked_add_i64_def SEQ_MASK_def split: if_splits)

lemma next_id_Some:
  "next_id s = Some i \<longleftrightarrow> i = next_txn_id s + 1 \<and> i < i64_max \<and> i64_min \<le> i"
  by (auto simp: next_id_def checked_add_i64_def split: if_splits)

section \<open>Begin\<close>

lemma begin_cases:
  obtains (refused) "begin_transaction_with_isolation level now s = ((INVALID_TRANSACTION_ID, 0), s)"
  | (admitted) i q s' where
      "begin_transaction_with_isolation level now s = ((i, q), s')" "accepting s"
      "i = next_txn_id s + 1" "i < i64_max" "q = next_sequence s + 1" "q \<le> SEQ_MASK"
      "cache_epoch s' = cache_epoch s" "next_txn_id s' = i" "next_sequence s' = q"
      "transactions s' = AList.update i (new_active q now) (transactions s)"
      "isolation_overrides s' = AList.update i (isolation_to_u8 level) (isolation_overrides s)"
      "snapshot_exclusions s' = (if level = SnapshotIsolation
          then AList.update i \<lparr>max_txn_id = i, excluded = sort (map fst (transactions s)),
                 active_flag = length (flags s)\<rparr> (snapshot_exclusions s)
          else snapshot_exclusions s)"
      "flags s' = (if level = SnapshotIsolation then flags s @ [True] else flags s)"
      "override_count s' = override_count s + 1" "active_txn_count s' = active_txn_count s + 1"
proof (cases "accepting s \<and> (\<exists>i q. next_id s = Some i \<and> next_seq s = Some q)")
  case False
  then have "begin_transaction_with_isolation level now s = ((INVALID_TRANSACTION_ID, 0), s)"
    by (auto simp: begin_transaction_with_isolation_def split: option.splits)
  then show thesis by (rule refused)
next
  case True
  then obtain i q where iq: "accepting s" "next_id s = Some i" "next_seq s = Some q" by blast
  obtain r s' where rs: "begin_transaction_with_isolation level now s = (r, s')" by fastforce
  have eqs: "i = next_txn_id s + 1" "i < i64_max" "q = next_sequence s + 1" "q \<le> SEQ_MASK"
    using iq by (auto simp: next_id_Some next_seq_Some)
  show thesis
    by (rule admitted [of i q s'])
      (use rs iq eqs in \<open>auto simp: begin_transaction_with_isolation_def Let_def\<close>)
qed

lemma length_update_new: "map_of xs k = None \<Longrightarrow> length (AList.update k v xs) = Suc (length xs)"
  by (induction xs) (auto split: if_splits)

lemma length_delete:
  "distinct (map fst xs) \<Longrightarrow>
   length (AList.delete k xs) + (if map_of xs k = None then 0 else 1) = length xs"
proof (induction xs)
  case (Cons x xs)
  have "AList.delete k (x # xs) = (if fst x = k then AList.delete k xs else x # AList.delete k xs)"
    by (cases x) simp
  moreover have "map_of xs k = None" if "fst x = k" using Cons.prems that by (auto simp: map_of_eq_None_iff)
  ultimately show ?case using Cons by (cases x) auto
qed simp

lemma begin_live:
  assumes "reg_ok s" "transactions s' = AList.update (next_txn_id s + 1) (new_active q now) (transactions s)"
    "q = next_sequence s + 1"
  shows "live s' = insert (next_txn_id s + 1) (live s)" "next_txn_id s + 1 \<notin> live s"
proof -
  show "live s' = insert (next_txn_id s + 1) (live s)"
    using assms(2,3) reg_okD(8) [OF assms(1)] by (auto simp: live_def split: if_splits)
  show "next_txn_id s + 1 \<notin> live s" using live_ids [OF assms(1)] by fastforce
qed

lemma begin_reg_ok:
  assumes ok: "reg_ok s"
  shows "reg_ok (snd (begin_transaction_with_isolation level now s))"
proof (cases rule: begin_cases [of level now s])
  case refused
  then show ?thesis using ok by simp
next
  case (admitted i q s')
  note r = reg_okD [OF ok] and b = begin_live [OF ok admitted(10) [unfolded admitted(3)] admitted(5)]
  have "keys_ok s'" using r(1) unfolding keys_ok_def by (simp add: admitted(10-12) distinct_update)
  moreover have "ids_ok s'"
    using r(6-9) admitted(3-6) unfolding ids_ok_def
    by (auto simp: admitted(8-12) intro!: ids_in_update intro: ids_in_mono [OF r(10)]
        ids_in_mono [OF r(11)] ids_in_mono [OF r(12)])
  moreover have "states_ok s'"
    unfolding states_ok_def
  proof (intro allI impI)
    fix j st assume j: "map_of (transactions s') j = Some st"
    show "state_ok (next_sequence s') st"
    proof (cases "j = i")
      case True
      then show ?thesis using j r(8) admitted(5) by (auto simp: admitted(9,10) state_ok_def)
    next
      case False
      then have "state_ok (next_sequence s) st" using j r(3) by (simp add: admitted(10) states_ok_def)
      then show ?thesis by (rule state_ok_mono) (simp add: admitted(5,9))
    qed
  qed
  moreover have "levels_ok s'"
    unfolding levels_ok_def
  proof
    fix j assume j: "j \<in> live s'"
    show "\<exists>l\<in>{0, 1}. map_of (isolation_overrides s') j = Some l \<and>
              (l = 1 \<longrightarrow> map_of (snapshot_exclusions s') j \<noteq> None)"
    proof (cases "j = i")
      case True
      then show ?thesis by (cases level) (simp_all add: admitted(11,12))
    next
      case False
      then have "j \<in> live s" using j b(1) admitted(3) by simp
      then have "\<exists>l\<in>{0, 1}. map_of (isolation_overrides s) j = Some l \<and>
              (l = 1 \<longrightarrow> map_of (snapshot_exclusions s) j \<noteq> None)"
        using r(4) unfolding levels_ok_def by blast
      then show ?thesis using False by (simp add: admitted(11,12))
    qed
  qed
  moreover have "boundaries_ok s'"
  proof (cases level)
    case ReadCommitted
    then show ?thesis using r(5) unfolding boundaries_ok_def by (simp add: admitted(12,13))
  next
    case SnapshotIsolation
    let ?b = "\<lparr>max_txn_id = i, excluded = sort (map fst (transactions s)), active_flag = length (flags s)\<rparr>"
    have "x \<in> {0<..<i}" if "x \<in> fst ` set (transactions s)" for x
      using that r(10) admitted(3) unfolding keys_map_of by (auto dest: ids_inD)
    then have "fst ` set (transactions s) \<subseteq> {0<..<i}" by blast
    then have new: "boundary_ok (flags s') i ?b"
      using SnapshotIsolation by (auto simp: boundary_ok_def admitted(13))
    have old: "boundary_ok (flags s') j b \<and> active_flag b < length (flags s)"
      if "map_of (snapshot_exclusions s) j = Some b" for j b
      using boundariesD(1) [OF r(5) that] by (simp add: boundary_ok_def admitted(13) nth_append)
    have "boundary_ok (flags s') j b" if "map_of (snapshot_exclusions s') j = Some b" for j b
      using that new old SnapshotIsolation by (auto simp: admitted(12) split: if_splits)
    moreover have "j = k"
      if "map_of (snapshot_exclusions s') j = Some b" "map_of (snapshot_exclusions s') k = Some c"
        "active_flag b = active_flag c" for j k b c
    proof -
      have E: "map_of (snapshot_exclusions s') n = (if n = i then Some ?b else map_of (snapshot_exclusions s) n)" for n
        using SnapshotIsolation by (simp add: admitted(12))
      show ?thesis
        using that old [of j b] old [of k c] boundariesD(2) [OF r(5), of j b k c]
        unfolding E by (cases "j = i"; cases "k = i") auto
    qed
    ultimately show ?thesis unfolding boundaries_ok_def by blast
  qed
  ultimately show ?thesis by (simp add: admitted(1) reg_ok_def)
qed

lemma begin_rest:
  assumes ok: "reg_ok s" and js: "jobs_ok s js" and cs: "counts_ok s js"
    and s': "s' = snd (begin_transaction_with_isolation level now s)"
  shows "jobs_ok s' js" "counts_ok s' js" "evolves s s'"
proof -
  have "jobs_ok s' js \<and> counts_ok s' js \<and> evolves s s'"
  proof (cases rule: begin_cases [of level now s])
    case refused
    then show ?thesis using assms by simp
  next
    case (admitted i q t)
    have t: "s' = t" using s' admitted(1) by simp
    note b = begin_live [OF ok admitted(10) [unfolded admitted(3)] admitted(5)]
    note r = reg_okD [OF ok]
    have fresh: "map_of (transactions s) i = None" "map_of (isolation_overrides s) i = None"
      "map_of (snapshot_exclusions s) i = None"
      using ids_in_fresh [OF r(10)] ids_in_fresh [OF r(11)] ids_in_fresh [OF r(12)] admitted(3) by simp_all
    have i: "i \<notin> live s" "live t = insert i (live s)" using b admitted(3) by simp_all
    have "jobs_ok t js"
      by (rule jobs_ok_mono [OF js]) (use i(2) admitted(3,8) in auto)
    moreover have "counts_ok t js"
      using cs i fresh unfolding counts_ok_def
      by (simp add: admitted(11,14,15) length_update_new)
    moreover have "evolves s t"
      unfolding evolves_def i(2) using fresh admitted(3,5) r(8)
      by (auto simp: admitted(7-13) nth_append split: if_splits)
    ultimately show ?thesis using t by simp
  qed
  then show "jobs_ok s' js" "counts_ok s' js" "evolves s s'" by auto
qed

section \<open>Commit and abort\<close>

text \<open>Operations that change tracked transactions without starting one.\<close>

lemma transactions_change:
  assumes ok: "reg_ok s"
    and same: "isolation_overrides s' = isolation_overrides s" "snapshot_exclusions s' = snapshot_exclusions s"
      "flags s' = flags s" "next_txn_id s' = next_txn_id s" "cache_epoch s' = cache_epoch s"
    and d: "distinct (map fst (transactions s'))"
    and k: "\<And>i. map_of (transactions s') i \<noteq> None \<Longrightarrow> map_of (transactions s) i \<noteq> None"
    and l: "live s' \<subseteq> live s"
    and q: "next_sequence s \<le> next_sequence s'" "next_sequence s' \<le> SEQ_MASK"
    and st: "\<And>i st. map_of (transactions s') i = Some st \<Longrightarrow> state_ok (next_sequence s') st"
    and c: "\<And>i st. map_of (transactions s') i = Some st \<Longrightarrow> status st = Committing \<Longrightarrow>
              map_of (transactions s) i = Some st \<or> next_sequence s < commit_seq st"
    and k2: "\<And>i st. map_of (transactions s) i = Some st \<Longrightarrow> status st = Committing \<Longrightarrow> i \<in> live s' \<Longrightarrow>
              map_of (transactions s') i = Some st"
  shows "reg_ok s'" "evolves s s'" "\<And>js. jobs_ok s js \<Longrightarrow> jobs_ok s' js"
proof -
  note r = reg_okD [OF ok]
  have "keys_ok s'" using r(1) d by (simp add: keys_ok_def same)
  moreover have "ids_ok s'"
    using r(6-9,11,12) q ids_in_sub [OF r(10) k] by (simp add: ids_ok_def same)
  moreover have "states_ok s'" using st by (simp add: states_ok_def)
  moreover have "levels_ok s'" using r(4) l unfolding levels_ok_def same by blast
  moreover have "boundaries_ok s'" using r(5) unfolding boundaries_ok_def same .
  ultimately show "reg_ok s'" by (simp add: reg_ok_def)
  show "evolves s s'"
    unfolding evolves_def same using k l q c k2 by blast
  show "jobs_ok s' js" if "jobs_ok s js" for js
    by (rule jobs_ok_mono [OF that]) (use l same in auto)
qed

lemma states_okD: "reg_ok s \<Longrightarrow> map_of (transactions s) i = Some st \<Longrightarrow> state_ok (next_sequence s) st"
  by (simp add: reg_ok_def states_ok_def)

lemma start_commit_cases:
  assumes "start_commit i s = Inr (q, s')"
  obtains st where "map_of (transactions s) i = Some st" "status st = Active" "q = next_sequence s + 1"
    "q \<le> SEQ_MASK"
    "s' = s\<lparr>next_sequence := q, transactions := AList.update i (set_committing q st) (transactions s)\<rparr>"
  using assms by (auto simp: start_commit_def next_seq_Some split: option.splits if_splits)

lemma start_commit_ok:
  assumes ok: "reg_ok s" and sc: "start_commit i s = Inr (q, s')"
  shows "reg_ok s'" "evolves s s'" "jobs_ok s js \<Longrightarrow> jobs_ok s' js" "live s' = live s"
proof -
  obtain st where st: "map_of (transactions s) i = Some st" "status st = Active" "q = next_sequence s + 1"
      "q \<le> SEQ_MASK"
      "s' = s\<lparr>next_sequence := q, transactions := AList.update i (set_committing q st) (transactions s)\<rparr>"
    using sc by (rule start_commit_cases)
  note r = reg_okD [OF ok]
  have live_st: "is_active_or_committing st" using st(2) by (simp add: status_live)
  have q0: "0 \<le> q" using r(8) st(3) by simp
  have T: "map_of (transactions s') j = (if j = i then Some (set_committing q st) else map_of (transactions s) j)" for j
    by (simp add: st(5))
  show l: "live s' = live s" unfolding live_def T using st(1) live_st by auto
  have seq: "next_sequence s' = q" by (simp add: st(5))
  have b: "begin_seq st \<le> next_sequence s" "1 \<le> begin_seq st"
    using states_okD [OF ok st(1)] live_st by (auto simp: state_ok_def)
  have sok: "state_ok (next_sequence s') x" if "map_of (transactions s') j = Some x" for j x
  proof (cases "j = i")
    case True
    then have "x = set_committing q st" using that by (simp add: T)
    then show ?thesis
      using b st(3) live_st q0 st(4) by (simp add: state_ok_def seq set_committing_status set_committing_seq)
  next
    case False
    then have "state_ok (next_sequence s) x" using that states_okD [OF ok] by (simp add: T)
    then show ?thesis by (rule state_ok_mono) (simp add: seq st(3))
  qed
  have com: "map_of (transactions s) j = Some x \<or> next_sequence s < commit_seq x"
    if "map_of (transactions s') j = Some x" for j x
    using that st(3) q0 st(4) by (auto simp: T set_committing_seq split: if_splits)
  have d: "distinct (map fst (transactions s'))" using r(1) by (simp add: st(5) keys_ok_def distinct_update)
  note tc = transactions_change [OF ok, of s']
  show "reg_ok s'" by (rule tc(1)) (use st d l sok com T in \<open>auto split: if_splits\<close>)
  show "evolves s s'" by (rule tc(2)) (use st d l sok com T in \<open>auto split: if_splits\<close>)
  show "jobs_ok s js \<Longrightarrow> jobs_ok s' js" by (rule jobs_ok_mono) (use l st(5) in auto)
qed

lemma publish_cases:
  assumes "publish_commit i rs now s = Inr (q, s')"
  obtains st n where "map_of (transactions s) i = Some st" "status st = Committing"
    "next_sequence s \<le> n" "n \<le> next_sequence s + 1" "n = next_sequence s \<or> n \<le> SEQ_MASK"
    "s' = s\<lparr>next_sequence := n, snapshot_seqs := AList.update i (commit_seq st) (snapshot_seqs s),
            terminal_times := AList.update i now (terminal_times s),
            transactions := AList.delete i (transactions s)\<rparr>"
proof -
  obtain st where st: "map_of (transactions s) i = Some st" "status st = Committing" "0 < commit_seq st"
    using assms by (auto simp: publish_commit_def split: option.splits if_splits)
  show thesis
  proof (cases rs)
    case True
    then have "next_seq s = Some q"
      "s' = s\<lparr>next_sequence := q, snapshot_seqs := AList.update i (commit_seq st) (snapshot_seqs s),
            terminal_times := AList.update i now (terminal_times s),
            transactions := AList.delete i (transactions s)\<rparr>"
      using assms st by (auto simp: publish_commit_def split: option.splits)
    then show thesis using that [of st q] st by (simp add: next_seq_Some)
  next
    case False
    then have "s' = s\<lparr>next_sequence := next_sequence s, snapshot_seqs := AList.update i (commit_seq st) (snapshot_seqs s),
            terminal_times := AList.update i now (terminal_times s),
            transactions := AList.delete i (transactions s)\<rparr>"
      using assms st by (auto simp: publish_commit_def)
    then show thesis using that [of st "next_sequence s"] st by simp
  qed
qed

lemma publish_ok:
  assumes ok: "reg_ok s" and pc: "publish_commit i rs now s = Inr (q, s')"
  shows "reg_ok s'" "evolves s s'" "jobs_ok s js \<Longrightarrow> jobs_ok s' js" "live s' = live s - {i}" "i \<in> live s"
    "isolation_overrides s' = isolation_overrides s" "override_count s' = override_count s"
    "active_txn_count s' = active_txn_count s"
proof -
  obtain st n where st: "map_of (transactions s) i = Some st" "status st = Committing"
    "next_sequence s \<le> n" "n \<le> next_sequence s + 1" "n = next_sequence s \<or> n \<le> SEQ_MASK"
    "s' = s\<lparr>next_sequence := n, snapshot_seqs := AList.update i (commit_seq st) (snapshot_seqs s),
            terminal_times := AList.update i now (terminal_times s),
            transactions := AList.delete i (transactions s)\<rparr>"
    using pc by (rule publish_cases)
  note r = reg_okD [OF ok]
  have T: "map_of (transactions s') j = (if j = i then None else map_of (transactions s) j)" for j
    by (simp add: st(6))
  show l: "live s' = live s - {i}" unfolding live_def T by auto
  show "i \<in> live s" using st(1,2) status_live [of st] by (simp add: live_def)
  have n: "n \<le> SEQ_MASK" using st(5) r(9) by auto
  have sok: "state_ok (next_sequence s') x" if "map_of (transactions s') j = Some x" for j x
    using states_okD [OF ok, of j x] that state_ok_mono [OF _ st(3)] by (simp add: T st(6) split: if_splits)
  have d: "distinct (map fst (transactions s'))" using r(1) by (simp add: st(6) keys_ok_def distinct_delete)
  note tc = transactions_change [OF ok, of s']
  show "reg_ok s'" by (rule tc(1)) (use st(3,6) n d l sok T in \<open>auto split: if_splits\<close>)
  show "evolves s s'" by (rule tc(2)) (use st(3,6) n d l sok T in \<open>auto split: if_splits\<close>)
  show "jobs_ok s js \<Longrightarrow> jobs_ok s' js" by (rule jobs_ok_mono) (use l st(6) in auto)
  show "isolation_overrides s' = isolation_overrides s" "override_count s' = override_count s"
    "active_txn_count s' = active_txn_count s"
    by (simp_all add: st(6))
qed

lemma mark_aborted_ok:
  assumes ok: "reg_ok s" and ma: "mark_aborted i s = (d, s')"
  shows "reg_ok s'" "evolves s s'" "jobs_ok s js \<Longrightarrow> jobs_ok s' js" "live s' = live s - {i}"
    "d \<longleftrightarrow> i \<in> live s"
    "isolation_overrides s' = isolation_overrides s" "override_count s' = override_count s"
    "active_txn_count s' = active_txn_count s"
proof -
  note r = reg_okD [OF ok]
  have T: "map_of (transactions s') j =
      (if j = i \<and> map_of (transactions s) i \<noteq> None then Some new_aborted else map_of (transactions s) j)" for j
    using ma by (auto simp: mark_aborted_def split: option.splits)
  have e: "next_sequence s' = next_sequence s" "isolation_overrides s' = isolation_overrides s"
    "snapshot_exclusions s' = snapshot_exclusions s" "flags s' = flags s" "next_txn_id s' = next_txn_id s"
    "cache_epoch s' = cache_epoch s" "override_count s' = override_count s"
    "active_txn_count s' = active_txn_count s"
    using ma by (auto simp: mark_aborted_def split: option.splits)
  show l: "live s' = live s - {i}" unfolding live_def T by auto
  show "d \<longleftrightarrow> i \<in> live s" using ma by (auto simp: mark_aborted_def live_def split: option.splits)
  have sok: "state_ok (next_sequence s') x" if "map_of (transactions s') j = Some x" for j x
    using states_okD [OF ok, of j x] that by (auto simp: T e state_ok_def split: if_splits)
  have dis: "distinct (map fst (transactions s'))"
    using r(1) ma by (auto simp: mark_aborted_def keys_ok_def distinct_update split: option.splits)
  note tc = transactions_change [OF ok, of s']
  show "reg_ok s'" by (rule tc(1)) (use e dis l sok T r(9) in \<open>auto split: if_splits\<close>)
  show "evolves s s'" by (rule tc(2)) (use e dis l sok T r(9) in \<open>auto split: if_splits\<close>)
  show "jobs_ok s js \<Longrightarrow> jobs_ok s' js" by (rule jobs_ok_mono) (use l e in auto)
qed (use ma in \<open>auto simp: mark_aborted_def split: option.splits\<close>)

lemma map_of_filter_neg:
  "distinct (map fst xs) \<Longrightarrow>
   map_of (filter (\<lambda>e. \<not> P e) xs) k =
     (case map_of xs k of None \<Rightarrow> None | Some v \<Rightarrow> if P (k, v) then None else Some v)"
  using map_of_filter_keyed [of xs "\<lambda>k v. \<not> P (k, v)" k] by (simp add: case_prod_beta' split: option.splits)

lemma gc_sweep_ok:
  assumes ok: "reg_ok s" and gc: "gc_sweep ret now keys s = (sw, s')"
  shows "reg_ok s'" "evolves s s'" "jobs_ok s js \<Longrightarrow> jobs_ok s' js" "live s' = live s"
    "isolation_overrides s' = isolation_overrides s" "override_count s' = override_count s"
    "active_txn_count s' = active_txn_count s" "set (gc_invalid_overrides sw) \<subseteq> set keys - live s'"
proof -
  note r = reg_okD [OF ok]
  have dt: "distinct (map fst (transactions s))" using r(1) by (simp add: keys_ok_def)
  have T: "map_of (transactions s') j = map_of (transactions s) j \<or>
      (map_of (transactions s') j = None \<and> (\<exists>x. map_of (transactions s) j = Some x \<and> is_aborted x))" for j
  proof -
    have "transactions s' = transactions s \<or>
          transactions s' = filter (\<lambda>e. \<not> gc_drops s ret now e) (transactions s)"
      using gc by (auto simp: gc_sweep_def Let_def)
    moreover have "gc_drops s ret now (j, x) \<Longrightarrow> is_aborted x" for x by (simp add: gc_drops_def)
    ultimately show ?thesis
      using map_of_filter_neg [OF dt, of "gc_drops s ret now" j]
      by (cases "map_of (transactions s) j") (auto split: if_splits)
  qed
  have e: "next_sequence s' = next_sequence s" "isolation_overrides s' = isolation_overrides s"
    "snapshot_exclusions s' = snapshot_exclusions s" "flags s' = flags s" "next_txn_id s' = next_txn_id s"
    "cache_epoch s' = cache_epoch s" "override_count s' = override_count s"
    "active_txn_count s' = active_txn_count s"
    using gc by (auto simp: gc_sweep_def Let_def)
  have T': "map_of (transactions s') j = Some x \<Longrightarrow> map_of (transactions s) j = Some x" for j x
    using T [of j] by auto
  show l: "live s' = live s"
  proof (rule set_eqI)
    fix j show "j \<in> live s' \<longleftrightarrow> j \<in> live s" using T [of j]
      by (cases "map_of (transactions s) j"; cases "map_of (transactions s') j")
        (auto simp: live_def aborted_iff)
  qed
  have dis: "distinct (map fst (transactions s'))"
    using dt gc by (auto simp: gc_sweep_def Let_def distinct_filter_fst split: if_splits)
  have sok: "state_ok (next_sequence s') x" if "map_of (transactions s') j = Some x" for j x
    using states_okD [OF ok T' [OF that]] e(1) by simp
  have kept: "map_of (transactions s') j = Some x"
    if "map_of (transactions s) j = Some x" "status x = Committing" for j x
    using T [of j] that status_live [of x] by (auto simp: aborted_iff)
  have k: "map_of (transactions s) j \<noteq> None" if "map_of (transactions s') j \<noteq> None" for j
    using that T' by blast
  have c: "map_of (transactions s) j = Some x \<or> next_sequence s < commit_seq x"
    if "map_of (transactions s') j = Some x" for j x using T' [OF that] by simp
  have q: "next_sequence s \<le> next_sequence s'" "next_sequence s' \<le> SEQ_MASK" using e(1) r(9) by simp_all
  note tc = transactions_change [OF ok e(2-6) dis k eq_refl [OF l] q sok c kept]
  show "reg_ok s'" "evolves s s'" by (rule tc; assumption)+
  show "jobs_ok s js \<Longrightarrow> jobs_ok s' js" by (rule jobs_ok_mono) (use l e in auto)
  show "isolation_overrides s' = isolation_overrides s" "override_count s' = override_count s"
    "active_txn_count s' = active_txn_count s" using e by simp_all
  have "gc_invalid_overrides sw = gc_invalid s' keys" using gc by (auto simp: gc_sweep_def Let_def)
  then show "set (gc_invalid_overrides sw) \<subseteq> set keys - live s'"
    by (auto simp: gc_invalid_def live_def aborted_iff split: option.splits)
qed

section \<open>Finishing a transaction\<close>

text \<open>Dropping the isolation levels of transactions that are no longer live.\<close>

lemma overrides_change:
  assumes ok: "reg_ok s"
    and same: "transactions s' = transactions s" "snapshot_exclusions s' = snapshot_exclusions s"
      "flags s' = flags s" "next_txn_id s' = next_txn_id s" "cache_epoch s' = cache_epoch s"
      "next_sequence s' = next_sequence s"
    and d: "distinct (map fst (isolation_overrides s'))"
    and sub: "\<And>i. map_of (isolation_overrides s') i \<noteq> None \<Longrightarrow> map_of (isolation_overrides s) i \<noteq> None"
    and keep: "\<And>i. i \<in> live s \<Longrightarrow> map_of (isolation_overrides s') i = map_of (isolation_overrides s) i"
  shows "reg_ok s'" "evolves s s'" "live s' = live s" "jobs_ok s js \<Longrightarrow> jobs_ok s' js"
proof -
  note r = reg_okD [OF ok]
  show l: "live s' = live s" by (rule live_eq [OF same(1)])
  have "keys_ok s'" using r(1) d by (simp add: keys_ok_def same)
  moreover have "ids_ok s'"
    using r(6-10,12) ids_in_sub [OF r(11) sub] by (simp add: ids_ok_def same)
  moreover have "states_ok s'" using r(3) by (simp add: states_ok_def same)
  moreover have "levels_ok s'" using r(4) keep unfolding levels_ok_def same l by simp
  moreover have "boundaries_ok s'" using r(5) unfolding boundaries_ok_def same .
  ultimately show "reg_ok s'" by (simp add: reg_ok_def)
  show "evolves s s'" unfolding evolves_def same l using keep by blast
  show "jobs_ok s js \<Longrightarrow> jobs_ok s' js" by (rule jobs_ok_mono) (use l same in auto)
qed

lemma remove_override_ok:
  assumes ok: "reg_ok s" and i: "i \<notin> live s" and ro: "remove_override i s = (d, s')"
  shows "reg_ok s'" "evolves s s'" "live s' = live s" "jobs_ok s js \<Longrightarrow> jobs_ok s' js"
    "length (isolation_overrides s) = length (isolation_overrides s') + (if d then 1 else 0)"
proof -
  have s': "s' = s\<lparr>isolation_overrides := AList.delete i (isolation_overrides s)\<rparr>"
    and d: "d = (map_of (isolation_overrides s) i \<noteq> None)"
    using ro by (auto simp: remove_override_def)
  have dis: "distinct (map fst (isolation_overrides s))"
    using reg_okD(1) [OF ok] by (simp add: keys_ok_def)
  note oc = overrides_change [OF ok, of s']
  show "reg_ok s'" "evolves s s'" "live s' = live s" "jobs_ok s js \<Longrightarrow> jobs_ok s' js"
    by (rule oc; use i in \<open>auto simp: s' distinct_delete [OF dis] split: if_splits\<close>)+
  show "length (isolation_overrides s) = length (isolation_overrides s') + (if d then 1 else 0)"
    using length_delete [OF dis, of i] by (auto simp: s' d)
qed

lemma remove_overrides_props:
  "distinct (map fst ov) \<Longrightarrow> remove_overrides ks ov = (n, ov') \<Longrightarrow>
   distinct (map fst ov') \<and> length ov = length ov' + n \<and>
   (\<forall>i. map_of ov' i = (if i \<in> set ks then None else map_of ov i))"
proof (induction ks arbitrary: ov n ov')
  case (Cons k ks)
  obtain m ov1 where m: "remove_overrides ks (AList.delete k ov) = (m, ov1)" by fastforce
  have IH: "distinct (map fst ov1)" "length (AList.delete k ov) = length ov1 + m"
    "\<And>i. map_of ov1 i = (if i \<in> set ks then None else map_of (AList.delete k ov) i)"
    using Cons.IH [OF distinct_delete [OF Cons.prems(1)] m] by auto
  have "n = (if map_of ov k \<noteq> None then m + 1 else m)" "ov' = ov1"
    using Cons.prems(2) m by auto
  then show ?case using IH length_delete [OF Cons.prems(1), of k] by auto
qed simp

lemma gc_overrides_ok:
  assumes ok: "reg_ok s" and inv: "set invalid \<inter> live s = {}" and gc: "gc_overrides invalid s = (n, s')"
  shows "reg_ok s'" "evolves s s'" "live s' = live s" "jobs_ok s js \<Longrightarrow> jobs_ok s' js"
    "length (isolation_overrides s) = length (isolation_overrides s') + n"
    "override_count s' = override_count s - of_nat n" "active_txn_count s' = active_txn_count s"
proof -
  have dis: "distinct (map fst (isolation_overrides s))"
    using reg_okD(1) [OF ok] by (simp add: keys_ok_def)
  obtain m ov where m: "remove_overrides invalid (isolation_overrides s) = (m, ov)" by fastforce
  have s': "s' = s\<lparr>isolation_overrides := ov, override_count := override_count s - of_nat n\<rparr>" "n = m"
    using gc m by (auto simp: gc_overrides_def)
  note p = remove_overrides_props [OF dis m]
  have ov: "distinct (map fst ov)" "\<And>i. map_of ov i = (if i \<in> set invalid then None else map_of (isolation_overrides s) i)"
    using p by auto
  note oc = overrides_change [OF ok, of s']
  show "reg_ok s'" "evolves s s'" "live s' = live s" "jobs_ok s js \<Longrightarrow> jobs_ok s' js"
    by (rule oc; use inv ov in \<open>auto simp: s' split: if_splits\<close>)+
  show "length (isolation_overrides s) = length (isolation_overrides s') + n"
    "override_count s' = override_count s - of_nat n" "active_txn_count s' = active_txn_count s"
    using p by (simp_all add: s')
qed

lemma remove_boundary_ok:
  assumes ok: "reg_ok s" and i: "i \<notin> live s"
  shows "reg_ok (remove_boundary i s)" "evolves s (remove_boundary i s)"
    "live (remove_boundary i s) = live s" "jobs_ok s js \<Longrightarrow> jobs_ok (remove_boundary i s) js"
    "counts_ok s js \<Longrightarrow> counts_ok (remove_boundary i s) js"
proof -
  let ?s = "remove_boundary i s"
  note r = reg_okD [OF ok]
  have e: "transactions ?s = transactions s" "isolation_overrides ?s = isolation_overrides s"
    "next_txn_id ?s = next_txn_id s" "cache_epoch ?s = cache_epoch s" "next_sequence ?s = next_sequence s"
    "override_count ?s = override_count s" "active_txn_count ?s = active_txn_count s"
    by (auto simp: remove_boundary_def split: option.splits)
  show l: "live ?s = live s" by (rule live_eq [OF e(1)])
  have E: "map_of (snapshot_exclusions ?s) j = (if j = i then None else map_of (snapshot_exclusions s) j)" for j
    by (auto simp: remove_boundary_def split: option.splits)
  have F: "flags ?s = (case map_of (snapshot_exclusions s) i of None \<Rightarrow> flags s
             | Some b \<Rightarrow> (flags s)[active_flag b := False])"
    by (auto simp: remove_boundary_def split: option.splits)
  have "keys_ok ?s"
    using r(1) distinct_delete [of "snapshot_exclusions s" i] e(1,2)
    by (auto simp: keys_ok_def remove_boundary_def split: option.splits)
  moreover have "ids_in (next_txn_id s) (snapshot_exclusions ?s)"
    by (rule ids_in_sub [OF r(12)]) (simp add: E split: if_splits)
  ultimately have "keys_ok ?s" "ids_ok ?s" using r(6-11) by (simp_all add: ids_ok_def e)
  moreover have "states_ok ?s" using r(3) by (simp add: states_ok_def e)
  moreover have "levels_ok ?s" using r(4) i unfolding levels_ok_def l e E by (metis (no_types, lifting))
  moreover have "boundaries_ok ?s"
    unfolding boundaries_ok_def
  proof (intro conjI allI impI)
    fix j b assume "map_of (snapshot_exclusions ?s) j = Some b"
    then have j: "j \<noteq> i" "map_of (snapshot_exclusions s) j = Some b" by (auto simp: E split: if_splits)
    have "active_flag c \<noteq> active_flag b" if "map_of (snapshot_exclusions s) i = Some c" for c
      using boundariesD(2) [OF r(5) j(2) that] j(1) by auto
    then show "boundary_ok (flags ?s) j b"
      using boundariesD(1) [OF r(5) j(2)] by (auto simp: boundary_ok_def F split: option.splits)
  next
    fix j k b c
    assume "map_of (snapshot_exclusions ?s) j = Some b" "map_of (snapshot_exclusions ?s) k = Some c"
      "active_flag b = active_flag c"
    then show "j = k" using boundariesD(2) [OF r(5), of j b k c] by (auto simp: E split: if_splits)
  qed
  ultimately show "reg_ok ?s" by (simp add: reg_ok_def)
  have flag: "\<not> flags ?s ! active_flag b"
    if "map_of (snapshot_exclusions s) i = Some b" "active_flag b < length (flags s)" for b
    using that by (simp add: F)
  have "\<not> flags ?s ! k" if "k < length (flags s)" "\<not> flags s ! k" for k
  proof (cases "map_of (snapshot_exclusions s) i")
    case (Some b)
    then show ?thesis using that by (cases "active_flag b = k") (simp_all add: F)
  qed (use that in \<open>simp add: F\<close>)
  moreover have "length (flags ?s) = length (flags s)" by (auto simp: F split: option.splits)
  ultimately show "evolves s ?s" unfolding evolves_def e l E using i flag by auto
  show "jobs_ok s js \<Longrightarrow> jobs_ok ?s js" by (rule jobs_ok_mono) (use l e in auto)
  show "counts_ok s js \<Longrightarrow> counts_ok ?s js" by (simp add: counts_ok_def l e)
qed

section \<open>Jobs\<close>

lemma map_filter_append: "List.map_filter f (xs @ ys) = List.map_filter f xs @ List.map_filter f ys"
  by (induction xs) (auto split: option.splits)

lemma jobs_ok_drop: "jobs_ok s (a @ j # b) \<Longrightarrow> jobs_ok s (a @ b)"
  by (auto simp: jobs_ok_def map_filter_append split: option.splits)

lemma jobs_ok_replace:
  assumes "jobs_ok s (a @ j # b)" "finishes j' = finishes j"
    "\<And>i. i \<in> set (gc_keys j') \<Longrightarrow> 0 < i \<and> i \<le> next_txn_id s"
    "\<And>i. i \<in> set (gc_removes j') \<Longrightarrow> i \<notin> live s"
  shows "jobs_ok s (a @ j' # b)"
proof -
  have "List.map_filter finishes (a @ j' # b) = List.map_filter finishes (a @ j # b)"
    using assms(2) by (simp add: map_filter_append)
  then show ?thesis
    using assms(1,3,4) unfolding jobs_ok_def by auto
qed

lemma jobs_ok_finishes:
  "jobs_ok s (a @ j # b) \<Longrightarrow> finishes j = Some i \<Longrightarrow> i \<notin> live s \<and> 0 < i \<and> i \<le> next_txn_id s"
  by (auto simp: jobs_ok_def map_filter_append)

lemma jobs_ok_gc:
  assumes "jobs_ok s (a @ j # b)"
  shows "i \<in> set (gc_keys j) \<Longrightarrow> 0 < i \<and> i \<le> next_txn_id s" "i \<in> set (gc_removes j) \<Longrightarrow> i \<notin> live s"
  using assms by (auto simp: jobs_ok_def)

lemma jobs_ok_add:
  assumes "jobs_ok s js" "\<And>i. finishes j = Some i \<Longrightarrow> i \<notin> live s \<and> 0 < i \<and> i \<le> next_txn_id s \<and>
      i \<notin> set (List.map_filter finishes js)"
    "\<And>i. i \<in> set (gc_keys j) \<Longrightarrow> 0 < i \<and> i \<le> next_txn_id s"
    "\<And>i. i \<in> set (gc_removes j) \<Longrightarrow> i \<notin> live s"
  shows "jobs_ok s (js @ [j])"
  using assms unfolding jobs_ok_def by (auto simp: map_filter_append split: option.splits)

lemma core_step:
  assumes "reg_ok s" "jobs_ok s js" "same_core s s'" "next_sequence s' = next_sequence s"
  shows "reg_ok s'" "evolves s s'" "jobs_ok s' js" "live s' = live s"
    "isolation_overrides s' = isolation_overrides s" "next_txn_id s' = next_txn_id s"
  using same_core_reg_ok [OF assms(3,1)] same_core_evolves [OF assms(3)] same_core_jobs_ok [OF assms(3,2)]
    assms(3,4) reg_okD(9) [OF assms(1)]
  by (auto simp: same_core_def live_def)

lemma job_step_ok:
  assumes ok: "reg_ok s" and js: "jobs_ok s (a @ j # b)" and cs: "counts_ok s (a @ j # b)"
    and st: "job_step now j s = (rest, s')"
  defines "js' \<equiv> a @ (case rest of None \<Rightarrow> [] | Some j' \<Rightarrow> [j']) @ b"
  shows "reg_ok s' \<and> jobs_ok s' js' \<and> counts_ok s' js' \<and> evolves s s'"
proof (cases j)
  case (RecordAbort i)
  then have s': "s' = record_terminal i now s" "js' = a @ DecActive i # b"
    using st by (auto simp: js'_def)
  have c: "same_core s s'" by (simp add: s' same_core_simps)
  note cr = core_step [OF ok js c]
  show ?thesis
    using cr jobs_ok_replace [of s' a j b "DecActive i"] cs RecordAbort
    by (simp add: s' counts_ok_def record_terminal_def)
next
  case (DecActive i)
  then have s': "s' = decrement_active s" "js' = a @ RemOverride i # b"
    using st by (auto simp: js'_def)
  have c: "same_core s s'" by (simp add: s' same_core_simps)
  note cr = core_step [OF ok js c]
  show ?thesis
    using cr jobs_ok_replace [of s' a j b "RemOverride i"] cs DecActive
    by (simp add: s' counts_ok_def decrement_active_def)
next
  case (RemOverride i)
  obtain d where ro: "remove_override i s = (d, s')" "js' = a @ (if d then DecOverride i else RemBoundary i) # b"
    using st RemOverride by (auto simp: js'_def split: prod.splits)
  have i: "i \<notin> live s" using jobs_ok_finishes [OF js, of i] RemOverride by simp
  note rr = remove_override_ok [OF ok i ro(1)]
  have "jobs_ok s' js'"
    unfolding ro(2) by (rule jobs_ok_replace [OF rr(4) [OF js]]) (use RemOverride in \<open>auto split: if_splits\<close>)
  moreover have "override_count s' = override_count s" "active_txn_count s' = active_txn_count s"
    using ro(1) by (auto simp: remove_override_def)
  ultimately show ?thesis
    using rr cs RemOverride by (cases d) (simp_all add: ro(2) counts_ok_def)
next
  case (DecOverride i)
  then have s': "s' = decrement_override_count s" "js' = a @ RemBoundary i # b"
    using st by (auto simp: js'_def)
  have c: "same_core s s'" by (simp add: s' same_core_simps)
  note cr = core_step [OF ok js c]
  show ?thesis
    using cr jobs_ok_replace [of s' a j b "RemBoundary i"] cs DecOverride
    by (simp add: s' counts_ok_def decrement_override_count_def)
next
  case (RemBoundary i)
  then have s': "s' = remove_boundary i s" "js' = a @ b" using st by (auto simp: js'_def)
  have i: "i \<notin> live s" using jobs_ok_finishes [OF js, of i] RemBoundary by simp
  note rb = remove_boundary_ok [OF ok i]
  have "counts_ok s (a @ b)" using cs RemBoundary by (simp add: counts_ok_def)
  then show ?thesis using rb jobs_ok_drop [OF js] by (simp add: s')
next
  case (GcSweep ret t keys)
  obtain sw where sw: "gc_sweep ret t keys s = (sw, s')" "js' = a @ GcSequences ret t sw # b"
    using st GcSweep by (auto simp: js'_def split: prod.splits)
  note gs = gc_sweep_ok [OF ok sw(1)]
  have n: "next_txn_id s' = next_txn_id s" using sw(1) by (auto simp: gc_sweep_def Let_def)
  have "jobs_ok s' js'"
    unfolding sw(2)
    by (rule jobs_ok_replace [OF gs(3) [OF js]]) (use GcSweep gs(8) jobs_ok_gc(1) [OF js] n in auto)
  then show ?thesis using gs cs GcSweep by (simp add: sw(2) counts_ok_def)
next
  case (GcSequences ret t sw)
  then obtain ids where s': "gc_sequences ret t (gc_min_begin_seq sw) s = (ids, s')"
      "js' = a @ GcTimes (gc_removed_ids sw @ ids) (gc_invalid_overrides sw) # b"
    using st by (auto simp: js'_def split: prod.splits)
  have c: "same_core s s'" "next_sequence s' = next_sequence s" "override_count s' = override_count s"
    "active_txn_count s' = active_txn_count s"
    using s'(1) by (auto simp: same_core_simps)
  note cr = core_step [OF ok js c(1,2)]
  have "jobs_ok s' js'"
    unfolding s'(2)
    by (rule jobs_ok_replace [OF cr(3)]) (use GcSequences jobs_ok_gc [OF js] cr in auto)
  then show ?thesis using cr cs c GcSequences by (simp add: s'(2) counts_ok_def)
next
  case (GcTimes ids invalid)
  then have s': "s' = gc_times ids s" "js' = a @ GcOverrides invalid # b"
    using st by (auto simp: js'_def)
  have c: "same_core s s'" by (simp add: s' same_core_simps)
  have q: "next_sequence s' = next_sequence s" "override_count s' = override_count s"
    "active_txn_count s' = active_txn_count s" by (simp_all add: s' gc_times_def)
  note cr = core_step [OF ok js c q(1)]
  have "jobs_ok s' js'"
    unfolding s'(2)
    by (rule jobs_ok_replace [OF cr(3)]) (use GcTimes jobs_ok_gc [OF js] cr in auto)
  then show ?thesis using cr cs q GcTimes by (simp add: s'(2) counts_ok_def)
next
  case (GcOverrides invalid)
  obtain n where s': "gc_overrides invalid s = (n, s')" "js' = a @ b"
    using st GcOverrides by (cases "gc_overrides invalid s") (auto simp: js'_def)
  have inv: "set invalid \<inter> live s = {}" using jobs_ok_gc(2) [OF js] GcOverrides by auto
  note go = gc_overrides_ok [OF ok inv s'(1)]
  show ?thesis
    using go jobs_ok_drop [OF js] cs GcOverrides by (simp add: s'(2) counts_ok_def)
qed

section \<open>Every event keeps the invariant\<close>

lemma finish_started:
  assumes ok: "reg_ok s" and i: "i \<in> live s" and js: "jobs_ok s js" and cs: "counts_ok s js"
    and s': "live s' = live s - {i}" "jobs_ok s js \<Longrightarrow> jobs_ok s' js" "next_txn_id s' = next_txn_id s"
      "isolation_overrides s' = isolation_overrides s" "override_count s' = override_count s"
      "active_txn_count s' = active_txn_count s"
    and j: "finishes j = Some i" "owes_active j" "gc_keys j = []" "gc_removes j = []" "\<not> owes_override j"
  shows "jobs_ok s' (js @ [j])" "counts_ok s' (js @ [j])"
proof -
  have "i \<notin> set (List.map_filter finishes js)" using js i by (auto simp: jobs_ok_def)
  then show "jobs_ok s' (js @ [j])"
    using live_ids [OF ok i] by (intro jobs_ok_add [OF s'(2) [OF js]]) (use s' j in auto)
  have "card (live s) = Suc (card (live s - {i}))" using card_Suc_Diff1 [OF finite_live i] by simp
  then show "counts_ok s' (js @ [j])" using cs j by (simp add: counts_ok_def s')
qed

lemma sys_step_ok:
  assumes "sys_ok S"
  shows "sys_ok (sys_step e S) \<and> evolves (reg S) (reg (sys_step e S))"
proof -
  let ?s = "reg S" let ?js = "jobs S"
  have ok: "reg_ok ?s" and js: "jobs_ok ?s ?js" and cs: "counts_ok ?s ?js"
    using assms by (auto simp: sys_ok_def)
  have core: "sys_ok (S\<lparr>reg := s'\<rparr>) \<and> evolves ?s s'"
    if c: "same_core ?s s'" "next_sequence ?s \<le> next_sequence s'" "next_sequence s' \<le> SEQ_MASK"
      "active_txn_count s' = active_txn_count ?s" "override_count s' = override_count ?s" for s'
    using same_core_reg_ok [OF c(1) ok c(2,3)] same_core_evolves [OF c(1,2)] same_core_jobs_ok [OF c(1) js]
      same_core_counts_ok [OF c(1,4,5) cs]
    by (simp add: sys_ok_def)
  note q = reg_okD(9) [OF ok]
  show ?thesis
  proof (cases e)
    case (EBegin level now)
    then show ?thesis
      using begin_reg_ok [OF ok, of level now] begin_rest [OF ok js cs refl, of level now]
      by (simp add: sys_ok_def)
  next
    case (EStartCommit i)
    show ?thesis
    proof (cases "start_commit i ?s")
      case (Inr r)
      obtain n s' where r: "r = (n, s')" by fastforce
      note sc = start_commit_ok [OF ok Inr [unfolded r]]
      have "counts_ok s' ?js"
        using cs Inr r sc(4) by (auto simp: counts_ok_def elim!: start_commit_cases)
      then show ?thesis using sc js Inr EStartCommit by (simp add: r sys_ok_def)
    qed (use EStartCommit assms in simp)
  next
    case (EPublish i rs now)
    show ?thesis
    proof (cases "publish_commit i rs now ?s")
      case (Inr r)
      obtain n s' where r: "r = (n, s')" by fastforce
      note pc = publish_ok [OF ok Inr [unfolded r]]
      have "next_txn_id s' = next_txn_id ?s" using Inr r by (auto elim!: publish_cases)
      then show ?thesis
        using finish_started [OF ok pc(5) js cs pc(4,3) _ pc(6-8), of "DecActive i"] pc(1,2) Inr EPublish
        by (simp add: r sys_ok_def add_job_def)
    qed (use EPublish assms in simp)
  next
    case (EAbort i)
    obtain d s' where ma: "mark_aborted i ?s = (d, s')" by fastforce
    note m = mark_aborted_ok [OF ok ma]
    have n: "next_txn_id s' = next_txn_id ?s" using ma by (auto simp: mark_aborted_def split: option.splits)
    show ?thesis
    proof (cases d)
      case True
      then show ?thesis
        using finish_started [OF ok _ js cs m(4,3) n m(6-8), of "RecordAbort i"] m(1,2,5) EAbort ma
        by (simp add: sys_ok_def add_job_def)
    next
      case False
      then have "live s' = live ?s" using m(4,5) by simp
      then have "counts_ok s' ?js" using cs m(6-8) by (simp add: counts_ok_def)
      then show ?thesis using m(1-3) js EAbort ma False by (simp add: sys_ok_def)
    qed
  next
    case (EJob k now)
    show ?thesis
    proof (cases "k < length ?js")
      case True
      let ?a = "take k ?js" let ?j = "?js ! k" let ?b = "drop (Suc k) ?js"
      have split: "?js = ?a @ ?j # ?b" using True by (simp add: id_take_nth_drop)
      obtain rest s' where js': "job_step now ?j ?s = (rest, s')" by fastforce
      have "reg_ok s' \<and> jobs_ok s' (?a @ (case rest of None \<Rightarrow> [] | Some j' \<Rightarrow> [j']) @ ?b) \<and>
            counts_ok s' (?a @ (case rest of None \<Rightarrow> [] | Some j' \<Rightarrow> [j']) @ ?b) \<and> evolves ?s s'"
        using job_step_ok [OF ok _ _ js'] js cs split by metis
      then show ?thesis using True EJob js' by (simp add: run_job_def sys_ok_def)
    qed (use EJob assms in \<open>simp add: run_job_def\<close>)
  next
    case (EGc max_age now)
    let ?j = "GcSweep (retention_ns max_age) now (gc_override_keys ?s)"
    have "0 < i \<and> i \<le> next_txn_id ?s" if "i \<in> set (gc_override_keys ?s)" for i
    proof -
      have "map_of (isolation_overrides ?s) i \<noteq> None"
        using that keys_map_of [of i "isolation_overrides ?s"]
        by (simp add: gc_override_keys_def split: if_splits)
      then show ?thesis using ids_inD [OF reg_okD(11) [OF ok]] by blast
    qed
    then have "jobs_ok ?s (?js @ [?j])" by (intro jobs_ok_add [OF js]) auto
    then show ?thesis using ok cs EGc by (simp add: sys_ok_def add_job_def counts_ok_def)
  next
    case EReserve
    then show ?thesis
      using assms core [of "?s\<lparr>next_sequence := next_sequence ?s + 1\<rparr>"]
      by (auto simp: reserve_visibility_sequence_def next_seq_Some same_core_def split: option.splits)
  qed (use assms core q in \<open>auto simp: same_core_simps sys_ok_def Let_def\<close>)
qed

section \<open>Startup\<close>

definition quiescent :: "registry \<Rightarrow> bool" where
  "quiescent s \<longleftrightarrow>
     live s = {} \<and> isolation_overrides s = [] \<and> snapshot_exclusions s = [] \<and>
     override_count s = 0 \<and> active_txn_count s = 0"

lemma raise_sequence_same: "same_core s (raise_sequence q s)"
  "next_sequence s \<le> next_sequence (raise_sequence q s)"
  "q \<le> SEQ_MASK \<Longrightarrow> next_sequence s \<le> SEQ_MASK \<Longrightarrow> next_sequence (raise_sequence q s) \<le> SEQ_MASK"
  "isolation_overrides (raise_sequence q s) = isolation_overrides s"
  "override_count (raise_sequence q s) = override_count s"
  "active_txn_count (raise_sequence q s) = active_txn_count s"
  by (auto simp: raise_sequence_def same_core_def)

lemma raise_sequence_ok:
  assumes "reg_ok s" "quiescent s" "q \<le> SEQ_MASK"
  shows "reg_ok (raise_sequence q s)" "quiescent (raise_sequence q s)"
proof -
  note rs = raise_sequence_same [where s = s and q = q]
  show "reg_ok (raise_sequence q s)"
    using same_core_reg_ok [OF rs(1) assms(1) rs(2)] rs(3) assms(3) reg_okD(9) [OF assms(1)] by simp
  show "quiescent (raise_sequence q s)"
    using assms(2) live_eq [of "raise_sequence q s" s] by (simp add: quiescent_def raise_sequence_def)
qed

lemma high_water_ok:
  assumes "reg_ok s" "quiescent s" "0 < i" "i < i64_max"
  shows "reg_ok (recover_transaction_high_water_locked i s)"
    "quiescent (recover_transaction_high_water_locked i s)"
proof -
  note r = reg_okD [OF assms(1)]
  show "quiescent (recover_transaction_high_water_locked i s)"
    using assms(2) live_eq [of "s\<lparr>next_txn_id := i\<rparr>" s]
    by (simp add: quiescent_def recover_transaction_high_water_locked_def)
  show "reg_ok (recover_transaction_high_water_locked i s)"
  proof (cases "next_txn_id s < i")
    case True
    have "live (s\<lparr>next_txn_id := i\<rparr>) = live s" by (rule live_eq) simp
    then have "reg_ok (s\<lparr>next_txn_id := i\<rparr>)"
      using r assms(3,4) True ids_in_mono [OF r(10), of i] ids_in_mono [OF r(11), of i] ids_in_mono [OF r(12), of i]
      by (simp add: reg_ok_def keys_ok_def ids_ok_def states_ok_def levels_ok_def boundaries_ok_def)
    then show ?thesis using True by (simp add: recover_transaction_high_water_locked_def)
  qed (use assms(1) in \<open>simp add: recover_transaction_high_water_locked_def\<close>)
qed

lemma record_terminal_ok:
  assumes "reg_ok s" "quiescent s"
  shows "reg_ok (record_terminal i now s)" "quiescent (record_terminal i now s)"
    "reg_ok (s\<lparr>snapshot_seqs := x\<rparr>)" "quiescent (s\<lparr>snapshot_seqs := x\<rparr>)"
proof -
  have "same_core s (record_terminal i now s)" "same_core s (s\<lparr>snapshot_seqs := x\<rparr>)"
    by (simp_all add: same_core_simps)
  then show "reg_ok (record_terminal i now s)" "reg_ok (s\<lparr>snapshot_seqs := x\<rparr>)"
    using same_core_reg_ok [OF _ assms(1)] reg_okD(9) [OF assms(1)] by (simp_all add: record_terminal_def)
  show "quiescent (record_terminal i now s)" "quiescent (s\<lparr>snapshot_seqs := x\<rparr>)"
    using assms(2) by (simp_all add: quiescent_def record_terminal_def live_def)
qed

text \<open>A marker inserted by recovery may carry an identifier above the high water mark.\<close>

lemma recover_aborted_ok:
  assumes ok: "reg_ok s" and qs: "quiescent s" and i: "0 < i" "i < i64_max"
  shows "reg_ok (recover_transaction_high_water_locked i
           (record_terminal i now (s\<lparr>transactions := AList.update i new_aborted (transactions s)\<rparr>)))"
    (is "reg_ok ?s'")
    and "quiescent (recover_transaction_high_water_locked i
           (record_terminal i now (s\<lparr>transactions := AList.update i new_aborted (transactions s)\<rparr>)))"
proof -
  note h = high_water_ok [OF ok qs i]
  let ?h = "recover_transaction_high_water_locked i s"
  have T: "transactions ?s' = AList.update i new_aborted (transactions s)"
    by (simp add: recover_transaction_high_water_locked_def record_terminal_def)
  have e: "isolation_overrides ?s' = isolation_overrides s" "snapshot_exclusions ?s' = snapshot_exclusions s"
    "next_txn_id ?s' = next_txn_id ?h" "next_sequence ?s' = next_sequence s" "flags ?s' = flags s"
    "override_count ?s' = override_count s" "active_txn_count ?s' = active_txn_count s"
    "i \<le> next_txn_id ?h" "transactions ?h = transactions s" "isolation_overrides ?h = isolation_overrides s"
    "snapshot_exclusions ?h = snapshot_exclusions s" "next_sequence ?h = next_sequence s" "flags ?h = flags s"
    by (simp_all add: recover_transaction_high_water_locked_def record_terminal_def)
  have l: "live ?s' = {}"
    using qs unfolding quiescent_def live_def T by auto
  note r = reg_okD [OF h(1)]
  have "keys_ok ?s'" using r(1) by (simp add: keys_ok_def T e distinct_update)
  moreover have "ids_ok ?s'"
    using r(6-12) ids_in_update [OF r(10) i(1) e(8)] by (simp add: ids_ok_def T e)
  moreover have "states_ok ?s'" using r(3) unfolding states_ok_def T e by (auto simp: state_ok_def)
  moreover have "levels_ok ?s'" by (simp add: levels_ok_def l)
  moreover have "boundaries_ok ?s'" using r(5) unfolding boundaries_ok_def e .
  ultimately show "reg_ok ?s'" by (simp add: reg_ok_def)
  show "quiescent ?s'" using qs l by (simp add: quiescent_def e)
qed

lemma recovered_ok: "recovered s \<Longrightarrow> reg_ok s \<and> quiescent s"
proof (induction rule: recovered.induct)
  case (rec_new epoch)
  show ?case
    by (simp add: reg_ok_def quiescent_def live_def new_registry_def keys_ok_def ids_ok_def ids_in_def
        states_ok_def levels_ok_def boundaries_ok_def SEQ_MASK_def)
next
  case (rec_committed s i seq now s')
  then show ?case
    by (auto simp: recover_committed_transaction_def DDL_TXN_ID_def split: if_splits
        intro!: raise_sequence_ok high_water_ok record_terminal_ok)
next
  case (rec_aborted s i now s')
  then show ?case
    by (auto simp: recover_aborted_transaction_def split: if_splits intro!: recover_aborted_ok)
next
  case (rec_id s i s')
  then show ?case
    by (auto simp: recover_transaction_high_water_def split: if_splits intro!: high_water_ok)
next
  case (rec_seq s seq s')
  then show ?case
    by (auto simp: recover_visibility_high_water_def split: if_splits intro!: raise_sequence_ok)
qed

end
