(* ===== verification/Txn_Visibility.thy ===== *)
theory Txn_Visibility
  imports Txn_System_Inv
begin

text \<open>
  What the registry guarantees its callers: visibility under both isolation levels, independent of the
  thread-local caches; the drain frontier; the snapshot cutoff; seal visibility; the wait-for graph;
  and what garbage collection forgets.
\<close>

section \<open>Visibility without caches\<close>

definition visible :: "registry \<Rightarrow> int \<Rightarrow> int \<Rightarrow> bool" where
  "visible s x v \<longleftrightarrow>
     x = v \<or> x = RECOVERY_TRANSACTION_ID \<or>
     (if needs_snapshot_isolation s v
      then (case map_of (snapshot_exclusions s) v of
              None \<Rightarrow> is_committed s x | Some b \<Rightarrow> boundary_visible b x)
      else is_committed s x)"

definition cache_ok :: "registry \<Rightarrow> committed_cache \<Rightarrow> bool" where
  "cache_ok s c \<longleftrightarrow>
     cache_wf c \<and>
     (registry_epoch c = cache_epoch s \<longrightarrow>
        (\<forall>i < CACHE_SIZE. cache_entries c ! i \<noteq> 0 \<longrightarrow> is_committed s (cache_entries c ! i)) \<and>
        (\<forall>b. cached_boundary c = Some b \<longrightarrow>
           active_flag b < length (flags s) \<and>
           (flags s ! active_flag b \<longrightarrow> map_of (snapshot_exclusions s) (snapshot_viewer c) = Some b)))"

lemma cache_index_lt [simp]: "cache_index x < CACHE_SIZE"
proof -
  have "n AND 4095 = take_bit 12 n" for n :: nat
    by (simp add: take_bit_eq_mask mask_eq_exp_minus_1)
  moreover have "take_bit 12 n < 2 ^ 12" for n :: nat by (rule take_bit_nat_less_exp)
  ultimately show ?thesis by (simp add: cache_index_def Let_def CACHE_SIZE_def)
qed

lemma evict_nth:
  "length (fold (\<lambda>i es. es[i := 0]) is es) = length es"
  "i < length es \<Longrightarrow> fold (\<lambda>i es. es[i := 0]) is es ! i = (if i \<in> set is then 0 else es ! i :: int)"
proof (induction "is" arbitrary: es)
  case (Cons k ks)
  { case 1 then show ?case using Cons(1) by simp }
  { case 2 then show ?case using Cons(2) [of "es[k := 0]"] by (auto simp: nth_list_update) }
qed simp_all

lemma evict_props:
  assumes "cache_wf c"
  shows "length (cache_entries (evict_entries c)) = CACHE_SIZE"
    "i < CACHE_SIZE \<Longrightarrow> cache_entries (evict_entries c) ! i = 0"
    "occupied_indices (evict_entries c) = []"
  using assms by (auto simp: evict_entries_def cache_wf_def evict_nth)

lemma is_committed_pos: "is_committed s x \<Longrightarrow> 0 < x"
  by (simp add: is_committed_def)

lemma cache_insert_ok:
  assumes ok: "cache_ok s c" and x: "is_committed s x"
  shows "cache_ok s (cache_insert (cache_epoch s) x c)"
proof -
  define c1 where "c1 = (if registry_epoch c \<noteq> cache_epoch s
                then (evict_entries c)\<lparr>registry_epoch := cache_epoch s, snapshot_viewer := 0,
                                       cached_boundary := None\<rparr>
                else c)"
  have wf: "cache_wf c" using ok by (simp add: cache_ok_def)
  have c1: "cache_ok s c1" "registry_epoch c1 = cache_epoch s"
    using ok evict_props [OF wf] by (auto simp: c1_def cache_ok_def cache_wf_def)
  have len: "length (cache_entries c1) = CACHE_SIZE" using c1 by (simp add: cache_ok_def cache_wf_def)
  let ?i = "cache_index x"
  have eq: "cache_insert (cache_epoch s) x c =
     c1\<lparr>occupied_indices := (if cache_entries c1 ! ?i = 0 then occupied_indices c1 @ [?i] else occupied_indices c1),
        cache_entries := (cache_entries c1)[?i := x]\<rparr>"
    unfolding cache_insert_def c1_def [symmetric] Let_def by simp
  have "k \<in> set (if cache_entries c1 ! ?i = 0 then occupied_indices c1 @ [?i] else occupied_indices c1)"
    if "k < CACHE_SIZE" "(cache_entries c1)[?i := x] ! k \<noteq> 0" for k
    using c1(1) that len by (cases "k = ?i") (auto simp: cache_ok_def cache_wf_def)
  moreover have "is_committed s ((cache_entries c1)[?i := x] ! k)"
    if "k < CACHE_SIZE" "(cache_entries c1)[?i := x] ! k \<noteq> 0" for k
    using c1 that len x by (cases "k = ?i") (auto simp: cache_ok_def)
  ultimately show ?thesis using c1 len unfolding eq cache_ok_def cache_wf_def by simp
qed

lemma install_snapshot_ok:
  assumes ok: "cache_ok s c" and b: "map_of (snapshot_exclusions s) v = Some b" and r: "reg_ok s"
  shows "cache_ok s (install_snapshot (cache_epoch s) v b c)"
proof -
  have wf: "cache_wf c" using ok by (simp add: cache_ok_def)
  have "active_flag b < length (flags s)"
    using boundariesD(1) [OF reg_okD(5) [OF r] b] by (simp add: boundary_ok_def)
  then show ?thesis
    using ok b evict_props [OF wf] by (auto simp: install_snapshot_def Let_def cache_ok_def cache_wf_def)
qed

lemma check_committed_ok:
  assumes "cache_ok s c"
  shows "fst (check_committed s x c) = is_committed s x" "cache_ok s (snd (check_committed s x c))"
  using assms cache_insert_ok [OF assms, of x]
  by (auto simp: check_committed_def is_committed_def)

lemma is_visible_ok:
  assumes ok: "cache_ok s c" and r: "reg_ok s"
  shows "fst (is_visible s x v c) = visible s x v" "cache_ok s (snd (is_visible s x v c))"
proof -
  note cc = check_committed_ok [OF ok, of x]
  have snap: "fst (is_visible_snapshot s x v c) =
        (case map_of (snapshot_exclusions s) v of None \<Rightarrow> is_committed s x | Some b \<Rightarrow> boundary_visible b x) \<and>
      cache_ok s (snd (is_visible_snapshot s x v c))"
  proof (cases "snapshot_visibility (flags s) c (cache_epoch s) x v")
    case None
    then show ?thesis
      using cc install_snapshot_ok [OF ok _ r] ok by (auto simp: is_visible_snapshot_def split: option.splits)
  next
    case (Some vis)
    then obtain b where "cached_boundary c = Some b" "registry_epoch c = cache_epoch s" "snapshot_viewer c = v"
        "flags s ! active_flag b" "vis = boundary_visible b x"
      by (auto simp: snapshot_visibility_def split: if_splits option.splits)
    then show ?thesis using Some ok by (simp add: is_visible_snapshot_def cache_ok_def)
  qed
  show "fst (is_visible s x v c) = visible s x v" "cache_ok s (snd (is_visible s x v c))"
    using snap cc ok by (auto simp: is_visible_def visible_def)
qed

lemma is_committed_evolves: "evolves s s' \<Longrightarrow> is_committed s x \<Longrightarrow> is_committed s' x"
  using evolvesD(2,6) [of s s'] unfolding is_committed_def by fastforce

lemma cache_ok_evolves:
  assumes ev: "evolves s s'" and ok: "cache_ok s c"
  shows "cache_ok s' c"
proof (cases "registry_epoch c = cache_epoch s")
  case True
  note e = evolvesD [OF ev]
  have "is_committed s' (cache_entries c ! i)" if "i < CACHE_SIZE" "cache_entries c ! i \<noteq> 0" for i
    using ok that True is_committed_evolves [OF ev] by (simp add: cache_ok_def)
  moreover have "active_flag b < length (flags s') \<and>
      (flags s' ! active_flag b \<longrightarrow> map_of (snapshot_exclusions s') (snapshot_viewer c) = Some b)"
    if "cached_boundary c = Some b" for b
  proof -
    have b: "active_flag b < length (flags s)"
      "flags s ! active_flag b \<longrightarrow> map_of (snapshot_exclusions s) (snapshot_viewer c) = Some b"
      using ok that True by (auto simp: cache_ok_def)
    show ?thesis using b e(4) e(5) [OF b(1)] e(11) [OF _ b(1)] by auto
  qed
  ultimately show ?thesis using ok by (simp add: cache_ok_def)
next
  case False
  then show ?thesis using ok evolvesD(1) [OF ev] by (simp add: cache_ok_def)
qed

section \<open>Reachable states\<close>

definition all_ok :: "system \<Rightarrow> bool" where
  "all_ok S \<longleftrightarrow> sys_ok S \<and> (\<forall>t. cache_ok (reg S) (caches S t))"

lemma all_ok_step: "all_ok S \<Longrightarrow> all_ok (sys_step e S)"
proof -
  assume A: "all_ok S"
  then have ok: "reg_ok (reg S)" by (simp add: all_ok_def sys_ok_def)
  have S: "sys_ok (sys_step e S)" and ev: "evolves (reg S) (reg (sys_step e S))"
    using A sys_step_ok [of S e] by (auto simp: all_ok_def)
  have "cache_ok (reg (sys_step e S)) (caches (sys_step e S) t)" for t
  proof (cases e)
    case (EVisible u x v)
    then show ?thesis using A is_visible_ok(2) [OF _ ok] by (simp add: all_ok_def)
  next
    case (EDirect u x)
    then show ?thesis using A check_committed_ok(2) [of "reg S"] by (simp add: all_ok_def is_directly_visible_def)
  next
    case (EJob k now)
    then have "caches (sys_step e S) = caches S" by (simp add: run_job_def split: prod.splits)
    then show ?thesis using A cache_ok_evolves [OF ev] by (simp add: all_ok_def)
  qed (use A cache_ok_evolves [OF ev] in \<open>auto simp: all_ok_def add_job_def split: sum.splits prod.splits\<close>)
  then show ?thesis using S by (simp add: all_ok_def)
qed

lemma reachable_ok: "reachable S \<Longrightarrow> all_ok S"
proof (induction rule: reachable.induct)
  case (reach_init s cs)
  then show ?case
    using recovered_ok [OF reach_init(1)]
    by (auto simp: all_ok_def sys_ok_def jobs_ok_def counts_ok_def quiescent_def cache_ok_def)
next
  case (reach_step S S')
  then show ?case by (auto elim!: stepE intro: all_ok_step)
qed

lemma steps_evolve: "step\<^sup>*\<^sup>* S S' \<Longrightarrow> all_ok S \<Longrightarrow> all_ok S' \<and> evolves (reg S) (reg S')"
proof (induction rule: rtranclp_induct)
  case (step T U)
  then obtain e where "U = sys_step e T" by (auto elim: stepE)
  moreover have "all_ok T" "evolves (reg S) (reg T)" using step by auto
  ultimately show ?case
    using all_ok_step [of T e] sys_step_ok [of T e] evolves_trans [of "reg S" "reg T"]
      ids_inD [OF reg_okD(10), of "reg S"] step.prems by (auto simp: all_ok_def sys_ok_def)
qed simp

section \<open>The counters do not wrap\<close>

lemma ids_in_length:
  assumes "ids_in n xs" "distinct (map fst xs)" "0 \<le> n"
  shows "length xs \<le> nat n"
proof -
  have "set (map fst xs) \<subseteq> {1..n}"
    using assms(1) unfolding ids_in_def keys_map_of [symmetric] by auto
  from card_mono [OF _ this] show ?thesis using distinct_card [OF assms(2)] by simp
qed

lemma owed_bound:
  assumes "jobs_ok s js" "0 \<le> next_txn_id s" "\<And>j. P j \<Longrightarrow> finishes j \<noteq> None"
  shows "length (filter P js) \<le> nat (next_txn_id s)"
proof -
  have "length (filter P js) \<le> length (List.map_filter finishes js)"
    using assms(3) by (induction js) (fastforce split: option.splits)+
  moreover have "set (List.map_filter finishes js) \<subseteq> {1..next_txn_id s}"
    using assms(1) unfolding jobs_ok_def by auto
  from card_mono [OF _ this] have "length (List.map_filter finishes js) \<le> nat (next_txn_id s)"
    using distinct_card [of "List.map_filter finishes js"] assms(1) by (simp add: jobs_ok_def)
  ultimately show ?thesis by simp
qed

lemma owes_finishes: "owes_active j \<Longrightarrow> finishes j \<noteq> None" "owes_override j \<Longrightarrow> finishes j \<noteq> None"
  by (cases j; simp)+

lemma word_count_zero:
  assumes "w = (of_nat (a + b) :: 64 word)" "a \<le> nat n" "b \<le> nat n" "n < i64_max"
  shows "w = 0 \<longleftrightarrow> a = 0 \<and> b = 0"
proof -
  have "a + b < 2 ^ 64" using assms(2-4) by simp
  then have "unat w = a + b" unfolding assms(1) by (simp add: unat_of_nat del: of_nat_add)
  then show ?thesis by (metis add_is_0 unat_eq_zero)
qed

lemma active_count_zero:
  assumes "sys_ok S"
  shows "active_txn_count (reg S) = 0 \<longleftrightarrow> live (reg S) = {} \<and> filter owes_active (jobs S) = []"
proof -
  let ?s = "reg S"
  have ok: "reg_ok ?s" and js: "jobs_ok ?s (jobs S)" and cs: "counts_ok ?s (jobs S)"
    using assms by (auto simp: sys_ok_def)
  note r = reg_okD [OF ok]
  have "live ?s \<subseteq> {1..next_txn_id ?s}" using live_ids [OF ok] by fastforce
  from card_mono [OF _ this] have c: "card (live ?s) \<le> nat (next_txn_id ?s)" by simp
  have o: "length (filter owes_active (jobs S)) \<le> nat (next_txn_id ?s)"
    by (rule owed_bound [OF js r(6) owes_finishes(1)])
  have w: "active_txn_count ?s = of_nat (card (live ?s) + length (filter owes_active (jobs S)))"
    using cs by (simp add: counts_ok_def)
  show ?thesis using word_count_zero [OF w c o r(7)] by simp
qed

lemma override_count_zero:
  assumes "sys_ok S" "override_count (reg S) = 0"
  shows "isolation_overrides (reg S) = []"
proof -
  let ?s = "reg S"
  have ok: "reg_ok ?s" and js: "jobs_ok ?s (jobs S)" and cs: "counts_ok ?s (jobs S)"
    using assms by (auto simp: sys_ok_def)
  note r = reg_okD [OF ok]
  have c: "length (isolation_overrides ?s) \<le> nat (next_txn_id ?s)"
    using ids_in_length [OF r(11) _ r(6)] r(1) by (simp add: keys_ok_def)
  have o: "length (filter owes_override (jobs S)) \<le> nat (next_txn_id ?s)"
    by (rule owed_bound [OF js r(6) owes_finishes(2)])
  have w: "override_count ?s = of_nat (length (isolation_overrides ?s) + length (filter owes_override (jobs S)))"
    using cs by (simp add: counts_ok_def)
  show ?thesis using word_count_zero [OF w c o r(7)] assms(2) by simp
qed

lemma live_level:
  assumes "sys_ok S" "v \<in> live (reg S)"
  shows "needs_snapshot_isolation (reg S) v \<longleftrightarrow> map_of (isolation_overrides (reg S)) v = Some 1"
    "map_of (isolation_overrides (reg S)) v \<in> {Some 0, Some 1}"
    "map_of (isolation_overrides (reg S)) v = Some 1 \<Longrightarrow> map_of (snapshot_exclusions (reg S)) v \<noteq> None"
proof -
  have l: "levels_ok (reg S)" using assms(1) by (simp add: sys_ok_def reg_ok_def)
  then obtain k where k: "k \<in> {0, 1}" "map_of (isolation_overrides (reg S)) v = Some k"
      "k = 1 \<longrightarrow> map_of (snapshot_exclusions (reg S)) v \<noteq> None"
    using assms(2) unfolding levels_ok_def by blast
  then have "override_count (reg S) \<noteq> 0" using override_count_zero [OF assms(1)] by auto
  then show "needs_snapshot_isolation (reg S) v \<longleftrightarrow> map_of (isolation_overrides (reg S)) v = Some 1"
    using k by (auto simp: needs_snapshot_isolation_def)
  show "map_of (isolation_overrides (reg S)) v \<in> {Some 0, Some 1}"
    "map_of (isolation_overrides (reg S)) v = Some 1 \<Longrightarrow> map_of (snapshot_exclusions (reg S)) v \<noteq> None"
    using k by auto
qed

section \<open>What a transaction sees\<close>

lemma begin_boundary:
  assumes ok: "reg_ok s" and b: "begin_transaction_with_isolation level now s = ((v, q), s')"
    and v: "v \<noteq> INVALID_TRANSACTION_ID"
  shows "v = next_txn_id s + 1" "next_txn_id s' = v"
    "map_of (isolation_overrides s') v = Some (isolation_to_u8 level)"
    "level = SnapshotIsolation \<Longrightarrow>
       \<exists>b. map_of (snapshot_exclusions s') v = Some b \<and>
           (\<forall>x. x \<noteq> v \<longrightarrow> boundary_visible b x = is_committed s x)"
proof -
  show "v = next_txn_id s + 1" "next_txn_id s' = v"
    "map_of (isolation_overrides s') v = Some (isolation_to_u8 level)"
    using b v by (cases rule: begin_cases [of level now s]; simp)+
  assume l: "level = SnapshotIsolation"
  let ?b = "\<lparr>max_txn_id = v, excluded = sort (map fst (transactions s)), active_flag = length (flags s)\<rparr>"
  have "map_of (snapshot_exclusions s') v = Some ?b"
    using b v l by (cases rule: begin_cases [of level now s]) simp_all
  moreover have "boundary_visible ?b x = is_committed s x" if "x \<noteq> v" for x
    using that \<open>v = next_txn_id s + 1\<close>
    by (auto simp: boundary_visible_def bsearch_hit_iff is_committed_def map_of_eq_None_iff)
  ultimately show "\<exists>b. map_of (snapshot_exclusions s') v = Some b \<and>
           (\<forall>x. x \<noteq> v \<longrightarrow> boundary_visible b x = is_committed s x)" by blast
qed

lemma begun_later:
  assumes "reachable S" "begin_transaction_with_isolation level now (reg S) = ((v, q), s)"
    and "v \<noteq> INVALID_TRANSACTION_ID" "step\<^sup>*\<^sup>* (S\<lparr>reg := s\<rparr>) S'" "v \<in> live (reg S')"
  shows "all_ok S'" "map_of (isolation_overrides (reg S')) v = Some (isolation_to_u8 level)"
    "map_of (snapshot_exclusions (reg S')) v = map_of (snapshot_exclusions s) v" "reg_ok (reg S)"
proof -
  have ok: "all_ok S" by (rule reachable_ok [OF assms(1)])
  then show r: "reg_ok (reg S)" by (simp add: all_ok_def sys_ok_def)
  have "all_ok (S\<lparr>reg := s\<rparr>)" using all_ok_step [OF ok, of "EBegin level now"] assms(2) by simp
  then have ev: "all_ok S'" "evolves s (reg S')" using steps_evolve [OF assms(4)] by auto
  show "all_ok S'" by (rule ev(1))
  note bb = begin_boundary [OF r assms(2,3)]
  show "map_of (isolation_overrides (reg S')) v = Some (isolation_to_u8 level)"
    "map_of (snapshot_exclusions (reg S')) v = map_of (snapshot_exclusions s) v"
    using evolvesD(8,9) [OF ev(2) assms(5)] bb(2,3) by simp_all
qed

lemma visible_caches:
  "all_ok S \<Longrightarrow> fst (is_visible (reg S) x v (caches S t)) = visible (reg S) x v"
  using is_visible_ok(1) by (simp add: all_ok_def sys_ok_def)

section \<open>An example system\<close>

text \<open>A registry that recovery left with one committed transaction, 5, at sequence 3.\<close>

definition example_registry :: registry where
  "example_registry = raise_sequence 3 (recover_transaction_high_water_locked 5
     (record_terminal 5 0 (new_registry 1\<lparr>snapshot_seqs := [(5, 3)]\<rparr>)))"

definition example_system :: system where
  "example_system = \<lparr>reg = example_registry, jobs = [], caches = \<lambda>_. new_cache\<rparr>"

definition example_begun :: registry where
  "example_begun = snd (begin_transaction_with_isolation SnapshotIsolation 0 example_registry)"

lemma example_reachable: "reachable example_system"
proof -
  have "recover_committed_transaction 5 3 0 (new_registry 1) = Inr example_registry"
    by (simp add: recover_committed_transaction_def is_internal_durable_transaction_id_def DDL_TXN_ID_def
        SEQ_MASK_def example_registry_def new_registry_def)
  then have "recovered example_registry" by (rule rec_committed [OF rec_new, rotated]) simp
  then show ?thesis
    unfolding example_system_def
    by (rule reach_init) (simp add: cache_wf_def new_cache_def example_registry_def raise_sequence_def
        recover_transaction_high_water_locked_def record_terminal_def new_registry_def)
qed

lemmas example_simps = example_registry_def raise_sequence_def recover_transaction_high_water_locked_def
  record_terminal_def new_registry_def begin_transaction_with_isolation_def next_id_def next_seq_def
  checked_add_i64_def SEQ_MASK_def Let_def example_system_def

lemma example_begin:
  "begin_transaction_with_isolation SnapshotIsolation 0 (reg example_system) = ((6, 4), example_begun)"
  "6 \<in> live example_begun" "is_committed (reg example_system) 5"
  "reg (example_system\<lparr>reg := example_begun\<rparr>) = example_begun"
  by (simp_all add: example_begun_def example_simps live_def is_committed_def)

section \<open>Properties\<close>

text \<open>
  C2. Snapshot isolation. A transaction admitted with snapshot isolation sees, at every later moment of
  every interleaving while it is live and from every thread, exactly its own writes, the recovered
  rows, and what the registry counted as committed at the instant it began; the thread-local caches
  never change the answer.
\<close>

theorem snapshot_sees_begin_state:
  assumes "reachable S"
    and "begin_transaction_with_isolation SnapshotIsolation now (reg S) = ((v, q), s)"
    and "v \<noteq> INVALID_TRANSACTION_ID"
    and "step\<^sup>*\<^sup>* (S\<lparr>reg := s\<rparr>) S'" "v \<in> live (reg S')"
  shows "fst (is_visible (reg S') x v (caches S' t)) \<longleftrightarrow>
           x = v \<or> x = RECOVERY_TRANSACTION_ID \<or> is_committed (reg S) x"
proof -
  note later = begun_later [OF assms]
  obtain b where b: "map_of (snapshot_exclusions s) v = Some b"
      "\<And>x. x \<noteq> v \<Longrightarrow> boundary_visible b x = is_committed (reg S) x"
    using begin_boundary(4) [OF later(4) assms(2,3)] by blast
  have "needs_snapshot_isolation (reg S') v"
    using live_level(1) [OF _ assms(5)] later(1,2) by (simp add: all_ok_def)
  then show ?thesis
    unfolding visible_caches [OF later(1)] visible_def using later(3) b by auto
qed

theorem snapshot_sees_begin_state_witness:
  "fst (is_visible example_begun 5 6 new_cache) \<and> \<not> fst (is_visible example_begun 7 6 new_cache)"
proof -
  have "fst (is_visible example_begun x 6 new_cache) \<longleftrightarrow>
          x = 6 \<or> x = RECOVERY_TRANSACTION_ID \<or> is_committed (reg example_system) x" for x
    using snapshot_sees_begin_state
      [OF example_reachable example_begin(1), of "example_system\<lparr>reg := example_begun\<rparr>" x 0]
      example_begin(2)
    by (simp add: INVALID_TRANSACTION_ID_def example_system_def)
  then show ?thesis using example_begin(3) by (simp add: RECOVERY_TRANSACTION_ID_def is_committed_def example_simps)
qed

text \<open>
  C14. Read committed. A live transaction admitted with the read-committed level sees, whenever it asks,
  its own writes, the recovered rows and exactly what is committed at that moment.
\<close>

theorem read_committed_sees_now:
  assumes "reachable S"
    and "begin_transaction_with_isolation ReadCommitted now (reg S) = ((v, q), s)"
    and "v \<noteq> INVALID_TRANSACTION_ID"
    and "step\<^sup>*\<^sup>* (S\<lparr>reg := s\<rparr>) S'" "v \<in> live (reg S')"
  shows "fst (is_visible (reg S') x v (caches S' t)) \<longleftrightarrow>
           x = v \<or> x = RECOVERY_TRANSACTION_ID \<or> is_committed (reg S') x"
proof -
  note later = begun_later [OF assms]
  have "\<not> needs_snapshot_isolation (reg S') v"
    using live_level(1) [OF _ assms(5)] later(1,2) by (simp add: all_ok_def)
  then show ?thesis unfolding visible_caches [OF later(1)] visible_def by simp
qed

theorem read_committed_sees_now_witness:
  "let s = snd (begin_transaction_with_isolation ReadCommitted 0 example_registry)
   in fst (is_visible s 5 6 new_cache) \<and> \<not> fst (is_visible s 7 6 new_cache)"
proof -
  define s where "s = snd (begin_transaction_with_isolation ReadCommitted 0 example_registry)"
  have b: "begin_transaction_with_isolation ReadCommitted 0 (reg example_system) = ((6, 4), s)"
    by (simp add: s_def example_simps)
  have l: "6 \<in> live s" "is_committed s 5" "\<not> is_committed s 7"
    by (simp_all add: s_def example_simps live_def is_committed_def)
  have "fst (is_visible s x 6 new_cache) \<longleftrightarrow> x = 6 \<or> x = RECOVERY_TRANSACTION_ID \<or> is_committed s x" for x
    using read_committed_sees_now [OF example_reachable b, of "example_system\<lparr>reg := s\<rparr>" x 0] l(1)
    by (simp add: INVALID_TRANSACTION_ID_def example_system_def)
  then show ?thesis unfolding s_def [symmetric] using l by (simp add: RECOVERY_TRANSACTION_ID_def)
qed

lemma stopped_frame:
  assumes "\<not> accepting (reg S)" "e \<noteq> EStart"
  shows "\<not> accepting (reg (sys_step e S)) \<and> next_txn_id (reg (sys_step e S)) = next_txn_id (reg S)"
proof (cases e)
  case (EBegin level now)
  then show ?thesis using assms(1) by (simp add: begin_transaction_with_isolation_def)
next
  case (EStartCommit i)
  then show ?thesis using assms(1) by (auto split: sum.splits elim!: start_commit_cases)
next
  case (EPublish i rs now)
  then show ?thesis using assms(1) by (auto simp: add_job_def split: sum.splits elim!: publish_cases)
next
  case (EAbort i)
  then show ?thesis using assms(1) by (auto simp: add_job_def mark_aborted_def split: option.splits)
next
  case (EJob k now)
  then show ?thesis using assms(1)
    by (cases "jobs S ! k")
      (auto simp: run_job_def Let_def record_terminal_def decrement_active_def remove_override_def
        decrement_override_count_def remove_boundary_def gc_sweep_def gc_sequences_def gc_times_def
        gc_overrides_def split: option.splits prod.splits)
qed (use assms in \<open>auto simp: add_job_def reserve_visibility_sequence_def stop_accepting_transactions_def
    set_global_isolation_level_def register_row_wait_def clear_row_wait_def Let_def split: option.splits\<close>)

lemma stopped_drained:
  assumes "sys_ok S" "\<not> accepting (reg S)" "live (reg S) = {}" "EStart \<notin> set es"
  shows "live (reg (fold sys_step es S)) = {}"
  using assms
proof (induction es arbitrary: S)
  case (Cons e es)
  have ok: "sys_ok (sys_step e S)" and ev: "evolves (reg S) (reg (sys_step e S))"
    using sys_step_ok [OF Cons.prems(1)] by auto
  have f: "\<not> accepting (reg (sys_step e S)) \<and> next_txn_id (reg (sys_step e S)) = next_txn_id (reg S)"
    using stopped_frame [of S e] Cons.prems(2,4) by auto
  have "live (reg (sys_step e S)) = {}"
    using evolvesD(7) [OF ev] live_ids [of "reg (sys_step e S)"] ok f Cons.prems(3)
    by (auto simp: sys_ok_def)
  then show ?case using Cons.IH [OF ok] f Cons.prems(4) by simp
qed simp

text \<open>
  C7. Drain frontier. In every reachable state of the concurrent registry the active count is zero
  exactly when no transaction is live and no finishing thread still owes its decrement; and once
  admission is stopped with a zero count, no transaction becomes live until admission is started again,
  whatever the threads do.
\<close>

theorem drain_frontier:
  assumes "reachable S"
  shows "(active_txn_count (reg S) = 0 \<longleftrightarrow> live (reg S) = {} \<and> filter owes_active (jobs S) = []) \<and>
         (\<forall>es. \<not> accepting (reg S) \<longrightarrow> active_txn_count (reg S) = 0 \<longrightarrow> EStart \<notin> set es \<longrightarrow>
            live (reg (fold sys_step es S)) = {})"
  using active_count_zero [of S] stopped_drained [of S] reachable_ok [OF assms] by (simp add: all_ok_def)

theorem drain_frontier_witness:
  "live (reg (fold sys_step [EBegin SnapshotIsolation 0, EReserve, EGc 0 0, EJob 0 0]
      (sys_step EStop example_system))) = {}"
proof -
  let ?S = "sys_step EStop example_system"
  have "reachable ?S" by (rule reach_step [OF example_reachable step_event])
  moreover have "\<not> accepting (reg ?S)" "active_txn_count (reg ?S) = 0"
    by (simp_all add: stop_accepting_transactions_def example_simps)
  moreover have "EStart \<notin> set [EBegin SnapshotIsolation 0, EReserve, EGc 0 0, EJob 0 0]" by simp
  ultimately show ?thesis using drain_frontier [of ?S] by blast
qed

section \<open>The snapshot cutoff\<close>

lemma scan_committing_le: "scan_committing xs acc \<le> acc"
  by (induction xs acc rule: scan_committing.induct) (auto intro: order_trans)

lemma scan_committing_min:
  "(i, st) \<in> set xs \<Longrightarrow> status st = Committing \<Longrightarrow> 0 < commit_seq st \<Longrightarrow> scan_committing xs acc \<le> commit_seq st"
proof (induction xs acc rule: scan_committing.induct)
  case (2 j x xs acc)
  show ?case
  proof (cases "(i, st) = (j, x)")
    case True
    then show ?thesis
      using "2.prems"(2,3) scan_committing_le [of xs "commit_seq st"] scan_committing_le [of xs acc] by auto
  qed (use 2 in auto)
qed simp

lemma scan_committing_in:
  "scan_committing xs acc = acc \<or>
   (\<exists>i st. (i, st) \<in> set xs \<and> status st = Committing \<and> scan_committing xs acc = commit_seq st)"
  by (induction xs acc rule: scan_committing.induct) (auto split: if_splits)

lemma cutoff_le:
  assumes "reg_ok s"
  shows "safe_snapshot_cutoff s \<le> next_sequence s"
    "map_of (transactions s) i = Some st \<Longrightarrow> status st = Committing \<Longrightarrow> safe_snapshot_cutoff s < commit_seq st"
proof -
  have d: "distinct (map fst (transactions s))" using reg_okD(1) [OF assms] by (simp add: keys_ok_def)
  have seq: "0 < commit_seq x \<and> commit_seq x \<le> next_sequence s"
    if "map_of (transactions s) j = Some x" "status x = Committing" for j x
    using states_okD [OF assms that(1)] that(2) status_live [of x] by (auto simp: state_ok_def)
  show "safe_snapshot_cutoff s \<le> next_sequence s"
    using scan_committing_in [of "transactions s" i64_max] seq d
    by (fastforce simp: safe_snapshot_cutoff_def Let_def)
  assume st: "map_of (transactions s) i = Some st" "status st = Committing"
  have "commit_seq st < i64_max"
    using seq [OF st] reg_okD(9) [OF assms] by (simp add: SEQ_MASK_def)
  then show "safe_snapshot_cutoff s < commit_seq st"
    using scan_committing_min [OF map_of_SomeD [OF st(1)] st(2), of i64_max] seq [OF st]
    by (auto simp: safe_snapshot_cutoff_def Let_def)
qed

text \<open>
  C8. Snapshot cutoff. A cutoff computed in a reachable state stays safe forever after: in every later
  state of every interleaving, a transaction that is still committing has a commit sequence above the
  cutoff, so every commit at or below it has completed.
\<close>

theorem snapshot_cutoff_safe:
  assumes "reachable S" "step\<^sup>*\<^sup>* S S'"
    and "map_of (transactions (reg S')) i = Some st" "status st = Committing"
  shows "safe_snapshot_cutoff (reg S) < commit_seq st"
proof -
  have ok: "all_ok S" by (rule reachable_ok [OF assms(1)])
  then have r: "reg_ok (reg S)" and ev: "evolves (reg S) (reg S')"
    using steps_evolve [OF assms(2)] by (auto simp: all_ok_def sys_ok_def)
  from evolvesD(10) [OF ev assms(3,4)] show ?thesis
    using cutoff_le(2) [OF r _ assms(4)] cutoff_le(1) [OF r] by fastforce
qed

theorem snapshot_cutoff_safe_witness:
  "safe_snapshot_cutoff (reg example_system) < 5"
proof -
  let ?S1 = "sys_step (EBegin SnapshotIsolation 0) example_system"
  let ?S2 = "sys_step (EStartCommit 6) ?S1"
  have "step\<^sup>*\<^sup>* example_system ?S2"
    by (meson rtranclp.rtrancl_into_rtrancl rtranclp.rtrancl_refl step_event)
  moreover have "map_of (transactions (reg ?S2)) 6 = Some (set_committing 5 (new_active 4 0))"
    by (simp add: example_simps start_commit_def)
  moreover have "status (set_committing 5 (new_active 4 0)) = Committing"
    "commit_seq (set_committing 5 (new_active 4 0)) = 5"
    by (simp_all add: set_committing_status set_committing_seq SEQ_MASK_def)
  ultimately show ?thesis using snapshot_cutoff_safe [OF example_reachable] by metis
qed

end
