(* ===== verification/Txn_Maintenance.thy ===== *)
theory Txn_Maintenance
  imports Txn_Visibility
begin

text \<open>
  Maintenance operations of the transaction registry: the commit protocol as its callers use it, what
  garbage collection forgets, the visibility the sealing of rows relies on, and deadlock detection on
  the wait-for graph.
\<close>

section \<open>The commit protocol\<close>



section \<open>What becomes committed, and what is forgotten\<close>

lemma foldl_min_le:
  "foldl (\<lambda>m x. min m (f x)) acc xs \<le> (acc :: int)" "x \<in> set xs \<Longrightarrow> foldl (\<lambda>m x. min m (f x)) acc xs \<le> f x"
proof (induction xs arbitrary: acc)
  case (Cons y ys)
  { case 1 then show ?case using Cons(1) [of "min acc (f y)"] by simp }
  { case 2 then show ?case using Cons(1) [of "min acc (f y)"] Cons(2) [of "min acc (f y)"] by auto }
qed simp_all

lemma gc_min_id_le:
  assumes "ids_ok s" "i \<in> live s"
  shows "gc_min_id s \<le> i"
proof -
  let ?m = "foldl (\<lambda>m x. min m (fst x)) i64_max (live_states s)"
  obtain st where "(i, st) \<in> set (live_states s)"
    using assms(2) by (auto simp: live_def live_states_def dest: map_of_SomeD)
  then have le: "?m \<le> i" using foldl_min_le(2) [of "(i, st)" _ fst] by simp
  have "i < i64_max"
    using assms by (auto simp: ids_ok_def live_def dest!: ids_inD)
  then show ?thesis using le by (simp add: gc_min_id_def case_prod_beta' Let_def)
qed

lemma gc_sweep_gone:
  assumes "reg_ok s" "gc_sweep ret t keys s = (sw, s')" "map_of (transactions s) x = Some st"
    and "map_of (transactions s') x = None" "0 < x"
  shows "is_aborted st" "x < gc_min_id s - 10000"
proof -
  have d: "distinct (map fst (transactions s))" using reg_okD(1) [OF assms(1)] by (simp add: keys_ok_def)
  have "transactions s' = filter (\<lambda>e. \<not> gc_drops s ret t e) (transactions s)"
    using assms(2-4) by (auto simp: gc_sweep_def Let_def split: if_splits)
  then have "gc_drops s ret t (x, st)"
    using map_of_filter_neg [OF d, of "gc_drops s ret t" x] assms(3,4) by (simp split: if_splits)
  then show "is_aborted st" "x < gc_min_id s - 10000"
    using assms(5) by (auto simp: gc_drops_def saturating_sub_i64_def)
qed



lemma gc_min_begin_le:
  assumes "map_of (transactions s) i = Some st" "is_active_or_committing st"
  shows "gc_min_begin s \<le> begin_seq st"
proof -
  have "(i, st) \<in> set (live_states s)"
    using assms by (auto simp: live_states_def dest: map_of_SomeD)
  then show ?thesis
    using foldl_min_le(2) [of "(i, st)" "live_states s" "\<lambda>x. begin_seq (snd x)"]
    by (simp add: gc_min_begin_def case_prod_beta')
qed




section \<open>Sealing\<close>

lemma min_option_spec:
  "min_option xs = Some m \<Longrightarrow> m \<in> set xs \<and> (\<forall>y \<in> set xs. m \<le> y)" "min_option xs = None \<longleftrightarrow> xs = []"
  by (induction xs arbitrary: m) (auto simp: min_def split: option.splits if_splits)

lemma seal_visible_iff:
  "seal_visible (new_seal_visibility mx excl) x \<longleftrightarrow>
     x < 0 \<or> 0 < x \<and> (case mx of None \<Rightarrow> True | Some m \<Rightarrow> x \<le> m) \<and> x \<notin> set excl"
  by (simp add: seal_visible_def new_seal_visibility_def bsearch_hit_iff)

text \<open>
  C23. Sealing. A transaction that the captured seal visibility lets through is not live, and every live
  snapshot transaction sees it, from every thread: sealing its rows discards their provenance but makes
  nothing visible to an older snapshot that the snapshot excludes.
\<close>

theorem sealed_is_visible_to_snapshots:
  assumes "reachable S" "0 < x" "seal_visible (capture_seal_visibility (reg S)) x"
  shows "x \<notin> live (reg S) \<and>
         (\<forall>v \<in> live (reg S). get_isolation_level (reg S) v = SnapshotIsolation \<longrightarrow>
            (\<forall>t. fst (is_visible (reg S) x v (caches S t))))"
proof (intro conjI ballI impI allI)
  let ?s = "reg S"
  let ?mx = "min_option (map max_txn_id (active_boundaries ?s))"
  have ok: "all_ok S" by (rule reachable_ok [OF assms(1)])
  then have r: "reg_ok ?s" and so: "sys_ok S" by (auto simp: all_ok_def sys_ok_def)
  have vis: "case ?mx of None \<Rightarrow> True | Some m \<Rightarrow> x \<le> m"
    and excl: "x \<notin> fst ` set (live_states ?s)"
      "\<And>b. b \<in> set (active_boundaries ?s) \<Longrightarrow>
         x \<notin> set (filter (\<lambda>x. case ?mx of None \<Rightarrow> True | Some m \<Rightarrow> x \<le> m) (excluded b))"
    using assms(2,3) unfolding capture_seal_visibility_def Let_def seal_visible_iff by auto
  show "x \<notin> live ?s"
    using excl(1) by (force simp: live_def live_states_def dest!: map_of_SomeD)
  fix v t assume v: "v \<in> live ?s" "get_isolation_level ?s v = SnapshotIsolation"
  note lv = live_level [OF so v(1)]
  have lvl: "map_of (isolation_overrides ?s) v = Some 1"
  proof (rule ccontr)
    assume "map_of (isolation_overrides ?s) v \<noteq> Some 1"
    then have "map_of (isolation_overrides ?s) v = Some 0" using lv(2) by auto
    moreover from this have "override_count ?s \<noteq> 0" using override_count_zero [OF so] by auto
    ultimately show False using v(2) by (simp add: get_isolation_level_def u8_to_isolation_def)
  qed
  obtain b where b: "map_of (snapshot_exclusions ?s) v = Some b" using lv(3) [OF lvl] by auto
  have bo: "boundary_ok (flags ?s) v b" by (rule boundariesD(1) [OF reg_okD(5) [OF r] b])
  have act: "b \<in> set (active_boundaries ?s)"
    using bo map_of_SomeD [OF b] by (force simp: active_boundaries_def boundary_ok_def)
  then obtain m where m: "?mx = Some m" "m \<le> max_txn_id b"
    using min_option_spec(1) [of "map max_txn_id (active_boundaries ?s)"]
      min_option_spec(2) [of "map max_txn_id (active_boundaries ?s)"]
    by (cases ?mx) auto
  have "boundary_visible b x"
    using excl(2) [OF act] vis m assms(2) bo
    by (simp add: boundary_visible_def bsearch_hit_iff boundary_ok_def)
  then show "fst (is_visible ?s x v (caches S t))"
    using b lv(1) lvl by (simp add: visible_caches [OF ok] visible_def)
qed

theorem sealed_is_visible_to_snapshots_witness:
  "seal_visible (capture_seal_visibility example_begun) 5 \<and> fst (is_visible example_begun 5 6 new_cache)"
proof -
  let ?S = "sys_step (EBegin SnapshotIsolation 0) example_system"
  have S: "reg ?S = example_begun" "caches ?S 0 = new_cache"
    by (simp_all add: example_begun_def example_system_def)
  have "reachable ?S" by (rule reach_step [OF example_reachable step_event])
  moreover have sv: "seal_visible (capture_seal_visibility example_begun) 5"
    by (simp add: capture_seal_visibility_def seal_visible_iff Let_def active_boundaries_def live_states_def
        example_begun_def example_simps)
  moreover have lvl: "get_isolation_level example_begun 6 = SnapshotIsolation"
    by (simp add: get_isolation_level_def u8_to_isolation_def example_begun_def example_simps)
  ultimately have "\<forall>v \<in> live example_begun. get_isolation_level example_begun v = SnapshotIsolation \<longrightarrow>
      (\<forall>t. fst (is_visible example_begun 5 v (caches ?S t)))"
    using sealed_is_visible_to_snapshots [of ?S 5] unfolding S(1) by simp
  then have "fst (is_visible example_begun 5 6 (caches ?S 0))" using example_begin(2) lvl by blast
  then show ?thesis using sv unfolding S(2) by simp
qed

section \<open>The wait-for graph\<close>

definition wait_edges :: "(int \<times> int) list \<Rightarrow> (int \<times> int) set" where
  "wait_edges g = {(a, b). map_of g a = Some b}"

lemma wait_edges_fun: "(a, b) \<in> wait_edges g \<Longrightarrow> (a, c) \<in> wait_edges g \<Longrightarrow> b = c"
  by (simp add: wait_edges_def)

lemma finite_wait_edges [simp]: "finite (wait_edges g)"
  by (rule finite_subset [of _ "set g"]) (auto simp: wait_edges_def dest: map_of_SomeD)

lemma trancl_step_fun:
  assumes "(c, n) \<in> wait_edges g"
  shows "(c, w) \<in> (wait_edges g)\<^sup>+ \<longleftrightarrow> n = w \<or> (n, w) \<in> (wait_edges g)\<^sup>+"
  using assms wait_edges_fun [OF assms] by (metis converse_tranclE r_into_trancl trancl_into_trancl2)

text \<open>The nodes the walk may still leave.\<close>

definition walk_nodes :: "(int \<times> int) list \<Rightarrow> int \<Rightarrow> int set" where
  "walk_nodes g c = {x. (c, x) \<in> (wait_edges g)\<^sup>* \<and> x \<in> Domain (wait_edges g)}"

lemma finite_walk_nodes [simp]: "finite (walk_nodes g c)"
  by (rule finite_subset [of _ "Domain (wait_edges g)"]) (auto simp: walk_nodes_def finite_Domain)

lemma walk_nodes_step:
  assumes "acyclic (wait_edges g)" "(c, n) \<in> wait_edges g"
  shows "card (walk_nodes g n) < card (walk_nodes g c)"
proof -
  have "c \<in> walk_nodes g c" using assms(2) by (auto simp: walk_nodes_def)
  moreover have "c \<notin> walk_nodes g n"
    using assms unfolding walk_nodes_def acyclic_def by (auto dest: rtrancl_into_trancl2)
  moreover have "walk_nodes g n \<subseteq> walk_nodes g c"
    using assms(2) by (auto simp: walk_nodes_def intro: converse_rtrancl_into_rtrancl)
  ultimately show ?thesis by (intro psubset_card_mono) auto
qed

text \<open>
  The walk over the graph with the new edge, from a node other than the waiter, decides whether the old
  edges lead to the waiter; its step limit never strikes.
\<close>

lemma wait_walk_iff:
  assumes "acyclic (wait_edges g0)" "map_of g0 w = None" "\<And>x. x \<noteq> w \<Longrightarrow> map_of g x = map_of g0 x"
    and "c \<noteq> w" "card (walk_nodes g0 c) + steps < length g"
  shows "wait_walk g w c steps \<longleftrightarrow> (c, w) \<notin> (wait_edges g0)\<^sup>+"
  using assms
proof (induction g w c steps rule: wait_walk.induct)
  case (1 g w c steps)
  show ?case
  proof (cases "map_of g0 c")
    case None
    then have "(c, w) \<notin> (wait_edges g0)\<^sup>+" by (auto simp: wait_edges_def dest!: tranclD)
    then show ?thesis using None "1.prems"(3,4) by (subst wait_walk.simps) simp
  next
    case (Some n)
    then have e: "(c, n) \<in> wait_edges g0" by (simp add: wait_edges_def)
    have gc: "map_of g c = Some n" using Some "1.prems"(3,4) by simp
    note lt = walk_nodes_step [OF "1.prems"(1) e]
    show ?thesis
    proof (cases "n = w")
      case True
      then show ?thesis using gc trancl_step_fun [OF e, of w] by (subst wait_walk.simps) simp
    next
      case False
      have "wait_walk g w n (steps + 1) \<longleftrightarrow> (n, w) \<notin> (wait_edges g0)\<^sup>+"
        using "1.IH" [OF gc False] "1.prems"(1-3,5) False lt by simp
      moreover have "\<not> length g < steps + 1" using "1.prems"(5) by simp
      ultimately show ?thesis using gc False trancl_step_fun [OF e, of w] by (subst wait_walk.simps) simp
    qed
  qed
qed

lemma wait_edges_delete: "wait_edges (AList.delete w g) \<subseteq> wait_edges g"
  by (auto simp: wait_edges_def split: if_splits)

lemma wait_edges_update:
  "wait_edges (AList.update w ow g) = insert (w, ow) (wait_edges (AList.delete w g))"
  by (auto simp: wait_edges_def split: if_splits)

lemma trancl_delete:
  assumes "acyclic (wait_edges g)"
  shows "(c, w) \<in> (wait_edges (AList.delete w g))\<^sup>+ \<longleftrightarrow> (c, w) \<in> (wait_edges g)\<^sup>+"
proof
  show "(c, w) \<in> (wait_edges g)\<^sup>+" if "(c, w) \<in> (wait_edges (AList.delete w g))\<^sup>+"
    using that trancl_mono wait_edges_delete by blast
next
  assume "(c, w) \<in> (wait_edges g)\<^sup>+"
  then show "(c, w) \<in> (wait_edges (AList.delete w g))\<^sup>+"
  proof (induction rule: converse_trancl_induct)
    case (base y)
    then have "y \<noteq> w" using assms by (auto simp: acyclic_def)
    then show ?case using base by (auto simp: wait_edges_def)
  next
    case (step y z)
    have "(y, w) \<in> (wait_edges g)\<^sup>+" using step.hyps by (rule trancl_into_trancl2)
    then have "y \<noteq> w" using assms by (auto simp: acyclic_def)
    then have "(y, z) \<in> wait_edges (AList.delete w g)" using step.hyps(1) by (simp add: wait_edges_def)
    then show ?case using step.IH by (rule trancl_into_trancl2)
  qed
qed

lemma register_row_wait_spec:
  assumes ac: "acyclic (wait_edges (waits_for s))" and d: "distinct (map fst (waits_for s))" and ne: "w \<noteq> ow"
  shows "fst (register_row_wait w ow s) \<longleftrightarrow> (ow, w) \<notin> (wait_edges (waits_for s))\<^sup>+"
    "acyclic (wait_edges (waits_for (snd (register_row_wait w ow s))))"
    "distinct (map fst (waits_for (snd (register_row_wait w ow s))))"
proof -
  let ?del = "AList.delete w (waits_for s)" and ?upd = "AList.update w ow (waits_for s)"
  have ac0: "acyclic (wait_edges ?del)" by (rule acyclic_subset [OF ac wait_edges_delete])
  have du: "distinct (map fst ?upd)" using d by (rule distinct_update)
  have "walk_nodes ?del ow \<subseteq> fst ` set ?upd - {w}"
  proof
    fix x assume "x \<in> walk_nodes ?del ow"
    then have "x \<noteq> w" "map_of ?upd x \<noteq> None"
      by (auto simp: walk_nodes_def wait_edges_def split: if_splits)
    then show "x \<in> fst ` set ?upd - {w}" using keys_map_of [of x ?upd] by simp
  qed
  then have "card (walk_nodes ?del ow) \<le> card (fst ` set ?upd - {w})" by (intro card_mono) auto
  also have "w \<in> fst ` set ?upd" unfolding keys_map_of by simp
  then have "card (fst ` set ?upd - {w}) < card (fst ` set ?upd)" by (intro card_Diff1_less) auto
  also have "\<dots> = length ?upd" using distinct_card [OF du] by simp
  finally have steps: "card (walk_nodes ?del ow) + 0 < length ?upd" by simp
  have walk: "wait_walk ?upd w ow 0 \<longleftrightarrow> (ow, w) \<notin> (wait_edges ?del)\<^sup>+"
    by (rule wait_walk_iff [OF ac0 _ _ _ steps]) (use ne in auto)
  then show "fst (register_row_wait w ow s) \<longleftrightarrow> (ow, w) \<notin> (wait_edges (waits_for s))\<^sup>+"
    using ne trancl_delete [OF ac] by (simp add: register_row_wait_def Let_def)
  have "acyclic (wait_edges ?upd)" if "wait_walk ?upd w ow 0"
    using that walk ac0 ne unfolding wait_edges_update acyclic_insert by (auto simp: rtrancl_eq_or_trancl)
  moreover have "acyclic (wait_edges (AList.delete w ?upd))"
    by (rule acyclic_subset [OF ac0]) (auto simp: wait_edges_def split: if_splits)
  ultimately show "acyclic (wait_edges (waits_for (snd (register_row_wait w ow s))))"
    using ne by (simp add: register_row_wait_def Let_def)
  show "distinct (map fst (waits_for (snd (register_row_wait w ow s))))"
    using d du by (simp add: register_row_wait_def Let_def distinct_delete)
qed

definition waits_ok :: "registry \<Rightarrow> bool" where
  "waits_ok s \<longleftrightarrow> acyclic (wait_edges (waits_for s)) \<and> distinct (map fst (waits_for s))"

lemma step_waits:
  assumes "\<And>w ow. e \<noteq> EWait w ow" "\<And>w. e \<noteq> EClearWait w"
  shows "waits_for (reg (sys_step e S)) = waits_for (reg S)"
proof (cases e)
  case (EBegin level now)
  then show ?thesis by (simp add: begin_transaction_with_isolation_def Let_def split: option.splits)
next
  case (EStartCommit i)
  then show ?thesis by (auto split: sum.splits elim!: start_commit_cases)
next
  case (EPublish i rs now)
  then show ?thesis by (auto simp: add_job_def split: sum.splits elim!: publish_cases)
next
  case (EAbort i)
  then show ?thesis by (auto simp: add_job_def mark_aborted_def split: option.splits)
next
  case (EJob k now)
  then show ?thesis
    by (cases "jobs S ! k")
      (auto simp: run_job_def Let_def record_terminal_def decrement_active_def remove_override_def
        decrement_override_count_def remove_boundary_def gc_sweep_def gc_sequences_def gc_times_def
        gc_overrides_def split: option.splits prod.splits)
qed (use assms in \<open>auto simp: add_job_def reserve_visibility_sequence_def stop_accepting_transactions_def
    start_accepting_transactions_def set_global_isolation_level_def split: option.splits\<close>)

lemma recovered_waits: "recovered s \<Longrightarrow> waits_for s = []"
  by (induction rule: recovered.induct)
    (auto simp: new_registry_def recover_committed_transaction_def recover_aborted_transaction_def
      recover_transaction_high_water_def recover_visibility_high_water_def raise_sequence_def
      recover_transaction_high_water_locked_def record_terminal_def split: if_splits)

lemma reachable_waits: "reachable S \<Longrightarrow> waits_ok (reg S)"
proof (induction rule: reachable.induct)
  case (reach_init s cs)
  then show ?case by (simp add: waits_ok_def recovered_waits wait_edges_def acyclic_def)
next
  case (reach_step S S')
  then obtain e where e: "S' = sys_step e S" by (auto elim: stepE)
  have ok: "acyclic (wait_edges (waits_for (reg S)))" "distinct (map fst (waits_for (reg S)))"
    using reach_step.IH by (auto simp: waits_ok_def)
  show ?case
  proof (cases "(\<exists>w ow. e = EWait w ow) \<or> (\<exists>w. e = EClearWait w)")
    case True
    then consider w ow where "e = EWait w ow" | w where "e = EClearWait w" by blast
    then show ?thesis
    proof cases
      case (1 w ow)
      then show ?thesis
        using ok register_row_wait_spec(2,3) [OF ok, of w ow]
        by (cases "w = ow") (simp_all add: e waits_ok_def, simp_all add: register_row_wait_def)
    next
      case (2 w)
      then show ?thesis
        using ok acyclic_subset [OF ok(1) wait_edges_delete]
        by (simp add: e waits_ok_def clear_row_wait_def distinct_delete)
    qed
  next
    case False
    then show ?thesis using step_waits [of e S] reach_step.IH by (simp add: e waits_ok_def)
  qed
qed

text \<open>
  C24. Deadlock detection. In every reachable state the wait-for graph has no cycle, and registering that
  \<open>w\<close> waits for another transaction \<open>ow\<close> is refused exactly when \<open>ow\<close> already waits, directly or through
  others, for \<open>w\<close>; the loop's step limit never decides the answer.
\<close>

theorem deadlock_detection_exact:
  assumes "reachable S" "w \<noteq> ow"
  shows "acyclic (wait_edges (waits_for (reg S))) \<and>
         (fst (register_row_wait w ow (reg S)) \<longleftrightarrow> (ow, w) \<notin> (wait_edges (waits_for (reg S)))\<^sup>+)"
  using reachable_waits [OF assms(1)] register_row_wait_spec(1) [OF _ _ assms(2)] by (simp add: waits_ok_def)

theorem deadlock_detection_exact_witness:
  "\<not> fst (register_row_wait 2 1 (reg (sys_step (EWait 1 2) example_system)))"
proof -
  let ?S = "sys_step (EWait 1 2) example_system"
  have "reachable ?S" by (rule reach_step [OF example_reachable step_event])
  moreover have "waits_for (reg ?S) = [(1, 2)]"
    by (simp add: register_row_wait_def Let_def example_simps wait_walk.simps)
  then have "(1, 2) \<in> (wait_edges (waits_for (reg ?S)))\<^sup>+" by (auto simp: wait_edges_def)
  ultimately show ?thesis using deadlock_detection_exact [of ?S 2 1] by simp
qed

end
