(* ===== verification/Bytes.thy ===== *)
theory Bytes
  imports Prelude
begin

text \<open>
  Byte strings and the little-endian integer codecs of the Rust standard library
  (\<open>to_le_bytes\<close>, \<open>from_le_bytes\<close>) that the on-disk formats use, with their round trips.
  Nothing in this theory models a particular source file.
\<close>

named_theorems byte_simps \<open>lengths and round trips of the byte codecs\<close>

type_synonym byte = "8 word"

section \<open>Slices\<close>

text \<open>\<open>&bs[a..b]\<close>; every use in the model is within bounds by a preceding length check.\<close>

definition slice :: "nat \<Rightarrow> nat \<Rightarrow> 'a list \<Rightarrow> 'a list" where
  "slice a b bs = take (b - a) (drop a bs)"

lemma length_slice [simp]: "length (slice a b bs) = min (b - a) (length bs - a)"
  by (simp add: slice_def min.commute)

lemma slice_skip: "length xs \<le> a \<Longrightarrow> slice a b (xs @ ys) = slice (a - length xs) (b - length xs) ys"
  by (simp add: slice_def)

lemma slice_skip_Cons: "0 < a \<Longrightarrow> slice a b (x # ys) = slice (a - 1) (b - 1) ys"
  by (cases a) (simp_all add: slice_def)

lemma slice_here: "a = 0 \<Longrightarrow> b = length xs \<Longrightarrow> slice a b (xs @ ys) = xs"
  by (simp add: slice_def)

lemma slice_all: "a = 0 \<Longrightarrow> length xs \<le> b \<Longrightarrow> slice a b xs = xs"
  by (simp add: slice_def)

lemma slice_append: "a \<le> b \<Longrightarrow> b \<le> c \<Longrightarrow> slice a b xs @ slice b c xs = slice a c xs"
  using take_add [of "b - a" "c - b" "drop a xs"] by (simp add: slice_def)

lemma slice_append_assoc: "a \<le> b \<Longrightarrow> b \<le> c \<Longrightarrow> slice a b xs @ slice b c xs @ ys = slice a c xs @ ys"
  using slice_append [of a b c xs] by simp

lemmas slice_simps = slice_skip slice_skip_Cons slice_here slice_all

section \<open>Unsigned integers\<close>

primrec le_bytes :: "nat \<Rightarrow> nat \<Rightarrow> byte list" where
  "le_bytes 0 x = []"
| "le_bytes (Suc n) x = of_nat x # le_bytes n (x div 256)"

primrec le_nat :: "byte list \<Rightarrow> nat" where
  "le_nat [] = 0"
| "le_nat (b # bs) = unat b + 256 * le_nat bs"

lemma length_le_bytes [simp, byte_simps]: "length (le_bytes n x) = n"
  by (induction n arbitrary: x) simp_all

lemma unat_byte_lt: "unat (b :: byte) < 256"
  using unsigned_less [of b, where 'a = nat] by simp

lemma unat_byte_of_nat: "unat (of_nat x :: byte) = x mod 256"
  by (simp add: unat_of_nat)

lemma le_nat_le_bytes: "le_nat (le_bytes n x) = x mod 256 ^ n"
proof (induction n arbitrary: x)
  case (Suc n)
  have "x mod 256 + 256 * (x div 256 mod 256 ^ n) = x mod (256 * 256 ^ n)"
    by (simp add: mod_mult2_eq)
  then show ?case using Suc by (simp add: unat_byte_of_nat)
qed simp

lemma le_nat_le_bytes_id [byte_simps]: "x < 256 ^ n \<Longrightarrow> le_nat (le_bytes n x) = x"
  by (simp add: le_nat_le_bytes)

lemma le_nat_lt: "le_nat bs < 256 ^ length bs"
proof (induction bs)
  case (Cons b bs)
  have "unat b < 256" by (rule unat_byte_lt)
  then show ?case using Cons by simp
qed simp

lemma le_bytes_le_nat: "le_bytes (length bs) (le_nat bs) = bs"
proof (induction bs)
  case (Cons b bs)
  have b: "unat b < 256" by (rule unat_byte_lt)
  have "of_nat (unat b + 256 * le_nat bs) = b"
    by (rule unsigned_word_eqI [where 'a = nat]) (use b in \<open>simp add: unat_byte_of_nat del: of_nat_add of_nat_mult\<close>)
  moreover have "(unat b + 256 * le_nat bs) div 256 = le_nat bs" using b by simp
  ultimately show ?case using Cons by (simp del: of_nat_add of_nat_mult)
qed simp

lemma le_nat_inj: "length as = length bs \<Longrightarrow> le_nat as = le_nat bs \<Longrightarrow> as = bs"
  by (metis le_bytes_le_nat)

section \<open>Signed 64-bit integers\<close>

abbreviation in_i64 :: "int \<Rightarrow> bool" where
  "in_i64 x \<equiv> i64_min \<le> x \<and> x \<le> i64_max"

definition i64_to_le :: "int \<Rightarrow> byte list" where
  "i64_to_le x = le_bytes 8 (nat (x mod 2 ^ 64))"

definition i64_of_le :: "byte list \<Rightarrow> int" where
  "i64_of_le bs = (let u = int (le_nat bs) in if u < 2 ^ 63 then u else u - 2 ^ 64)"

lemma length_i64_to_le [simp, byte_simps]: "length (i64_to_le x) = 8"
  by (simp add: i64_to_le_def)

lemma i64_round_trip [byte_simps]: "in_i64 x \<Longrightarrow> i64_of_le (i64_to_le x) = x"
proof -
  assume x: "in_i64 x"
  have "nat (x mod 2 ^ 64) < 256 ^ 8" by (simp add: nat_less_iff)
  then have "int (le_nat (i64_to_le x)) = x mod 2 ^ 64" by (simp add: i64_to_le_def byte_simps)
  moreover have "x mod 2 ^ 64 = (if 0 \<le> x then x else x + 2 ^ 64)"
    using x mod_pos_pos_trivial [of x "2 ^ 64"] mod_pos_pos_trivial [of "x + 2 ^ 64" "2 ^ 64"] by auto
  ultimately show ?thesis using x by (auto simp: i64_of_le_def Let_def)
qed

lemma i64_of_le_range: "length bs = 8 \<Longrightarrow> in_i64 (i64_of_le bs)"
  using le_nat_lt [of bs] by (auto simp: i64_of_le_def Let_def)

lemma i64_to_of_le: "length bs = 8 \<Longrightarrow> i64_to_le (i64_of_le bs) = bs"
proof -
  assume n: "length bs = 8"
  then have l: "le_nat bs < 2 ^ 64" using le_nat_lt [of bs] by simp
  have "(int (le_nat bs) - 2 ^ 64) mod 2 ^ 64 = int (le_nat bs) mod 2 ^ 64"
    by (rule minus_mod_self2)
  then have "nat (i64_of_le bs mod 2 ^ 64) = le_nat bs"
    using l by (simp add: i64_of_le_def Let_def)
  then show ?thesis using le_bytes_le_nat [of bs] n by (simp add: i64_to_le_def)
qed

end
