(* ===== verification/Wal_Record.thy ===== *)
theory Wal_Record
  imports Bytes
begin

text \<open>
  The write-ahead-log record format of
  \<open>crates/radixdb-storage/src/mvcc/wal_manager/record.rs\<close>: flags, operation codes, the entry, its
  semantic checks, \<open>encode\<close>, \<open>decode\<close> and the header validation of \<open>recovery.rs\<close>. The CRC-32 and
  the LZ4 functions belong to other packages and are the parameters \<open>crc\<close>, \<open>compress\<close> and
  \<open>decompress\<close>. Then the round trip and what an accepted record guarantees.
\<close>

named_theorems wal_defs \<open>constants and small definitions of the record format\<close>

section \<open>Constants\<close>

definition WAL_ENTRY_MAGIC :: nat where [wal_defs]: "WAL_ENTRY_MAGIC = 0x454C4157"
definition WAL_FORMAT_VERSION :: byte where [wal_defs]: "WAL_FORMAT_VERSION = 4"
definition WAL_HEADER_SIZE :: nat where [wal_defs]: "WAL_HEADER_SIZE = 32"
definition MAX_WAL_RECORD_DATA_SIZE :: nat where [wal_defs]: "MAX_WAL_RECORD_DATA_SIZE = 64 * 1024 * 1024"
definition MIN_WAL_RECORD_DATA_SIZE :: nat where [wal_defs]: "MIN_WAL_RECORD_DATA_SIZE = 8 + 16 + 8 + 1 + 8 + 4"
definition WAL_KNOWN_FLAGS :: byte where [wal_defs]: "WAL_KNOWN_FLAGS = 0x7f"
definition COMPRESSION_THRESHOLD :: nat where [wal_defs]: "COMPRESSION_THRESHOLD = 64"

section \<open>Flags and operations\<close>

definition COMPRESSED :: byte where [wal_defs]: "COMPRESSED = 1"
definition COMMIT_MARKER :: byte where [wal_defs]: "COMMIT_MARKER = 2"
definition ABORT_MARKER :: byte where [wal_defs]: "ABORT_MARKER = 4"

definition flags_contain :: "byte \<Rightarrow> byte \<Rightarrow> bool" where
  "flags_contain f other \<longleftrightarrow> f AND other = other"

definition flags_set :: "byte \<Rightarrow> byte \<Rightarrow> byte" where
  "flags_set f flag = f OR flag"

definition flags_clear :: "byte \<Rightarrow> byte \<Rightarrow> byte" where
  "flags_clear f flag = f AND NOT flag"

datatype wal_operation = Insert | Update | Delete | Commit | Rollback | TruncateTable | CatalogMutation

fun operation_code :: "wal_operation \<Rightarrow> byte" where
  "operation_code Insert = 1"
| "operation_code Update = 2"
| "operation_code Delete = 3"
| "operation_code Commit = 4"
| "operation_code Rollback = 5"
| "operation_code TruncateTable = 13"
| "operation_code CatalogMutation = 15"

definition operation_from_u8 :: "byte \<Rightarrow> wal_operation option" where
  "operation_from_u8 v =
     (if v = 1 then Some Insert else if v = 2 then Some Update else if v = 3 then Some Delete
      else if v = 4 then Some Commit else if v = 5 then Some Rollback
      else if v = 13 then Some TruncateTable else if v = 15 then Some CatalogMutation else None)"

fun is_ddl :: "wal_operation \<Rightarrow> bool" where
  "is_ddl TruncateTable = True"
| "is_ddl CatalogMutation = True"
| "is_ddl _ = False"

fun is_transaction_end :: "wal_operation \<Rightarrow> bool" where
  "is_transaction_end Commit = True"
| "is_transaction_end Rollback = True"
| "is_transaction_end _ = False"

section \<open>Object identities\<close>

text \<open>
  \<open>ObjectId\<close> of \<open>crates/radixdb-catalog/src/identity.rs\<close>: sixteen bytes, not all zero, and not in
  the reserved range except for the two bootstrap values.
\<close>

type_synonym object_id = "byte list"

datatype catalog_error = ZeroObjectId | ReservedObjectId object_id

definition zero_id :: object_id where
  "zero_id = replicate 16 0"

definition is_bootstrap :: "object_id \<Rightarrow> bool" where
  "is_bootstrap i \<longleftrightarrow> i = replicate 15 0 @ [1] \<or> i = replicate 15 0 @ [2]"

definition has_reserved_prefix :: "object_id \<Rightarrow> bool" where
  "has_reserved_prefix i \<longleftrightarrow> list_all (\<lambda>b. b = 0) (take 15 i)"

definition is_reserved_unassigned :: "object_id \<Rightarrow> bool" where
  "is_reserved_unassigned i \<longleftrightarrow> has_reserved_prefix i \<and> \<not> is_bootstrap i"

definition object_id_from_bytes :: "byte list \<Rightarrow> (catalog_error, object_id) result" where
  "object_id_from_bytes bs =
     (if bs = zero_id then Inl ZeroObjectId
      else if is_reserved_unassigned bs then Inl (ReservedObjectId bs)
      else Inr bs)"

definition object_id_from_user_bytes :: "byte list \<Rightarrow> (catalog_error, object_id) result" where
  "object_id_from_user_bytes bs =
     rbind (object_id_from_bytes bs)
       (\<lambda>i. if is_bootstrap i then Inl (ReservedObjectId i) else Inr i)"

text \<open>A value of the type \<open>ObjectId\<close>: sixteen bytes that \<open>from_bytes\<close> admits.\<close>

definition object_id_ok :: "object_id \<Rightarrow> bool" where
  "object_id_ok i \<longleftrightarrow> length i = 16 \<and> object_id_from_bytes i = Inr i"

section \<open>Entries\<close>

record wal_entry =
  lsn :: nat
  previous_lsn :: nat
  flags :: byte
  txn_id :: int
  table_id :: "object_id option"
  row_id :: int
  operation :: wal_operation
  data :: "byte list"
  timestamp :: int

datatype wal_error =
    UnknownFlags byte
  | BothMarkers
  | CommitMarkerMismatch
  | RollbackMarkerMismatch
  | MarkerWithPayload
  | DataWithOutcomeFlag
  | TableIdentityPresence wal_operation
  | PayloadTooLarge nat
  | SizeOverflow
  | RecordTooLarge nat
  | DoesNotFitU32
  | TooShortForChecksum
  | RecordExceedsLimit nat nat
  | TooShortForEntry nat
  | ChecksumMismatch nat nat nat
  | UnexpectedEnd string
  | InvalidTableId nat catalog_error
  | InvalidOperation byte
  | TrailingBytes nat nat
  | MissingSizePrefix
  | DecodedTooLarge nat nat
  | DecompressFailed
  | InvalidMagic nat
  | UnsupportedVersion byte
  | InvalidHeaderSize nat
  | NonZeroReserved
  | InvalidLsnChain nat nat
  | InvalidRecordSize nat
  | TruncatedHeader
  | TruncatedRecord nat
  | DiscontinuousChain nat nat nat

text \<open>\<open>new\<close> and its variants; \<open>now\<close> is the wall clock in nanoseconds since the epoch.\<close>

definition new_entry :: "int \<Rightarrow> int \<Rightarrow> object_id option \<Rightarrow> int \<Rightarrow> wal_operation \<Rightarrow> byte list \<Rightarrow> wal_entry" where
  "new_entry now txn tid row op bs =
     \<lparr>lsn = 0, previous_lsn = 0, flags = 0, txn_id = txn, table_id = tid, row_id = row,
      operation = op, data = bs, timestamp = now\<rparr>"

definition with_flags ::
  "int \<Rightarrow> int \<Rightarrow> object_id option \<Rightarrow> int \<Rightarrow> wal_operation \<Rightarrow> byte list \<Rightarrow> byte \<Rightarrow> wal_entry" where
  "with_flags now txn tid row op bs fl = (new_entry now txn tid row op bs)\<lparr>flags := fl\<rparr>"

definition commit_entry :: "int \<Rightarrow> int \<Rightarrow> wal_entry" where
  "commit_entry now txn = with_flags now txn None 0 Commit [] COMMIT_MARKER"

definition rollback_entry :: "int \<Rightarrow> int \<Rightarrow> wal_entry" where
  "rollback_entry now txn = with_flags now txn None 0 Rollback [] ABORT_MARKER"

definition is_commit_marker :: "wal_entry \<Rightarrow> bool" where
  "is_commit_marker e \<longleftrightarrow> flags_contain (flags e) COMMIT_MARKER \<or> operation e = Commit"

definition is_abort_marker :: "wal_entry \<Rightarrow> bool" where
  "is_abort_marker e \<longleftrightarrow> flags_contain (flags e) ABORT_MARKER \<or> operation e = Rollback"

definition requires_table_id :: "wal_operation \<Rightarrow> bool" where
  "requires_table_id op \<longleftrightarrow> op = Insert \<or> op = Update \<or> op = Delete \<or> op = TruncateTable"

definition validate_semantics :: "wal_entry \<Rightarrow> (wal_error, unit) result" where
  "validate_semantics e =
     (let commit = flags_contain (flags e) COMMIT_MARKER;
          abort = flags_contain (flags e) ABORT_MARKER
      in if flags e AND NOT WAL_KNOWN_FLAGS \<noteq> 0 then Inl (UnknownFlags (flags e))
      else if commit \<and> abort then Inl BothMarkers
      else if operation e = Commit \<and> (\<not> commit \<or> abort) then Inl CommitMarkerMismatch
      else if operation e = Rollback \<and> (\<not> abort \<or> commit) then Inl RollbackMarkerMismatch
      else if is_transaction_end (operation e) \<and>
              (table_id e \<noteq> None \<or> row_id e \<noteq> 0 \<or> data e \<noteq> []) then Inl MarkerWithPayload
      else if \<not> is_transaction_end (operation e) \<and> (commit \<or> abort) then Inl DataWithOutcomeFlag
      else if requires_table_id (operation e) \<noteq> (table_id e \<noteq> None) then Inl (TableIdentityPresence (operation e))
      else Inr ())"

section \<open>Encoding\<close>

definition header_bytes :: "byte \<Rightarrow> byte \<Rightarrow> nat \<Rightarrow> nat \<Rightarrow> nat \<Rightarrow> byte list" where
  "header_bytes version fl l prev sz =
     le_bytes 4 WAL_ENTRY_MAGIC @ [version, fl] @ le_bytes 2 WAL_HEADER_SIZE @ le_bytes 8 l @
     le_bytes 8 prev @ le_bytes 4 sz @ replicate 4 0"

text \<open>The LZ4 attempt: only from the threshold on, and only when it makes the payload smaller.\<close>

definition compressed_payload :: "(byte list \<Rightarrow> byte list) \<Rightarrow> byte list \<Rightarrow> byte list option" where
  "compressed_payload compress bs =
     (if length bs \<ge> COMPRESSION_THRESHOLD
      then let c = compress bs in if length c < length bs then Some c else None
      else None)"

definition encoded_flags :: "(byte list \<Rightarrow> byte list) \<Rightarrow> wal_entry \<Rightarrow> byte" where
  "encoded_flags compress e =
     (let f = flags_clear (flags e) COMPRESSED
      in if compressed_payload compress (data e) \<noteq> None then flags_set f COMPRESSED else f)"

definition encoded_payload :: "(byte list \<Rightarrow> byte list) \<Rightarrow> wal_entry \<Rightarrow> byte list" where
  "encoded_payload compress e =
     (case compressed_payload compress (data e) of Some c \<Rightarrow> c | None \<Rightarrow> data e)"

definition data_portion :: "wal_entry \<Rightarrow> byte list \<Rightarrow> byte list" where
  "data_portion e payload =
     i64_to_le (txn_id e) @ (case table_id e of Some i \<Rightarrow> i | None \<Rightarrow> zero_id) @ i64_to_le (row_id e) @
     [operation_code (operation e)] @ i64_to_le (timestamp e) @ le_bytes 4 (length payload) @ payload"

definition encode ::
  "(byte list \<Rightarrow> nat) \<Rightarrow> (byte list \<Rightarrow> byte list) \<Rightarrow> wal_entry \<Rightarrow> (wal_error, byte list) result" where
  "encode crc compress e =
     rbind (validate_semantics e) (\<lambda>_.
     if length (data e) > MAX_WAL_RECORD_DATA_SIZE then Inl (PayloadTooLarge (length (data e)))
     else let payload = encoded_payload compress e
     in case checked_add_u64 MIN_WAL_RECORD_DATA_SIZE (length payload) of
       None \<Rightarrow> Inl SizeOverflow
     | Some data_size \<Rightarrow>
         if data_size > MAX_WAL_RECORD_DATA_SIZE then Inl (RecordTooLarge data_size)
         else if data_size \<ge> 2 ^ 32 then Inl DoesNotFitU32
         else if length payload \<ge> 2 ^ 32 then Inl DoesNotFitU32
         else let buf = header_bytes WAL_FORMAT_VERSION (encoded_flags compress e) (lsn e) (previous_lsn e) data_size @
                        data_portion e payload
              in Inr (buf @ le_bytes 4 (crc buf)))"

section \<open>Decoding\<close>

definition checksum_header :: "byte \<Rightarrow> byte \<Rightarrow> nat \<Rightarrow> nat \<Rightarrow> nat \<Rightarrow> (wal_error, byte list) result" where
  "checksum_header version fl l prev sz =
     (if sz \<ge> 2 ^ 32 then Inl DoesNotFitU32 else Inr (header_bytes version fl l prev sz))"

definition decode_table_id :: "nat \<Rightarrow> byte list \<Rightarrow> (wal_error, object_id option) result" where
  "decode_table_id l bs =
     (if bs = zero_id then Inr None
      else case object_id_from_bytes bs of Inl e \<Rightarrow> Inl (InvalidTableId l e) | Inr i \<Rightarrow> Inr (Some i))"

definition decode_payload ::
  "(byte list \<Rightarrow> byte list option) \<Rightarrow> nat \<Rightarrow> byte \<Rightarrow> byte list \<Rightarrow> (wal_error, byte list) result" where
  "decode_payload decompress l fl raw =
     (if flags_contain fl COMPRESSED then
        if length raw < 4 then Inl MissingSizePrefix
        else if le_nat (slice 0 4 raw) > MAX_WAL_RECORD_DATA_SIZE
             then Inl (DecodedTooLarge l (le_nat (slice 0 4 raw)))
        else (case decompress raw of None \<Rightarrow> Inl DecompressFailed | Some d \<Rightarrow> Inr d)
      else Inr raw)"

text \<open>
  The field-by-field part of \<open>decode_with_crc_prefix\<close>, on the data portion without the checksum:
  offsets 0, 8, 24, 32, 33 and 41 hold the transaction, the table, the row, the operation, the
  timestamp and the payload length.
\<close>

definition decode_fields ::
  "(byte list \<Rightarrow> byte list option) \<Rightarrow> nat \<Rightarrow> nat \<Rightarrow> byte \<Rightarrow> byte list \<Rightarrow> (wal_error, wal_entry) result" where
  "decode_fields decompress l prev fl d =
     rbind (guard_res (8 \<le> length d) (UnexpectedEnd ''txn_id'')) (\<lambda>_.
     rbind (decode_table_id l (slice 8 24 d)) (\<lambda>tid.
     rbind (guard_res (32 \<le> length d) (UnexpectedEnd ''row_id'')) (\<lambda>_.
     rbind (guard_res (33 \<le> length d) (UnexpectedEnd ''operation'')) (\<lambda>_.
     case operation_from_u8 (d ! 32) of None \<Rightarrow> Inl (InvalidOperation (d ! 32)) | Some op \<Rightarrow>
     rbind (guard_res (41 \<le> length d) (UnexpectedEnd ''timestamp'')) (\<lambda>_.
     rbind (guard_res (45 \<le> length d) (UnexpectedEnd ''data length'')) (\<lambda>_.
     let data_len = le_nat (slice 41 45 d)
     in case checked_add_u64 45 data_len of None \<Rightarrow> Inl (UnexpectedEnd ''data'') | Some e \<Rightarrow>
        if e > length d then Inl (UnexpectedEnd ''data'')
        else if e \<noteq> length d then Inl (TrailingBytes (length d - e) l)
        else rbind (decode_payload decompress l fl (slice 45 e d)) (\<lambda>payload.
             let entry = \<lparr>lsn = l, previous_lsn = prev, flags = fl, txn_id = i64_of_le (slice 0 8 d),
                          table_id = tid, row_id = i64_of_le (slice 24 32 d), operation = op,
                          data = payload, timestamp = i64_of_le (slice 33 41 d)\<rparr>
             in rbind (validate_semantics entry) (\<lambda>_. Inr entry))))))))"

definition decode_with_crc_prefix ::
  "(byte list \<Rightarrow> nat) \<Rightarrow> (byte list \<Rightarrow> byte list option) \<Rightarrow> nat \<Rightarrow> nat \<Rightarrow> byte \<Rightarrow> byte list \<Rightarrow> byte list \<Rightarrow>
   (wal_error, wal_entry) result" where
  "decode_with_crc_prefix crc decompress l prev fl bs crc_prefix =
     (if length bs > MAX_WAL_RECORD_DATA_SIZE + 4 then Inl (RecordExceedsLimit l (length bs))
      else if length bs < MIN_WAL_RECORD_DATA_SIZE + 4 then Inl (TooShortForEntry (length bs))
      else let crc_offset = length bs - 4;
               stored_crc = le_nat (drop crc_offset bs);
               computed_crc = crc (crc_prefix @ take crc_offset bs)
           in if stored_crc \<noteq> computed_crc then Inl (ChecksumMismatch l stored_crc computed_crc)
              else decode_fields decompress l prev fl (take crc_offset bs))"

definition decode ::
  "(byte list \<Rightarrow> nat) \<Rightarrow> (byte list \<Rightarrow> byte list option) \<Rightarrow> nat \<Rightarrow> nat \<Rightarrow> byte \<Rightarrow> byte list \<Rightarrow>
   (wal_error, wal_entry) result" where
  "decode crc decompress l prev fl bs =
     (if length bs < 4 then Inl TooShortForChecksum
      else rbind (checksum_header WAL_FORMAT_VERSION fl l prev (length bs - 4))
             (\<lambda>hdr. decode_with_crc_prefix crc decompress l prev fl bs hdr))"

section \<open>Header validation\<close>

record wal_header =
  hdr_version :: byte
  hdr_flags :: byte
  hdr_lsn :: nat
  hdr_previous_lsn :: nat
  hdr_entry_size :: nat

definition header_decode :: "byte list \<Rightarrow> (wal_error, wal_header) result" where
  "header_decode bs =
     (let magic = le_nat (slice 0 4 bs); version = bs ! 4; fl = bs ! 5;
          header_size = le_nat (slice 6 8 bs); l = le_nat (slice 8 16 bs);
          prev = le_nat (slice 16 24 bs); sz = le_nat (slice 24 28 bs)
      in if magic \<noteq> WAL_ENTRY_MAGIC then Inl (InvalidMagic magic)
      else if version \<noteq> WAL_FORMAT_VERSION then Inl (UnsupportedVersion version)
      else if fl AND NOT WAL_KNOWN_FLAGS \<noteq> 0 then Inl (UnknownFlags fl)
      else if header_size \<noteq> WAL_HEADER_SIZE then Inl (InvalidHeaderSize header_size)
      else if slice 28 32 bs \<noteq> replicate 4 0 then Inl NonZeroReserved
      else if l = 0 \<or> prev \<ge> l then Inl (InvalidLsnChain l prev)
      else if \<not> (MIN_WAL_RECORD_DATA_SIZE \<le> sz \<and> sz \<le> MAX_WAL_RECORD_DATA_SIZE) then Inl (InvalidRecordSize sz)
      else Inr \<lparr>hdr_version = version, hdr_flags = fl, hdr_lsn = l, hdr_previous_lsn = prev, hdr_entry_size = sz\<rparr>)"

section \<open>Flags, codes and identities\<close>

lemma operation_round_trip [simp]: "operation_from_u8 (operation_code op) = Some op"
  by (cases op) (simp_all add: operation_from_u8_def)

lemma operation_from_u8_Some: "operation_from_u8 b = Some op \<Longrightarrow> operation_code op = b"
  by (auto simp: operation_from_u8_def split: if_splits)

lemmas byte_eq_iff = bit_eq_iff [where 'a = byte]

lemma byte_bit_lt: "bit (f :: byte) n \<Longrightarrow> n < 8"
  using bit_imp_le_length [of f n] by simp

lemma flag_powers: "COMPRESSED = 2 ^ 0" "COMMIT_MARKER = 2 ^ 1" "ABORT_MARKER = 2 ^ 2" "WAL_KNOWN_FLAGS = mask 7"
  by (simp_all add: wal_defs mask_eq_exp_minus_1)

lemma flag_bits:
  "bit COMPRESSED n \<longleftrightarrow> n = 0" "bit COMMIT_MARKER n \<longleftrightarrow> n = 1" "bit ABORT_MARKER n \<longleftrightarrow> n = 2"
  "bit WAL_KNOWN_FLAGS n \<longleftrightarrow> n < 7"
  unfolding flag_powers by (auto simp only: bit_exp_iff bit_mask_iff possible_bit_word) auto

lemma and_flag_iff:
  assumes "\<And>n. bit (c :: byte) n \<longleftrightarrow> n = k"
  shows "f AND c = c \<longleftrightarrow> bit f k"
proof
  assume "f AND c = c"
  then have "bit (f AND c) k" using assms by simp
  then show "bit f k" by (simp add: bit_and_iff)
next
  assume "bit f k"
  then show "f AND c = c" unfolding byte_eq_iff using assms by (auto simp: bit_and_iff)
qed

lemma flags_contain_bit:
  "flags_contain f COMPRESSED \<longleftrightarrow> bit f 0" "flags_contain f COMMIT_MARKER \<longleftrightarrow> bit f 1"
  "flags_contain f ABORT_MARKER \<longleftrightarrow> bit f 2"
  unfolding flags_contain_def by (rule and_flag_iff, simp only: flag_bits)+

lemma flags_set_bit: "bit (flags_set f COMPRESSED) n \<longleftrightarrow> bit f n \<or> n = 0"
  by (simp add: flags_set_def bit_or_iff flag_bits)

lemma flags_clear_bit: "bit (flags_clear f COMPRESSED) n \<longleftrightarrow> bit f n \<and> n \<noteq> 0"
  by (auto simp: flags_clear_def bit_and_iff bit_not_iff flag_bits dest: bit_imp_le_length)

lemma known_flags_bit: "f AND NOT WAL_KNOWN_FLAGS = 0 \<longleftrightarrow> (\<forall>n. bit f n \<longrightarrow> n < 7)"
  unfolding byte_eq_iff by (auto simp: bit_and_iff bit_not_iff flag_bits) (metis byte_bit_lt)

lemma encoded_flags_bit:
  "bit (encoded_flags compress e) n \<longleftrightarrow>
     (if n = 0 then compressed_payload compress (data e) \<noteq> None else bit (flags e) n)"
  by (auto simp: encoded_flags_def Let_def flags_set_bit flags_clear_bit)

lemma encoded_flags_known:
  "encoded_flags compress e AND NOT WAL_KNOWN_FLAGS = 0 \<longleftrightarrow> flags e AND NOT WAL_KNOWN_FLAGS = 0"
  unfolding known_flags_bit encoded_flags_bit by (metis gr_zeroI zero_less_numeral)

lemma validate_semantics_Inr:
  "validate_semantics e = Inr u \<longleftrightarrow>
     flags e AND NOT WAL_KNOWN_FLAGS = 0 \<and>
     (if operation e = Commit
      then bit (flags e) 1 \<and> \<not> bit (flags e) 2 \<and> table_id e = None \<and> row_id e = 0 \<and> data e = []
      else if operation e = Rollback
      then bit (flags e) 2 \<and> \<not> bit (flags e) 1 \<and> table_id e = None \<and> row_id e = 0 \<and> data e = []
      else \<not> bit (flags e) 1 \<and> \<not> bit (flags e) 2 \<and> requires_table_id (operation e) = (table_id e \<noteq> None))"
  unfolding validate_semantics_def Let_def flags_contain_bit
  by (cases "operation e") (auto simp: requires_table_id_def)

lemma validate_encoded_flags:
  "validate_semantics (e\<lparr>flags := encoded_flags compress e\<rparr>) = Inr u \<longleftrightarrow> validate_semantics e = Inr u"
  unfolding validate_semantics_Inr by (simp add: encoded_flags_known encoded_flags_bit)

lemma object_id_okD: "object_id_ok i \<Longrightarrow> length i = 16 \<and> i \<noteq> zero_id \<and> object_id_from_bytes i = Inr i"
  by (auto simp: object_id_ok_def object_id_from_bytes_def split: if_splits)

lemma decode_table_id_Some:
  "length bs = 16 \<Longrightarrow> decode_table_id l bs = Inr tid \<Longrightarrow>
   (case tid of None \<Rightarrow> bs = zero_id | Some i \<Rightarrow> object_id_ok i \<and> bs = i)"
  by (auto simp: decode_table_id_def object_id_ok_def object_id_from_bytes_def split: if_splits)

section \<open>Round trip\<close>

text \<open>
  The values of the Rust types: \<open>u64\<close> sequence numbers, \<open>i64\<close> fields and an admitted table identity.
\<close>

definition entry_ok :: "wal_entry \<Rightarrow> bool" where
  "entry_ok e \<longleftrightarrow> lsn e < 2 ^ 64 \<and> previous_lsn e < 2 ^ 64 \<and> in_i64 (txn_id e) \<and> in_i64 (row_id e) \<and>
     in_i64 (timestamp e) \<and> (case table_id e of None \<Rightarrow> True | Some i \<Rightarrow> object_id_ok i)"

text \<open>
  What the code relies on of the two packages: a checksum is a \<open>u32\<close>; \<open>compress_prepend_size\<close> writes the
  uncompressed length as a little-endian \<open>u32\<close> first, and \<open>decompress_size_prepended\<close> inverts it.
\<close>

definition crc_ok :: "(byte list \<Rightarrow> nat) \<Rightarrow> bool" where
  "crc_ok crc \<longleftrightarrow> (\<forall>bs. crc bs < 2 ^ 32)"

definition lz4_ok :: "(byte list \<Rightarrow> byte list) \<Rightarrow> (byte list \<Rightarrow> byte list option) \<Rightarrow> bool" where
  "lz4_ok compress decompress \<longleftrightarrow>
     (\<forall>bs. length bs < 2 ^ 32 \<longrightarrow> decompress (compress bs) = Some bs \<and> 4 \<le> length (compress bs) \<and>
        take 4 (compress bs) = le_bytes 4 (length bs))"

text \<open>The entry as the encoder stores it: the compression flag describes the stored bytes.\<close>

definition stored_entry :: "(byte list \<Rightarrow> byte list) \<Rightarrow> wal_entry \<Rightarrow> wal_entry" where
  "stored_entry compress e = e\<lparr>flags := encoded_flags compress e\<rparr>"

lemma stored_entry_simps [simp]:
  "lsn (stored_entry c e) = lsn e" "previous_lsn (stored_entry c e) = previous_lsn e"
  "txn_id (stored_entry c e) = txn_id e" "table_id (stored_entry c e) = table_id e"
  "row_id (stored_entry c e) = row_id e" "operation (stored_entry c e) = operation e"
  "data (stored_entry c e) = data e" "timestamp (stored_entry c e) = timestamp e"
  "flags (stored_entry c e) = encoded_flags c e"
  by (simp_all add: stored_entry_def)

lemma encoded_payload_le: "length (encoded_payload compress e) \<le> length (data e)"
  by (auto simp: encoded_payload_def compressed_payload_def Let_def split: option.splits if_splits)

lemma length_header_bytes [simp]: "length (header_bytes v f l p s) = 32"
  by (simp add: header_bytes_def)

lemma length_zero_id [simp]: "length zero_id = 16"
  by (simp add: zero_id_def)

lemma length_data_portion:
  "entry_ok e \<Longrightarrow> length (data_portion e payload) = MIN_WAL_RECORD_DATA_SIZE + length payload"
  by (auto simp: data_portion_def entry_ok_def wal_defs object_id_ok_def split: option.splits)

definition record_bytes :: "(byte list \<Rightarrow> nat) \<Rightarrow> (byte list \<Rightarrow> byte list) \<Rightarrow> wal_entry \<Rightarrow> byte list" where
  "record_bytes crc compress e =
     (let buf = header_bytes WAL_FORMAT_VERSION (encoded_flags compress e) (lsn e) (previous_lsn e)
                  (MIN_WAL_RECORD_DATA_SIZE + length (encoded_payload compress e)) @
                data_portion e (encoded_payload compress e)
      in buf @ le_bytes 4 (crc buf))"

definition fits :: "(byte list \<Rightarrow> byte list) \<Rightarrow> wal_entry \<Rightarrow> bool" where
  "fits compress e \<longleftrightarrow> length (data e) \<le> MAX_WAL_RECORD_DATA_SIZE \<and>
     MIN_WAL_RECORD_DATA_SIZE + length (encoded_payload compress e) \<le> MAX_WAL_RECORD_DATA_SIZE"

lemma encode_Inr:
  "encode crc compress e = Inr buf \<longleftrightarrow>
     validate_semantics e = Inr () \<and> fits compress e \<and> buf = record_bytes crc compress e"
  unfolding encode_def fits_def record_bytes_def Let_def
  by (auto simp: checked_add_u64_def wal_defs split: option.splits)

lemma decode_fields_data_portion:
  assumes "entry_ok e" "length payload < 2 ^ 32" "decode_payload decompress (lsn e) fl payload = Inr (data e)"
    and "validate_semantics (e\<lparr>flags := fl\<rparr>) = Inr ()" "45 + length payload \<le> u64_max"
  shows "decode_fields decompress (lsn e) (previous_lsn e) fl (data_portion e payload) = Inr (e\<lparr>flags := fl\<rparr>)"
proof -
  let ?d = "data_portion e payload"
  let ?t = "case table_id e of Some i \<Rightarrow> i | None \<Rightarrow> zero_id"
  have t: "length ?t = 16" "decode_table_id (lsn e) ?t = Inr (table_id e)"
    using assms(1) by (auto simp: entry_ok_def decode_table_id_def dest!: object_id_okD split: option.splits)
  have ln: "length ?d = 45 + length payload"
    using length_data_portion [OF assms(1)] by (simp add: wal_defs)
  have s: "slice 0 8 ?d = i64_to_le (txn_id e)" "slice 8 24 ?d = ?t" "slice 24 32 ?d = i64_to_le (row_id e)"
    "?d ! 32 = operation_code (operation e)" "slice 33 41 ?d = i64_to_le (timestamp e)"
    "slice 41 45 ?d = le_bytes 4 (length payload)" "slice 45 (45 + length payload) ?d = payload"
    using t(1) unfolding data_portion_def by (simp_all add: slice_simps nth_append)
  have i: "i64_of_le (i64_to_le (txn_id e)) = txn_id e" "i64_of_le (i64_to_le (row_id e)) = row_id e"
    "i64_of_le (i64_to_le (timestamp e)) = timestamp e" "le_nat (le_bytes 4 (length payload)) = length payload"
    using assms(1,2) by (auto simp: entry_ok_def byte_simps)
  have c: "checked_add_u64 45 (length payload) = Some (45 + length payload)"
    using assms(5) by simp
  have e: "\<lparr>lsn = lsn e, previous_lsn = previous_lsn e, flags = fl, txn_id = txn_id e, table_id = table_id e,
      row_id = row_id e, operation = operation e, data = data e, timestamp = timestamp e\<rparr> = e\<lparr>flags := fl\<rparr>"
    by (cases e) simp
  have g: "8 \<le> 45 + length payload" "32 \<le> 45 + length payload" "33 \<le> 45 + length payload"
    "41 \<le> 45 + length payload" "45 \<le> 45 + length payload"
    by simp_all
  show ?thesis
    unfolding decode_fields_def s ln i
    by (simp only: t(2) c s g e assms(3,4) rbind_simps Let_def operation_round_trip option.case
        guard_res_True if_False less_irrefl simp_thms)
qed

lemma decode_payload_encoded:
  assumes "lz4_ok compress decompress" "fits compress e"
  shows "decode_payload decompress l (encoded_flags compress e) (encoded_payload compress e) = Inr (data e)"
proof (cases "compressed_payload compress (data e)")
  case None
  then show ?thesis
    by (simp add: decode_payload_def flags_contain_bit encoded_flags_bit encoded_payload_def)
next
  case (Some c)
  then have c: "c = compress (data e)" by (auto simp: compressed_payload_def Let_def split: if_splits)
  have "length (data e) < 2 ^ 32" using assms(2) by (simp add: fits_def wal_defs)
  then have z: "decompress c = Some (data e)" "4 \<le> length c" "take 4 c = le_bytes 4 (length (data e))"
    using assms(1) by (auto simp: lz4_ok_def c)
  then have "le_nat (slice 0 4 c) = length (data e)"
    using \<open>length (data e) < 2 ^ 32\<close> by (simp add: slice_def byte_simps)
  then show ?thesis using Some z assms(2)
    by (simp add: decode_payload_def flags_contain_bit encoded_flags_bit encoded_payload_def fits_def)
qed

lemma header_decode_bytes:
  assumes "p < l" "l < 2 ^ 64" "MIN_WAL_RECORD_DATA_SIZE \<le> sz" "sz \<le> MAX_WAL_RECORD_DATA_SIZE"
    and "fl AND NOT WAL_KNOWN_FLAGS = 0"
  shows "header_decode (header_bytes WAL_FORMAT_VERSION fl l p sz) =
    Inr \<lparr>hdr_version = WAL_FORMAT_VERSION, hdr_flags = fl, hdr_lsn = l, hdr_previous_lsn = p, hdr_entry_size = sz\<rparr>"
proof -
  let ?h = "header_bytes WAL_FORMAT_VERSION fl l p sz"
  have s: "slice 0 4 ?h = le_bytes 4 WAL_ENTRY_MAGIC" "?h ! 4 = WAL_FORMAT_VERSION" "?h ! 5 = fl"
    "slice 6 8 ?h = le_bytes 2 WAL_HEADER_SIZE" "slice 8 16 ?h = le_bytes 8 l" "slice 16 24 ?h = le_bytes 8 p"
    "slice 24 28 ?h = le_bytes 4 sz" "slice 28 32 ?h = replicate 4 0"
    unfolding header_bytes_def by (simp_all add: slice_simps nth_append)
  have n: "le_nat (le_bytes 4 WAL_ENTRY_MAGIC) = WAL_ENTRY_MAGIC" "le_nat (le_bytes 2 WAL_HEADER_SIZE) = WAL_HEADER_SIZE"
    "le_nat (le_bytes 8 l) = l" "le_nat (le_bytes 8 p) = p" "le_nat (le_bytes 4 sz) = sz"
    using assms(1,2,4) by (simp_all add: le_nat_le_bytes wal_defs)
  show ?thesis
    unfolding header_decode_def Let_def s n using assms by simp
qed

lemma record_parts:
  "take 32 (record_bytes crc compress e) =
     header_bytes WAL_FORMAT_VERSION (encoded_flags compress e) (lsn e) (previous_lsn e)
       (MIN_WAL_RECORD_DATA_SIZE + length (encoded_payload compress e))"
  "drop 32 (record_bytes crc compress e) =
     data_portion e (encoded_payload compress e) @
     le_bytes 4 (crc (take 32 (record_bytes crc compress e) @ data_portion e (encoded_payload compress e)))"
  by (simp_all add: record_bytes_def Let_def)

lemma length_record_bytes:
  "entry_ok e \<Longrightarrow>
   length (record_bytes crc compress e) = 32 + (MIN_WAL_RECORD_DATA_SIZE + length (encoded_payload compress e)) + 4"
  by (simp add: record_bytes_def Let_def length_data_portion)

lemma decode_record:
  assumes "entry_ok e" "crc_ok crc" "lz4_ok compress decompress" "validate_semantics e = Inr ()" "fits compress e"
  shows "decode_with_crc_prefix crc decompress (lsn e) (previous_lsn e) (encoded_flags compress e)
           (drop 32 (record_bytes crc compress e)) (take 32 (record_bytes crc compress e)) =
         Inr (stored_entry compress e)"
proof -
  let ?p = "encoded_payload compress e"
  let ?d = "data_portion e ?p"
  let ?h = "take 32 (record_bytes crc compress e)"
  have ln: "length ?d = MIN_WAL_RECORD_DATA_SIZE + length ?p" by (rule length_data_portion [OF assms(1)])
  have sz: "MIN_WAL_RECORD_DATA_SIZE + length ?p \<le> MAX_WAL_RECORD_DATA_SIZE" using assms(5) by (simp add: fits_def)
  have "le_nat (le_bytes 4 (crc (?h @ ?d))) = crc (?h @ ?d)"
    using assms(2) by (simp add: crc_ok_def byte_simps)
  moreover have "decode_fields decompress (lsn e) (previous_lsn e) (encoded_flags compress e) ?d =
      Inr (e\<lparr>flags := encoded_flags compress e\<rparr>)"
    by (rule decode_fields_data_portion [OF assms(1)])
      (use sz assms decode_payload_encoded in \<open>simp_all add: wal_defs validate_encoded_flags\<close>)
  ultimately show ?thesis
    unfolding record_parts(2) decode_with_crc_prefix_def Let_def
    using ln sz by (simp add: stored_entry_def)
qed

lemma decode_fields_Inr:
  assumes "decode_fields decompress l p fl d = Inr e" "45 \<le> length d"
  shows "\<exists>raw. d = data_portion e raw \<and> decode_payload decompress l fl raw = Inr (data e) \<and>
           validate_semantics e = Inr () \<and> lsn e = l \<and> previous_lsn e = p \<and> flags e = fl \<and>
           in_i64 (txn_id e) \<and> in_i64 (row_id e) \<and> in_i64 (timestamp e) \<and>
           (case table_id e of None \<Rightarrow> True | Some i \<Rightarrow> object_id_ok i)"
proof -
  obtain tid op payload where d: "decode_table_id l (slice 8 24 d) = Inr tid"
      "operation_from_u8 (d ! 32) = Some op" "length d = 45 + le_nat (slice 41 45 d)"
      "decode_payload decompress l fl (slice 45 (length d) d) = Inr payload"
    and e: "e = \<lparr>lsn = l, previous_lsn = p, flags = fl, txn_id = i64_of_le (slice 0 8 d), table_id = tid,
                row_id = i64_of_le (slice 24 32 d), operation = op, data = payload,
                timestamp = i64_of_le (slice 33 41 d)\<rparr>"
    and v: "validate_semantics e = Inr ()"
    using assms(1) unfolding decode_fields_def Let_def
    by (auto split: option.splits if_splits)
  have t: "case tid of None \<Rightarrow> slice 8 24 d = zero_id | Some i \<Rightarrow> object_id_ok i \<and> slice 8 24 d = i"
    using decode_table_id_Some [OF _ d(1)] assms(2) by simp
  have i: "i64_to_le (i64_of_le (slice 0 8 d)) = slice 0 8 d" "i64_to_le (i64_of_le (slice 24 32 d)) = slice 24 32 d"
    "i64_to_le (i64_of_le (slice 33 41 d)) = slice 33 41 d"
    using assms(2) by (simp_all add: i64_to_of_le)
  have n: "le_bytes 4 (le_nat (slice 41 45 d)) = slice 41 45 d"
    using le_bytes_le_nat [of "slice 41 45 d"] assms(2) by simp
  have c: "[operation_code op] = slice 32 33 d"
    using operation_from_u8_Some [OF d(2)] assms(2) by (simp add: slice_def take_Suc_conv_app_nth hd_drop_conv_nth take_Suc)
  have tt: "(case tid of Some i \<Rightarrow> i | None \<Rightarrow> zero_id) = slice 8 24 d" using t by (auto split: option.splits)
  have "d = slice 0 8 d @ slice 8 24 d @ slice 24 32 d @ slice 32 33 d @ slice 33 41 d @ slice 41 45 d @ slice 45 (length d) d"
    using assms(2) by (simp add: slice_append slice_append_assoc slice_all)
  then have "d = data_portion e (slice 45 (length d) d)"
    unfolding data_portion_def e using i n c tt d(3) by simp
  then show ?thesis using d v t e i64_of_le_range assms(2) by (intro exI [of _ "slice 45 (length d) d"]) (auto split: option.splits)
qed

section \<open>Properties of the codec\<close>

text \<open>Concrete parameters for the witnesses: a polynomial checksum and a codec that packs zero blocks.\<close>

definition example_crc :: "byte list \<Rightarrow> nat" where
  "example_crc bs = foldl (\<lambda>a b. (31 * a + unat b) mod 2 ^ 32) 7 bs mod 2 ^ 32"

definition example_compress :: "byte list \<Rightarrow> byte list" where
  "example_compress bs = le_bytes 4 (length bs) @ (if list_all (\<lambda>b. b = 0) bs then [] else bs)"

definition example_decompress :: "byte list \<Rightarrow> byte list option" where
  "example_decompress bs = Some (if length bs = 4 then replicate (le_nat bs) 0 else drop 4 bs)"

lemma example_crc_ok: "crc_ok example_crc"
  by (simp add: crc_ok_def example_crc_def)

lemma example_lz4_ok: "lz4_ok example_compress example_decompress"
proof -
  have "list_all (\<lambda>b. b = 0) bs \<Longrightarrow> replicate (length bs) 0 = bs" for bs :: "byte list"
    by (simp add: list_all_iff replicate_length_same)
  then show ?thesis
    by (auto simp: lz4_ok_def example_compress_def example_decompress_def byte_simps)
qed

definition example_entry :: wal_entry where
  "example_entry =
     (new_entry 1700 9 (Some (replicate 16 7)) 42 Insert (replicate 100 0))\<lparr>lsn := 5, previous_lsn := 4\<rparr>"

lemma example_entry_ok:
  "entry_ok example_entry" "validate_semantics example_entry = Inr ()" "fits example_compress example_entry"
  "encoded_flags example_compress example_entry = COMPRESSED"
proof -
  have "object_id_ok (replicate 16 7)"
    by (simp add: object_id_ok_def object_id_from_bytes_def zero_id_def is_reserved_unassigned_def
        has_reserved_prefix_def list_all_iff)
  then show "entry_ok example_entry" by (simp add: entry_ok_def example_entry_def new_entry_def)
  show "validate_semantics example_entry = Inr ()"
    by (simp add: validate_semantics_Inr example_entry_def new_entry_def requires_table_id_def)
  have c: "compressed_payload example_compress (data example_entry) = Some (le_bytes 4 100)"
    by (simp add: compressed_payload_def example_compress_def example_entry_def new_entry_def wal_defs list_all_iff)
  show "fits example_compress example_entry"
    by (simp add: fits_def encoded_payload_def c) (simp add: wal_defs example_entry_def new_entry_def)
  show "encoded_flags example_compress example_entry = COMPRESSED"
    unfolding byte_eq_iff encoded_flags_bit flag_bits c by (simp add: example_entry_def new_entry_def)
qed



text \<open>
  C20. What an accepted record guarantees. Whatever bytes \<open>decode\<close> accepts, the stored checksum covers the
  rebuilt header and the whole data portion, the data portion is exactly the encoding of the returned
  entry's fields around some payload that decodes to the entry's data, no byte is left over, the sizes
  are within the limits and the entry passes the semantic checks. Any change to an accepted record that
  changes the checksum is therefore rejected.
\<close>

theorem wal_decode_accepts_encodings:
  assumes "decode crc decompress l p fl bs = Inr e"
  shows "lsn e = l \<and> previous_lsn e = p \<and> flags e = fl \<and> validate_semantics e = Inr () \<and>
         MIN_WAL_RECORD_DATA_SIZE + 4 \<le> length bs \<and> length bs \<le> MAX_WAL_RECORD_DATA_SIZE + 4 \<and>
         (\<exists>raw. bs = data_portion e raw @ drop (length bs - 4) bs \<and>
                le_nat (drop (length bs - 4) bs) =
                  crc (header_bytes WAL_FORMAT_VERSION fl l p (length bs - 4) @ data_portion e raw) \<and>
                decode_payload decompress l fl raw = Inr (data e))"
proof -
  have d: "decode_with_crc_prefix crc decompress l p fl bs
      (header_bytes WAL_FORMAT_VERSION fl l p (length bs - 4)) = Inr e"
    using assms by (auto simp: decode_def checksum_header_def split: if_splits)
  have sz: "MIN_WAL_RECORD_DATA_SIZE + 4 \<le> length bs" "length bs \<le> MAX_WAL_RECORD_DATA_SIZE + 4"
    and c: "le_nat (drop (length bs - 4) bs) =
        crc (header_bytes WAL_FORMAT_VERSION fl l p (length bs - 4) @ take (length bs - 4) bs)"
    and f: "decode_fields decompress l p fl (take (length bs - 4) bs) = Inr e"
    using d by (auto simp: decode_with_crc_prefix_def Let_def split: if_splits)
  have "45 \<le> length (take (length bs - 4) bs)" using sz(1) by (simp add: wal_defs)
  from decode_fields_Inr [OF f this]
  obtain raw where r: "take (length bs - 4) bs = data_portion e raw" "decode_payload decompress l fl raw = Inr (data e)"
      "validate_semantics e = Inr ()" "lsn e = l" "previous_lsn e = p" "flags e = fl"
    by blast
  have "bs = data_portion e raw @ drop (length bs - 4) bs"
    using append_take_drop_id [of "length bs - 4" bs] r(1) by simp
  then show ?thesis using r sz c by auto
qed

theorem wal_decode_accepts_encodings_witness:
  "\<exists>bs e. decode example_crc example_decompress 5 4 COMPRESSED bs = Inr e \<and> lsn e = 5 \<and> flags e = COMPRESSED \<and>
     49 \<le> length bs"
proof -
  let ?b = "record_bytes example_crc example_compress example_entry"
  have l: "lsn example_entry = 5" "previous_lsn example_entry = 4" by (simp_all add: example_entry_def)
  have h: "length (drop 32 ?b) - 4 = MIN_WAL_RECORD_DATA_SIZE + length (encoded_payload example_compress example_entry)"
    "4 \<le> length (drop 32 ?b)"
    using length_record_bytes [OF example_entry_ok(1)] by (simp_all add: wal_defs)
  have "decode example_crc example_decompress 5 4 COMPRESSED (drop 32 ?b) = Inr (stored_entry example_compress example_entry)"
    using decode_record [OF example_entry_ok(1) example_crc_ok example_lz4_ok example_entry_ok(2,3)]
      example_entry_ok(3) h l unfolding decode_def
    by (simp add: checksum_header_def record_parts example_entry_ok(4) fits_def wal_defs)
  from this wal_decode_accepts_encodings [OF this] show ?thesis
    by (intro exI [of _ "drop 32 ?b"] exI [of _ "stored_entry example_compress example_entry"])
      (simp add: wal_defs)
qed

end
