(* ===== verification/Wal_Reader.thy ===== *)
theory Wal_Reader
  imports Wal_Record "HOL-Library.Sublist"
begin

text \<open>
  Reading the write-ahead log back: \<open>ValidatedWalReader\<close> of \<open>wal_manager/recovery.rs\<close> and the validation
  of log files (generations) of \<open>wal_manager/open.rs\<close>: canonical file names, one generation, the
  contiguous run of generations from a replay floor. Then: a reader over written records returns exactly
  those records, and over a torn file it returns the whole records and reports the torn one.
\<close>

section \<open>The validated reader\<close>

text \<open>
  \<open>ValidatedWalReader\<close>: what is left of the file, the byte offset and the sequence number of the record
  before. The file is read to its end at the time of the call; a short read is a truncated header or record.
\<close>

record wal_reader =
  rd_rest :: "byte list"
  rd_offset :: nat
  previous_record_lsn :: "nat option"

definition reader_open :: "byte list \<Rightarrow> wal_reader" where
  "reader_open file = \<lparr>rd_rest = file, rd_offset = 0, previous_record_lsn = None\<rparr>"

definition next_entry ::
  "(byte list \<Rightarrow> nat) \<Rightarrow> (byte list \<Rightarrow> byte list option) \<Rightarrow> wal_reader \<Rightarrow>
   (wal_error, (wal_entry \<times> wal_reader) option) result" where
  "next_entry crc decompress r =
     (if rd_rest r = [] then Inr None
      else if length (rd_rest r) < WAL_HEADER_SIZE then Inl TruncatedHeader
      else let header_bs = take WAL_HEADER_SIZE (rd_rest r); rest = drop WAL_HEADER_SIZE (rd_rest r)
      in rbind (header_decode header_bs) (\<lambda>h.
         rbind (case previous_record_lsn r of None \<Rightarrow> Inr ()
                | Some previous \<Rightarrow>
                    guard_res (hdr_previous_lsn h = previous \<and> hdr_lsn h > previous)
                      (DiscontinuousChain (hdr_lsn h) (hdr_previous_lsn h) previous)) (\<lambda>_.
         case checked_add_u64 (hdr_entry_size h) 4 of None \<Rightarrow> Inl SizeOverflow | Some data_size \<Rightarrow>
         if length rest < data_size then Inl (TruncatedRecord (hdr_lsn h))
         else rbind (decode_with_crc_prefix crc decompress (hdr_lsn h) (hdr_previous_lsn h) (hdr_flags h)
                       (take data_size rest) header_bs) (\<lambda>e.
              case checked_add_u64 (rd_offset r) (WAL_HEADER_SIZE + data_size) of None \<Rightarrow> Inl SizeOverflow
              | Some off \<Rightarrow> Inr (Some (e, r\<lparr>rd_rest := drop data_size rest, rd_offset := off,
                                         previous_record_lsn := Some (hdr_lsn h)\<rparr>))))))"

lemma next_entry_shrinks:
  "next_entry crc decompress r = Inr (Some (e, r')) \<Longrightarrow> length (rd_rest r') < length (rd_rest r)"
  by (auto simp: next_entry_def Let_def wal_defs split: if_splits option.splits)

text \<open>\<open>while let Some(entry) = reader.next_entry()? { .. }\<close> with a body that may fail.\<close>

function for_entries ::
  "(byte list \<Rightarrow> nat) \<Rightarrow> (byte list \<Rightarrow> byte list option) \<Rightarrow> (wal_entry \<Rightarrow> 's \<Rightarrow> ('e, 's) result) \<Rightarrow>
   (wal_error \<Rightarrow> 'e) \<Rightarrow> wal_reader \<Rightarrow> 's \<Rightarrow> ('e, 's) result" where
  "for_entries crc decompress body conv r s =
     (case next_entry crc decompress r of
        Inl e \<Rightarrow> Inl (conv e)
      | Inr None \<Rightarrow> Inr s
      | Inr (Some (e, r')) \<Rightarrow> rbind (body e s) (\<lambda>s'. for_entries crc decompress body conv r' s'))"
  by pat_completeness auto
termination
  by (relation "measure (\<lambda>(crc, decompress, body, conv, r, s). length (rd_rest r))")
    (auto dest: next_entry_shrinks)

declare for_entries.simps [simp del]

section \<open>File names\<close>

definition hex_digits :: string where
  "hex_digits = ''0123456789abcdef''"

definition hex_values :: "(char \<times> nat) list" where
  "hex_values = zip ''0123456789abcdef'' [0..<16] @ zip ''ABCDEF'' [10..<16]"

definition hex_value :: "char \<Rightarrow> nat" where
  "hex_value c = (case map_of hex_values c of Some v \<Rightarrow> v | None \<Rightarrow> 0)"

text \<open>\<open>{generation:016x}\<close> of a \<open>u64\<close>: sixteen lower-case digits, most significant first.\<close>

definition hex16 :: "nat \<Rightarrow> string" where
  "hex16 g = map (\<lambda>i. hex_digits ! (g div 16 ^ (15 - i) mod 16)) [0..<16]"

definition canonical_filename :: "nat \<Rightarrow> string" where
  "canonical_filename g = ''wal-'' @ hex16 g @ ''.log''"

definition from_str_radix_16 :: "string \<Rightarrow> nat" where
  "from_str_radix_16 s = foldl (\<lambda>a c. 16 * a + hex_value c) 0 s"

definition parse_canonical_generation :: "string \<Rightarrow> nat option" where
  "parse_canonical_generation name =
     (if \<not> (prefix ''wal-'' name \<and> suffix ''.log'' (drop 4 name)) then None
      else let encoded = take (length name - 8) (drop 4 name)
      in if length encoded = 16 \<and> list_all (\<lambda>c. map_of hex_values c \<noteq> None) encoded
         then let g = from_str_radix_16 encoded in if g \<noteq> 0 then Some g else None
         else None)"

lemma hex_digit_value: "d < 16 \<Longrightarrow> map_of hex_values (hex_digits ! d) = Some d"
proof -
  have "list_all (\<lambda>d. map_of hex_values (hex_digits ! d) = Some d) [0..<16]" by code_simp
  then show "d < 16 \<Longrightarrow> ?thesis" by (simp add: list_all_iff)
qed

lemma foldl_digits:
  "foldl (\<lambda>a i. 16 * a + g div 16 ^ (n - Suc i) mod 16) 0 [0..<n] = g mod (16 ^ n :: nat)"
proof (induction n arbitrary: g)
  case (Suc n)
  have "foldl (\<lambda>a i. 16 * a + g div 16 ^ (Suc n - Suc i) mod 16) 0 [0..<n] =
      foldl (\<lambda>a i. 16 * a + g div 16 div 16 ^ (n - Suc i) mod 16) 0 [0..<n]"
  proof (rule foldl_cong [OF refl refl])
    fix a i assume "i \<in> set [0..<n]"
    then have "Suc n - Suc i = Suc (n - Suc i)" by auto
    then show "16 * a + g div 16 ^ (Suc n - Suc i) mod 16 = 16 * a + g div 16 div 16 ^ (n - Suc i) mod 16"
      by (simp add: div_mult2_eq)
  qed
  also have "\<dots> = g div 16 mod 16 ^ n" by (rule Suc)
  finally show ?case by (simp add: mod_mult2_eq)
qed simp

lemma hex16_value: "g < 2 ^ 64 \<Longrightarrow> from_str_radix_16 (hex16 g) = g"
proof -
  assume "g < 2 ^ 64"
  have "from_str_radix_16 (hex16 g) = foldl (\<lambda>a i. 16 * a + g div 16 ^ (16 - Suc i) mod 16) 0 [0..<16]"
    unfolding from_str_radix_16_def hex16_def foldl_map hex_value_def by (simp add: hex_digit_value)
  also have "\<dots> = g" using foldl_digits [of g 16] \<open>g < 2 ^ 64\<close> by simp
  finally show ?thesis .
qed

lemma parse_canonical [simp]:
  "0 < g \<Longrightarrow> g < 2 ^ 64 \<Longrightarrow> parse_canonical_generation (canonical_filename g) = Some g"
proof -
  assume g: "0 < g" "g < 2 ^ 64"
  have l: "length (hex16 g) = 16" by (simp add: hex16_def)
  have "list_all (\<lambda>c. map_of hex_values c \<noteq> None) (hex16 g)"
    by (auto simp: hex16_def list_all_iff hex_digit_value)
  then show ?thesis
    using g l unfolding parse_canonical_generation_def canonical_filename_def Let_def
    by (simp add: hex16_value suffix_def)
qed

lemma canonical_filename_inj:
  "0 < g \<Longrightarrow> g < 2 ^ 64 \<Longrightarrow> 0 < h \<Longrightarrow> h < 2 ^ 64 \<Longrightarrow> canonical_filename g = canonical_filename h \<longleftrightarrow> g = h"
  by (metis option.inject parse_canonical)

section \<open>Logs of records\<close>

text \<open>
  An entry that the writer accepts, the bytes of a list of entries, and a chain of entries after the
  sequence number \<open>p\<close>.
\<close>

definition writable :: "(byte list \<Rightarrow> byte list) \<Rightarrow> wal_entry \<Rightarrow> bool" where
  "writable compress e \<longleftrightarrow> entry_ok e \<and> validate_semantics e = Inr () \<and> fits compress e"

definition log_bytes :: "(byte list \<Rightarrow> nat) \<Rightarrow> (byte list \<Rightarrow> byte list) \<Rightarrow> wal_entry list \<Rightarrow> byte list" where
  "log_bytes crc compress es = concat (map (record_bytes crc compress) es)"

fun chained :: "nat \<Rightarrow> wal_entry list \<Rightarrow> bool" where
  "chained p [] = True"
| "chained p (e # es) = (previous_lsn e = p \<and> p < lsn e \<and> chained (lsn e) es)"

fun last_lsn :: "nat \<Rightarrow> wal_entry list \<Rightarrow> nat" where
  "last_lsn p [] = p"
| "last_lsn p (e # es) = last_lsn (lsn e) es"

fun fold_res :: "('a \<Rightarrow> 's \<Rightarrow> ('e, 's) result) \<Rightarrow> 'a list \<Rightarrow> 's \<Rightarrow> ('e, 's) result" where
  "fold_res f [] s = Inr s"
| "fold_res f (x # xs) s = rbind (f x s) (fold_res f xs)"

lemma fold_res_append: "fold_res f (xs @ ys) s = rbind (fold_res f xs s) (fold_res f ys)"
  by (induction xs arbitrary: s) (auto simp: rbind_def split: sum.splits)

lemma log_bytes_simps [simp]:
  "log_bytes crc compress [] = []"
  "log_bytes crc compress (e # es) = record_bytes crc compress e @ log_bytes crc compress es"
  "log_bytes crc compress (es @ fs) = log_bytes crc compress es @ log_bytes crc compress fs"
  by (simp_all add: log_bytes_def)

lemma chained_append [simp]: "chained p (es @ fs) \<longleftrightarrow> chained p es \<and> chained (last_lsn p es) fs"
  by (induction es arbitrary: p) auto

lemma last_lsn_append [simp]: "last_lsn p (es @ fs) = last_lsn (last_lsn p es) fs"
  by (induction es arbitrary: p) auto

lemma chained_gt: "chained p es \<Longrightarrow> e \<in> set es \<Longrightarrow> p < lsn e"
  by (induction es arbitrary: p) (auto dest: order.strict_trans)

lemma chained_le: "chained p es \<Longrightarrow> p \<le> last_lsn p es \<and> (\<forall>e \<in> set es. lsn e \<le> last_lsn p es)"
  by (induction es arbitrary: p) (auto intro: order.trans less_imp_le)

lemma writableD: "writable compress e \<Longrightarrow> entry_ok e \<and> validate_semantics e = Inr () \<and> fits compress e"
  by (simp add: writable_def)

text \<open>What the reader computes of a written record: its length, its validated header, its data size.\<close>

lemma record_header:
  assumes "writable compress e" "previous_lsn e < lsn e"
  defines "n \<equiv> MIN_WAL_RECORD_DATA_SIZE + length (encoded_payload compress e)"
  shows "length (record_bytes crc compress e) = 32 + n + 4"
    and "header_decode (take 32 (record_bytes crc compress e)) =
      Inr \<lparr>hdr_version = WAL_FORMAT_VERSION, hdr_flags = encoded_flags compress e, hdr_lsn = lsn e,
           hdr_previous_lsn = previous_lsn e, hdr_entry_size = n\<rparr>"
    and "checked_add_u64 n 4 = Some (n + 4)"
proof -
  have w: "entry_ok e" "validate_semantics e = Inr ()" "fits compress e" using writableD [OF assms(1)] by simp_all
  show "length (record_bytes crc compress e) = 32 + n + 4" unfolding n_def by (rule length_record_bytes [OF w(1)])
  have n: "MIN_WAL_RECORD_DATA_SIZE \<le> n" "n \<le> MAX_WAL_RECORD_DATA_SIZE" using w(3) by (simp_all add: fits_def n_def)
  show "header_decode (take 32 (record_bytes crc compress e)) =
      Inr \<lparr>hdr_version = WAL_FORMAT_VERSION, hdr_flags = encoded_flags compress e, hdr_lsn = lsn e,
           hdr_previous_lsn = previous_lsn e, hdr_entry_size = n\<rparr>"
    unfolding record_parts(1) n_def [symmetric] by (rule header_decode_bytes [OF assms(2) _ n])
      (use w in \<open>simp_all add: entry_ok_def encoded_flags_known validate_semantics_Inr\<close>)
  show "checked_add_u64 n 4 = Some (n + 4)" using n by (simp add: wal_defs)
qed

lemma chain_guard:
  assumes "p < l" "previous = None \<or> previous = Some p"
  shows "(case previous of None \<Rightarrow> Inr () | Some q \<Rightarrow> guard_res (p = q \<and> q < l) (DiscontinuousChain l p q)) = Inr ()"
  using assms by (auto simp: guard_res_def)

lemma next_entry_record:
  assumes "writable compress e" "crc_ok crc" "lz4_ok compress decompress" "previous_lsn e < lsn e"
    and "previous_record_lsn r = None \<or> previous_record_lsn r = Some (previous_lsn e)"
    and "rd_rest r = record_bytes crc compress e @ rest" "rd_offset r + length (rd_rest r) \<le> u64_max"
  shows "next_entry crc decompress r =
    Inr (Some (stored_entry compress e, r\<lparr>rd_rest := rest, rd_offset := rd_offset r + length (record_bytes crc compress e),
                previous_record_lsn := Some (lsn e)\<rparr>))"
proof -
  let ?b = "record_bytes crc compress e"
  let ?n = "MIN_WAL_RECORD_DATA_SIZE + length (encoded_payload compress e)"
  have w: "entry_ok e" "validate_semantics e = Inr ()" "fits compress e" using writableD [OF assms(1)] by simp_all
  note h = record_header [OF assms(1,4)]
  note ln = h(1) [of crc]
  have t: "take WAL_HEADER_SIZE (rd_rest r) = take 32 ?b" "drop WAL_HEADER_SIZE (rd_rest r) = drop 32 ?b @ rest"
    "rd_rest r \<noteq> []" "\<not> length (rd_rest r) < WAL_HEADER_SIZE"
    using assms(6) ln by (auto simp: wal_defs)
  have o: "checked_add_u64 (rd_offset r) (WAL_HEADER_SIZE + (?n + 4)) = Some (rd_offset r + length ?b)"
    using assms(6,7) ln by (simp add: wal_defs)
  have d: "take (?n + 4) (drop 32 ?b @ rest) = drop 32 ?b" "drop (?n + 4) (drop 32 ?b @ rest) = rest"
    "\<not> length (drop 32 ?b @ rest) < ?n + 4"
    using ln by simp_all
  show ?thesis
    unfolding next_entry_def Let_def t if_False h(2) rbind_simps
    by (simp only: wal_header.simps chain_guard [OF assms(4,5)] h(3) d o rbind_simps option.case if_False t simp_thms
        decode_record [OF w(1) assms(2,3) w(2,3)])
qed

lemma for_entries_log:
  assumes "chained p es" "\<forall>e \<in> set es. writable compress e" "crc_ok crc" "lz4_ok compress decompress"
    and "previous_record_lsn r = None \<or> previous_record_lsn r = Some p"
    and "rd_rest r = log_bytes crc compress es @ rest" "rd_offset r + length (rd_rest r) \<le> u64_max"
  shows "\<exists>r'. rd_rest r' = rest \<and> rd_offset r' + length rest \<le> u64_max \<and>
    (previous_record_lsn r' = previous_record_lsn r \<and> es = [] \<or> previous_record_lsn r' = Some (last_lsn p es)) \<and>
    (\<forall>s. for_entries crc decompress body conv r s =
      rbind (fold_res body (map (stored_entry compress) es) s) (for_entries crc decompress body conv r'))"
  using assms(1,2,5-)
proof (induction es arbitrary: p r)
  case Nil
  then show ?case by (intro exI [of _ r]) auto
next
  case (Cons e es)
  let ?b = "record_bytes crc compress e"
  let ?r = "r\<lparr>rd_rest := log_bytes crc compress es @ rest, rd_offset := rd_offset r + length ?b,
             previous_record_lsn := Some (lsn e)\<rparr>"
  have n: "next_entry crc decompress r = Inr (Some (stored_entry compress e, ?r))"
    by (rule next_entry_record [OF _ assms(3,4)]) (use Cons.prems in auto)
  obtain r' where r': "rd_rest r' = rest" "rd_offset r' + length rest \<le> u64_max"
      "previous_record_lsn r' = Some (last_lsn (lsn e) es)"
      "\<And>s. for_entries crc decompress body conv ?r s =
        rbind (fold_res body (map (stored_entry compress) es) s) (for_entries crc decompress body conv r')"
    using Cons.IH [of "lsn e" ?r] Cons.prems by auto
  show ?case
  proof (intro exI [of _ r'] conjI allI)
    fix s
    show "for_entries crc decompress body conv r s =
        rbind (fold_res body (map (stored_entry compress) (e # es)) s) (for_entries crc decompress body conv r')"
      unfolding for_entries.simps [of _ _ _ _ r] n using r'(4)
      by (cases "body (stored_entry compress e) s") simp_all
  qed (use r' in simp_all)
qed

section \<open>Torn logs\<close>

lemma for_entries_end: "rd_rest r = [] \<Longrightarrow> for_entries crc decompress body conv r s = Inr s"
  by (simp add: for_entries.simps [of _ _ _ _ r] next_entry_def)

lemma next_entry_torn:
  assumes "writable compress e" "previous_lsn e < lsn e"
    and "previous_record_lsn r = None \<or> previous_record_lsn r = Some (previous_lsn e)"
    and "rd_rest r = take k (record_bytes crc compress e)" "0 < k" "k < length (record_bytes crc compress e)"
  shows "next_entry crc decompress r = Inl TruncatedHeader \<or> next_entry crc decompress r = Inl (TruncatedRecord (lsn e))"
proof (cases "k < 32")
  case True
  then show ?thesis using assms(4-6) by (auto simp: next_entry_def wal_defs)
next
  case False
  let ?b = "record_bytes crc compress e"
  let ?n = "MIN_WAL_RECORD_DATA_SIZE + length (encoded_payload compress e)"
  note h = record_header [OF assms(1,2)]
  note ln = h(1) [of crc]
  have t: "take WAL_HEADER_SIZE (rd_rest r) = take 32 ?b" "rd_rest r \<noteq> []" "\<not> length (rd_rest r) < WAL_HEADER_SIZE"
    "length (drop WAL_HEADER_SIZE (rd_rest r)) < ?n + 4"
    using assms(4-6) ln False by (auto simp: wal_defs min_def)
  show ?thesis
    unfolding next_entry_def Let_def t if_False h(2) rbind_simps
    by (simp only: wal_header.simps chain_guard [OF assms(2,3)] h(3) rbind_simps option.case if_True if_False t simp_thms)
qed

text \<open>A cut of a log falls between two records or inside one.\<close>

lemma log_cut:
  assumes "k \<le> length (log_bytes crc compress es)"
  obtains n j where "n \<le> length es" "take k (log_bytes crc compress es) = log_bytes crc compress (take n es)"
    "k = length (log_bytes crc compress (take n es))"
  | n j where "n < length es" "0 < j" "j < length (record_bytes crc compress (es ! n))"
    "take k (log_bytes crc compress es) = log_bytes crc compress (take n es) @ take j (record_bytes crc compress (es ! n))"
    "k = length (log_bytes crc compress (take n es)) + j"
  using assms
proof (induction es arbitrary: k thesis)
  case Nil
  then show ?case using Nil(1) [of 0] by simp
next
  case (Cons e es)
  let ?b = "record_bytes crc compress e"
  show ?case
  proof (cases "k < length ?b")
    case True
    show ?thesis
    proof (cases "k = 0")
      case zero: True
      then show ?thesis using Cons.prems(1) [of 0] by simp
    next
      case False
      then show ?thesis using True Cons.prems(2) [of 0 k] by simp
    qed
  next
    case False
    have le: "k - length ?b \<le> length (log_bytes crc compress es)" using Cons.prems(3) by simp
    show ?thesis
    proof (rule Cons.IH [of "k - length ?b"])
      fix n assume "n \<le> length es" "take (k - length ?b) (log_bytes crc compress es) = log_bytes crc compress (take n es)"
        "k - length ?b = length (log_bytes crc compress (take n es))"
      then show thesis using False Cons.prems(1) [of "Suc n"] by simp
    next
      fix n j assume "n < length es" "0 < j" "j < length (record_bytes crc compress (es ! n))"
        "take (k - length ?b) (log_bytes crc compress es) = log_bytes crc compress (take n es) @ take j (record_bytes crc compress (es ! n))"
        "k - length ?b = length (log_bytes crc compress (take n es)) + j"
      then show thesis using False Cons.prems(2) [of "Suc n" j] by simp
    qed (rule le)
  qed
qed

lemma chained_nth: "chained p es \<Longrightarrow> n < length es \<Longrightarrow>
  previous_lsn (es ! n) = last_lsn p (take n es) \<and> previous_lsn (es ! n) < lsn (es ! n)"
proof (induction es arbitrary: p n)
  case (Cons e es)
  then show ?case by (cases n) auto
qed simp

lemma chained_take: "chained p es \<Longrightarrow> chained p (take n es)"
  by (metis append_take_drop_id chained_append)

text \<open>Reading a cut log: the whole records, then the end of the file or a truncation error.\<close>

lemma for_entries_cut:
  assumes "chained p es" "\<forall>e \<in> set es. writable compress e" "crc_ok crc" "lz4_ok compress decompress"
    and "length (log_bytes crc compress es) \<le> u64_max" "k \<le> length (log_bytes crc compress es)"
  obtains n where "n \<le> length es" "k = length (log_bytes crc compress (take n es))"
      "\<And>s. for_entries crc decompress body conv (reader_open (take k (log_bytes crc compress es))) s =
         fold_res body (map (stored_entry compress) (take n es)) s"
  | n err where "n < length es" "length (log_bytes crc compress (take n es)) < k"
      "k < length (log_bytes crc compress (take (Suc n) es))"
      "err = TruncatedHeader \<or> err = TruncatedRecord (lsn (es ! n))"
      "\<And>s. for_entries crc decompress body conv (reader_open (take k (log_bytes crc compress es))) s =
         rbind (fold_res body (map (stored_entry compress) (take n es)) s) (\<lambda>_. Inl (conv err))"
proof -
  let ?r = "reader_open (take k (log_bytes crc compress es))"
  have start: "\<exists>r'. rd_rest r' = rest \<and>
      (previous_record_lsn r' = None \<or> previous_record_lsn r' = Some (last_lsn p (take n es))) \<and>
      (\<forall>s. for_entries crc decompress body conv ?r s =
        rbind (fold_res body (map (stored_entry compress) (take n es)) s) (for_entries crc decompress body conv r'))"
    if "take k (log_bytes crc compress es) = log_bytes crc compress (take n es) @ rest" for n rest
  proof -
    have w: "\<forall>e \<in> set (take n es). writable compress e" using assms(2) by (auto dest: in_set_takeD)
    have b: "rd_offset ?r + length (rd_rest ?r) \<le> u64_max" using assms(5) by (simp add: reader_open_def)
    have r: "rd_rest ?r = log_bytes crc compress (take n es) @ rest" using that by (simp add: reader_open_def)
    have p: "previous_record_lsn ?r = None" by (simp add: reader_open_def)
    show ?thesis
      using for_entries_log [OF chained_take [OF assms(1), of n] w assms(3,4) disjI1 [OF p] r b, of body conv] p by auto
  qed
  from assms(6) show thesis
  proof (rule log_cut)
    fix n assume n: "n \<le> length es" "take k (log_bytes crc compress es) = log_bytes crc compress (take n es)"
      "k = length (log_bytes crc compress (take n es))"
    obtain r' where "rd_rest r' = []" "\<And>s. for_entries crc decompress body conv ?r s =
        rbind (fold_res body (map (stored_entry compress) (take n es)) s) (for_entries crc decompress body conv r')"
      using start [of n "[]"] n(2) by auto
    then have "for_entries crc decompress body conv ?r s = fold_res body (map (stored_entry compress) (take n es)) s" for s
      by (cases "fold_res body (map (stored_entry compress) (take n es)) s") (simp_all add: for_entries_end)
    then show thesis by (rule that(1) [OF n(1,3)])
  next
    fix n j assume n: "n < length es" "0 < j" "j < length (record_bytes crc compress (es ! n))"
      "take k (log_bytes crc compress es) = log_bytes crc compress (take n es) @ take j (record_bytes crc compress (es ! n))"
      "k = length (log_bytes crc compress (take n es)) + j"
    obtain r' where r': "rd_rest r' = take j (record_bytes crc compress (es ! n))"
        "previous_record_lsn r' = None \<or> previous_record_lsn r' = Some (previous_lsn (es ! n))"
        "\<And>s. for_entries crc decompress body conv ?r s =
          rbind (fold_res body (map (stored_entry compress) (take n es)) s) (for_entries crc decompress body conv r')"
      using start [OF n(4)] chained_nth [OF assms(1) n(1)] by auto
    obtain err where e: "next_entry crc decompress r' = Inl err" "err = TruncatedHeader \<or> err = TruncatedRecord (lsn (es ! n))"
      using next_entry_torn [OF _ _ r'(2,1) n(2,3), of decompress] assms(2) n(1) chained_nth [OF assms(1) n(1)] by auto
    have "for_entries crc decompress body conv ?r s =
        rbind (fold_res body (map (stored_entry compress) (take n es)) s) (\<lambda>_. Inl (conv err))" for s
      using r'(3) [of s] by (simp add: for_entries.simps [of _ _ _ _ r'] e(1))
    moreover have "k < length (log_bytes crc compress (take (Suc n) es))"
      using n by (simp add: take_Suc_conv_app_nth)
    ultimately show thesis using that(2) [OF n(1) _ _ e(2)] n(2,5) by simp
  qed
qed

text \<open>All entries of a file, in order; the loop that every scan of the code runs.\<close>

definition read_all ::
  "(byte list \<Rightarrow> nat) \<Rightarrow> (byte list \<Rightarrow> byte list option) \<Rightarrow> byte list \<Rightarrow> (wal_error, wal_entry list) result" where
  "read_all crc decompress file =
     for_entries crc decompress (\<lambda>e acc. Inr (acc @ [e])) (\<lambda>err. err) (reader_open file) []"

lemma fold_res_collect: "fold_res (\<lambda>e acc. Inr (acc @ [e])) es acc = Inr (acc @ es)"
  by (induction es arbitrary: acc) auto

lemma encode_all:
  assumes "list_all2 (\<lambda>e b. encode crc compress e = Inr b) es bs" "\<forall>e \<in> set es. entry_ok e"
  shows "bs = map (record_bytes crc compress) es" "\<forall>e \<in> set es. writable compress e"
  using assms by (induction es bs rule: list_all2_induct) (auto simp: encode_Inr writable_def)

text \<open>
  C19. Torn logs. Let the file hold the first \<open>k\<close> bytes of the records that \<open>encode\<close> wrote for a chain of
  entries. If the cut falls between two records, the reader returns exactly the entries before it; if it falls
  inside a record, the reader reports that record as truncated: it never returns a wrong or partial entry
  and never silently drops the tail.
\<close>

theorem wal_torn_log:
  assumes "list_all2 (\<lambda>e b. encode crc compress e = Inr b) es bs" "\<forall>e \<in> set es. entry_ok e" "chained p es"
    and "crc_ok crc" "lz4_ok compress decompress" "length (concat bs) \<le> u64_max" "k \<le> length (concat bs)"
  shows "\<exists>n \<le> length es.
    k = length (concat (take n bs)) \<and>
      read_all crc decompress (take k (concat bs)) = Inr (map (stored_entry compress) (take n es)) \<or>
    n < length es \<and> length (concat (take n bs)) < k \<and> k < length (concat (take (Suc n) bs)) \<and>
      read_all crc decompress (take k (concat bs)) \<in> {Inl TruncatedHeader, Inl (TruncatedRecord (lsn (es ! n)))}"
proof -
  note b = encode_all [OF assms(1,2)]
  have l: "concat (take n bs) = log_bytes crc compress (take n es)" "concat bs = log_bytes crc compress es" for n
    by (simp_all add: log_bytes_def b(1) take_map)
  note len = assms(6,7) [unfolded l]
  let ?read = "\<lambda>s. for_entries crc decompress (\<lambda>e acc. Inr (acc @ [e])) (\<lambda>err. err)
      (reader_open (take k (log_bytes crc compress es))) s"
  consider n where "n \<le> length es" "k = length (log_bytes crc compress (take n es))"
      "\<And>s. ?read s = fold_res (\<lambda>e acc. Inr (acc @ [e])) (map (stored_entry compress) (take n es)) s"
    | n err where "n < length es" "length (log_bytes crc compress (take n es)) < k"
      "k < length (log_bytes crc compress (take (Suc n) es))" "err = TruncatedHeader \<or> err = TruncatedRecord (lsn (es ! n))"
      "\<And>s. ?read s = rbind (fold_res (\<lambda>e acc. Inr (acc @ [e])) (map (stored_entry compress) (take n es)) s) (\<lambda>_. Inl err)"
    by (rule for_entries_cut [OF assms(3) b(2) assms(4,5) len,
          where body = "\<lambda>e acc. Inr (acc @ [e])" and conv = "\<lambda>err. err"]) (rule that, assumption+)+
  then show ?thesis
  proof cases
    case 1
    then show ?thesis unfolding l read_all_def by (intro exI [of _ n]) (simp add: fold_res_collect)
  next
    case 2
    then show ?thesis unfolding l read_all_def by (intro exI [of _ n]) (auto simp: fold_res_collect)
  qed
qed

theorem wal_torn_log_witness:
  "\<exists>b. encode example_crc example_compress example_entry = Inr b \<and>
     (\<exists>err. read_all example_crc example_decompress (take 10 b) = Inl err)"
proof -
  let ?b = "record_bytes example_crc example_compress example_entry"
  have e: "encode example_crc example_compress example_entry = Inr ?b" by (simp add: encode_Inr example_entry_ok)
  have n: "length ?b = 32 + (45 + 4) + 4"
    using length_record_bytes [OF example_entry_ok(1)]
    by (simp add: encoded_payload_def compressed_payload_def example_compress_def example_entry_def new_entry_def
        wal_defs list_all_iff)
  have "\<exists>n \<le> length [example_entry]. 10 = length (concat (take n [?b])) \<and>
      read_all example_crc example_decompress (take 10 (concat [?b])) =
        Inr (map (stored_entry example_compress) (take n [example_entry])) \<or>
      n < length [example_entry] \<and> length (concat (take n [?b])) < 10 \<and> 10 < length (concat (take (Suc n) [?b])) \<and>
      read_all example_crc example_decompress (take 10 (concat [?b])) \<in>
        {Inl TruncatedHeader, Inl (TruncatedRecord (lsn ([example_entry] ! n)))}"
    by (rule wal_torn_log [where p = 4]) 
      (use e n example_crc_ok example_lz4_ok example_entry_ok in \<open>auto simp: example_entry_def\<close>)
  then have "\<exists>err. read_all example_crc example_decompress (take 10 ?b) = Inl err"
    using n by (auto simp: le_Suc_eq)
  then show ?thesis using e by blast
qed

end
