(* ===== verification/Wal_Generations.thy ===== *)
theory Wal_Generations
  imports Wal_Reader
begin

text \<open>
  Validation of the log directory on open and before replay, from \<open>wal_manager/open.rs\<close>: one generation file,
  the retired subdirectory, the contiguous run of generations from the replay floor, and the check that
  they cover a required position. A directory is the list of its files by name with the names in its
  \<open>retired\<close> subdirectory; file metadata (links, modification times) is not modelled. Then: a directory that
  holds the records of a chain validates to exactly its generations.
\<close>

section \<open>Errors and directories\<close>

datatype log_error =
    RecordError wal_error
  | NonCanonicalFile string
  | NonCanonicalRetired string
  | RetiredNotBelow nat nat
  | NotCanonicalFor string nat
  | LsnAtOrBelowStart nat nat
  | FirstRecordChain nat nat nat
  | OpenFailed string
  | FloorGenerationMissing nat
  | GenerationGap nat nat
  | GenerationExhausted
  | NoGenerationCovers nat
  | StartsAfterFloor nat nat
  | GenerationsDisconnected nat nat
  | CheckpointAhead nat nat
  | WalNotRunning
  | WalDurabilityUncertain
  | WalFileClosed
  | WriteFailed
  | SyncFailed
  | CreateFailed string
  | TransactionIdExhausted
  | TimestampExhausted
  | LsnOverflow
  | ZeroCheckpoint
  | RetentionNotOwned nat nat nat
  | EndLsnMismatch nat nat
  | CloseInProgress
  | BothOutcomes int
  | OutcomeCountOverflow
  | OutcomeIndexFull
  | CallbackFailed
  | SnapshotFloorDiffers
  | SnapshotNotContiguous
  | CheckpointRegresses nat nat
  | CheckpointNotAdvancing nat nat
  | MarkerCountOverflow
  | SpillCreateFailed
  | SpillIoFailed

record wal_directory =
  dir_files :: "(string \<times> byte list) list"
  dir_retired :: "string list option"

record wal_generation =
  gen_name :: string
  gen_start_lsn :: nat
  gen_end_lsn :: nat
  gen_sequence :: nat
  gen_len :: nat

section \<open>Validation\<close>

definition validate_retired_directory :: "string list \<Rightarrow> nat \<Rightarrow> (log_error, unit) result" where
  "validate_retired_directory names floor_generation =
     each_res (\<lambda>name. case parse_canonical_generation name of
         None \<Rightarrow> Inl (NonCanonicalRetired name)
       | Some g \<Rightarrow> guard_res (g < floor_generation) (RetiredNotBelow g floor_generation)) names"

definition generation_body :: "nat \<Rightarrow> wal_entry \<Rightarrow> nat \<times> bool \<Rightarrow> (log_error, nat \<times> bool) result" where
  "generation_body start e s =
     (let (end_lsn, first_record) = s in
      if lsn e \<le> start then Inl (LsnAtOrBelowStart (lsn e) start)
      else if first_record \<and> previous_lsn e \<noteq> start then Inl (FirstRecordChain (lsn e) (previous_lsn e) start)
      else Inr (lsn e, False))"

definition validate_generation ::
  "(byte list \<Rightarrow> nat) \<Rightarrow> (byte list \<Rightarrow> byte list option) \<Rightarrow> (string \<times> byte list) list \<Rightarrow> string \<Rightarrow> nat \<Rightarrow> nat \<Rightarrow>
   (log_error, wal_generation) result" where
  "validate_generation crc decompress files name sequence start =
     (if parse_canonical_generation name \<noteq> Some sequence then Inl (NotCanonicalFor name sequence)
      else case map_of files name of
        None \<Rightarrow> Inl (OpenFailed name)
      | Some file \<Rightarrow>
          rbind (for_entries crc decompress (generation_body start) RecordError (reader_open file) (start, True))
            (\<lambda>(end_lsn, _). Inr \<lparr>gen_name = name, gen_start_lsn = start, gen_end_lsn = end_lsn,
                                  gen_sequence = sequence, gen_len = length file\<rparr>))"

fun select_paths :: "nat \<Rightarrow> string list \<Rightarrow> (log_error, (nat \<times> string) list) result" where
  "select_paths floor_generation [] = Inr []"
| "select_paths floor_generation (name # names) =
     (case parse_canonical_generation name of
        None \<Rightarrow> Inl (NonCanonicalFile name)
      | Some g \<Rightarrow> rbind (select_paths floor_generation names)
                    (\<lambda>ps. Inr (if g \<ge> floor_generation then (g, name) # ps else ps)))"

fun collect_loop ::
  "(byte list \<Rightarrow> nat) \<Rightarrow> (byte list \<Rightarrow> byte list option) \<Rightarrow> (string \<times> byte list) list \<Rightarrow> nat \<Rightarrow> nat \<Rightarrow>
   (nat \<times> string) list \<Rightarrow> (log_error, wal_generation list) result" where
  "collect_loop crc decompress files expected start [] = Inr []"
| "collect_loop crc decompress files expected start ((g, name) # paths) =
     (if g \<noteq> expected then Inl (GenerationGap (expected - 1) g)
      else rbind (validate_generation crc decompress files name g start) (\<lambda>v.
           case checked_add_u64 expected 1 of None \<Rightarrow> Inl GenerationExhausted | Some expected' \<Rightarrow>
           rbind (collect_loop crc decompress files expected' (gen_end_lsn v) paths) (\<lambda>vs. Inr (v # vs))))"

definition collect_validated_generations ::
  "(byte list \<Rightarrow> nat) \<Rightarrow> (byte list \<Rightarrow> byte list option) \<Rightarrow> wal_directory \<Rightarrow> nat \<Rightarrow> nat \<Rightarrow>
   (log_error, wal_generation list) result" where
  "collect_validated_generations crc decompress dir floor_generation floor_lsn =
     rbind (case dir_retired dir of None \<Rightarrow> Inr () | Some names \<Rightarrow> validate_retired_directory names floor_generation) (\<lambda>_.
     rbind (select_paths floor_generation (map fst (dir_files dir))) (\<lambda>paths.
     case sort_key fst paths of
       [] \<Rightarrow> Inr []
     | (g, name) # rest \<Rightarrow>
         if g \<noteq> floor_generation then Inl (FloorGenerationMissing floor_generation)
         else collect_loop crc decompress (dir_files dir) floor_generation floor_lsn ((g, name) # rest)))"

fun connected_generations :: "wal_generation list \<Rightarrow> (log_error, unit) result" where
  "connected_generations (a # b # gs) =
     (if gen_end_lsn a \<noteq> gen_start_lsn b then Inl (GenerationsDisconnected (gen_end_lsn a) (gen_start_lsn b))
      else connected_generations (b # gs))"
| "connected_generations _ = Inr ()"

definition validate_required_generation_suffix :: "wal_generation list \<Rightarrow> nat \<Rightarrow> (log_error, unit) result" where
  "validate_required_generation_suffix generations replay_floor =
     (case dropWhile (\<lambda>g. \<not> gen_end_lsn g \<ge> replay_floor) generations of
        [] \<Rightarrow> if generations = [] \<and> replay_floor = 0 then Inr () else Inl (NoGenerationCovers replay_floor)
      | first # rest \<Rightarrow>
          if gen_start_lsn first > replay_floor then Inl (StartsAfterFloor (gen_start_lsn first) replay_floor)
          else connected_generations (first # rest))"

section \<open>Directories that hold a log\<close>

lemma fold_generation_body:
  "chained q es \<Longrightarrow> start \<le> q \<Longrightarrow> (b \<longrightarrow> q = start) \<Longrightarrow>
   fold_res (generation_body start) (map (stored_entry compress) es) (q, b) = Inr (last_lsn q es, b \<and> es = [])"
proof (induction es arbitrary: q b)
  case (Cons e es)
  then have "generation_body start (stored_entry compress e) (q, b) = Inr (lsn e, False)"
    by (auto simp: generation_body_def)
  then show ?case using Cons.IH [of "lsn e" False] Cons.prems by simp
qed simp

text \<open>The generations that a run of logs validates to, from generation \<open>g\<close> and start position \<open>start\<close>.\<close>

fun generations_of ::
  "(byte list \<Rightarrow> nat) \<Rightarrow> (byte list \<Rightarrow> byte list) \<Rightarrow> nat \<Rightarrow> nat \<Rightarrow> wal_entry list list \<Rightarrow> wal_generation list" where
  "generations_of crc compress g start [] = []"
| "generations_of crc compress g start (es # ess) =
     \<lparr>gen_name = canonical_filename g, gen_start_lsn = start, gen_end_lsn = last_lsn start es, gen_sequence = g,
      gen_len = length (log_bytes crc compress es)\<rparr> # generations_of crc compress (Suc g) (last_lsn start es) ess"

text \<open>
  Entries whose transaction identifier and timestamp leave room for a successor; the manager refuses the others. A
  log is good when the writer accepts its entries and its file has a representable length.
\<close>

definition MAX_DURABLE_TIMESTAMP :: int where
  "MAX_DURABLE_TIMESTAMP = i64_max - 2 ^ 60"

definition admissible :: "wal_entry \<Rightarrow> bool" where
  "admissible e \<longleftrightarrow> txn_id e \<noteq> i64_max \<and> timestamp e \<le> MAX_DURABLE_TIMESTAMP"

definition log_ok :: "(byte list \<Rightarrow> nat) \<Rightarrow> (byte list \<Rightarrow> byte list) \<Rightarrow> wal_entry list \<Rightarrow> bool" where
  "log_ok crc compress es \<longleftrightarrow> (\<forall>e \<in> set es. writable compress e \<and> admissible e) \<and> length (log_bytes crc compress es) \<le> u64_max"

lemma validate_generation_log:
  assumes "crc_ok crc" "lz4_ok compress decompress" "0 < g" "g < 2 ^ 64" "chained start es" "log_ok crc compress es"
    and "map_of files (canonical_filename g) = Some (log_bytes crc compress es)"
  shows "validate_generation crc decompress files (canonical_filename g) g start =
    Inr \<lparr>gen_name = canonical_filename g, gen_start_lsn = start, gen_end_lsn = last_lsn start es, gen_sequence = g,
         gen_len = length (log_bytes crc compress es)\<rparr>"
proof -
  let ?r = "reader_open (log_bytes crc compress es)"
  obtain r' where r': "rd_rest r' = []" and f: "for_entries crc decompress (generation_body start) RecordError ?r s =
      rbind (fold_res (generation_body start) (map (stored_entry compress) es) s)
        (for_entries crc decompress (generation_body start) RecordError r')" for s
    using for_entries_log [OF assms(5) _ assms(1,2), of ?r "[]" "generation_body start" RecordError] assms(6)
    by (auto simp: reader_open_def log_ok_def)
  show ?thesis
    unfolding validate_generation_def using assms(3,4,7)
    by (simp add: f fold_generation_body [OF assms(5)] for_entries_end [OF r'])
qed

lemma validate_generation_torn:
  assumes "crc_ok crc" "lz4_ok compress decompress" "chained start es" "log_ok crc compress es"
    and "n < length es" "length (log_bytes crc compress (take n es)) < k"
    and "k < length (log_bytes crc compress (take (Suc n) es))"
    and "map_of files (canonical_filename g) = Some (take k (log_bytes crc compress es))"
  shows "\<exists>err. validate_generation crc decompress files (canonical_filename g) g start = Inl err"
proof -
  let ?f = "for_entries crc decompress (generation_body start) RecordError (reader_open (take k (log_bytes crc compress es)))"
  have "log_bytes crc compress es = log_bytes crc compress (take (Suc n) es) @ log_bytes crc compress (drop (Suc n) es)"
    by (metis append_take_drop_id log_bytes_simps(3))
  then have k: "k \<le> length (log_bytes crc compress es)" using assms(7) by simp
  have mono: "length (log_bytes crc compress (take i es)) \<le> length (log_bytes crc compress (take j es))" if "i \<le> j" for i j
  proof -
    have "take j es = take i es @ drop i (take j es)"
      using that by (metis append_take_drop_id min.absorb1 take_take)
    then show ?thesis by (metis log_bytes_simps(3) length_append le_add1)
  qed
  have "\<exists>err. ?f (start, True) = Inl err"
  proof (rule for_entries_cut [where body = "generation_body start" and conv = RecordError, OF _ _ assms(1,2)])
    show "chained start es" "\<forall>e \<in> set es. writable compress e" "length (log_bytes crc compress es) \<le> u64_max"
      "k \<le> length (log_bytes crc compress es)"
      using assms(3,4) k by (simp_all add: log_ok_def)
  next
    fix m assume "k = length (log_bytes crc compress (take m es))"
    then show ?thesis using assms(6,7) mono [of m n] mono [of "Suc n" m] by (cases "m \<le> n") auto
  next
    fix m err assume "\<And>s. ?f s = rbind (fold_res (generation_body start) (map (stored_entry compress) (take m es)) s)
        (\<lambda>_. Inl (RecordError err))"
    then show ?thesis by (cases "fold_res (generation_body start) (map (stored_entry compress) (take m es)) (start, True)") auto
  qed
  then show ?thesis unfolding validate_generation_def using assms(8) by auto
qed

lemma collect_loop_logs:
  assumes "crc_ok crc" "lz4_ok compress decompress"
  shows "chained start (concat logs) \<Longrightarrow> \<forall>es \<in> set logs. log_ok crc compress es \<Longrightarrow>
    0 < g \<Longrightarrow> g + length logs < 2 ^ 64 \<Longrightarrow>
    \<forall>i < length logs. map_of files (canonical_filename (g + i)) = Some (log_bytes crc compress (logs ! i)) \<Longrightarrow>
    collect_loop crc decompress files g start (map (\<lambda>i. (i, canonical_filename i)) [g..<g + length logs] @ rest) =
      rbind (collect_loop crc decompress files (g + length logs) (last_lsn start (concat logs)) rest)
        (\<lambda>vs. Inr (generations_of crc compress g start logs @ vs))"
proof (induction logs arbitrary: g start)
  case Nil
  then show ?case by (cases "collect_loop crc decompress files g start rest") simp_all
next
  case (Cons es logs)
  have v: "validate_generation crc decompress files (canonical_filename g) g start =
    Inr \<lparr>gen_name = canonical_filename g, gen_start_lsn = start, gen_end_lsn = last_lsn start es, gen_sequence = g,
         gen_len = length (log_bytes crc compress es)\<rparr>"
    by (rule validate_generation_log [OF assms]) (use Cons.prems in auto)
  have c: "checked_add_u64 g 1 = Some (Suc g)" using Cons.prems(4) by simp
  have u: "[g..<g + length (es # logs)] = g # [Suc g..<Suc g + length logs]"
    by (simp add: upt_conv_Cons del: upt_Suc)
  have "map_of files (canonical_filename (Suc g + i)) = Some (log_bytes crc compress (logs ! i))" if "i < length logs" for i
    using Cons.prems(5) [rule_format, of "Suc i"] that by simp
  then have IH: "collect_loop crc decompress files (Suc g) (last_lsn start es)
      (map (\<lambda>i. (i, canonical_filename i)) [Suc g..<Suc g + length logs] @ rest) =
    rbind (collect_loop crc decompress files (Suc g + length logs) (last_lsn (last_lsn start es) (concat logs)) rest)
      (\<lambda>vs. Inr (generations_of crc compress (Suc g) (last_lsn start es) logs @ vs))"
    by (intro Cons.IH) (use Cons.prems in simp_all)
  show ?case
    unfolding u list.map append_Cons collect_loop.simps v rbind_simps c option.case wal_generation.simps IH
    by (cases "collect_loop crc decompress files (Suc g + length logs) (last_lsn (last_lsn start es) (concat logs)) rest")
      simp_all
qed

text \<open>
  The directory's names are canonical, its retired files are below \<open>g\<close>, and its files from generation \<open>g\<close> on
  are the given contents, in order and without a gap.
\<close>

definition dir_files_from :: "nat \<Rightarrow> byte list list \<Rightarrow> wal_directory \<Rightarrow> bool" where
  "dir_files_from g contents dir \<longleftrightarrow>
     0 < g \<and> g + length contents < 2 ^ 64 \<and> distinct (map fst (dir_files dir)) \<and>
     (\<forall>name \<in> fst ` set (dir_files dir). \<exists>h. 0 < h \<and> h < 2 ^ 64 \<and> name = canonical_filename h) \<and>
     (\<forall>h. g \<le> h \<longrightarrow> h < 2 ^ 64 \<longrightarrow> map_of (dir_files dir) (canonical_filename h) =
        (if h < g + length contents then Some (contents ! (h - g)) else None)) \<and>
     (\<forall>names. dir_retired dir = Some names \<longrightarrow>
        (\<forall>name \<in> set names. \<exists>h. parse_canonical_generation name = Some h \<and> h < g))"

lemma select_paths_canonical:
  "\<forall>name \<in> set names. \<exists>h. 0 < h \<and> h < 2 ^ 64 \<and> name = canonical_filename h \<Longrightarrow>
   select_paths g names =
     Inr (filter (\<lambda>p. g \<le> fst p) (map (\<lambda>name. (the (parse_canonical_generation name), name)) names))"
  by (induction names) auto

lemma sorted_paths:
  assumes "dir_files_from g contents dir"
  defines "paths \<equiv> filter (\<lambda>p. g \<le> fst p)
      (map (\<lambda>name. (the (parse_canonical_generation name), name)) (map fst (dir_files dir)))"
  shows "sort_key fst paths = map (\<lambda>i. (i, canonical_filename i)) [g..<g + length contents]"
proof (rule map_sorted_distinct_set_unique [of fst])
  let ?c = "\<lambda>i. (i, canonical_filename i)"
  have can: "\<And>name. name \<in> fst ` set (dir_files dir) \<Longrightarrow> \<exists>h. 0 < h \<and> h < 2 ^ 64 \<and> name = canonical_filename h"
    and files: "\<And>h. g \<le> h \<Longrightarrow> h < 2 ^ 64 \<Longrightarrow> map_of (dir_files dir) (canonical_filename h) =
        (if h < g + length contents then Some (contents ! (h - g)) else None)"
    and g: "0 < g" "g + length contents < 2 ^ 64" and d: "distinct (map fst (dir_files dir))"
    using assms(1) unfolding dir_files_from_def by blast+
  have form: "p \<in> set paths \<longleftrightarrow> (\<exists>h. g \<le> h \<and> h < g + length contents \<and> p = ?c h)" for p
  proof
    assume "p \<in> set paths"
    then obtain name where n: "name \<in> fst ` set (dir_files dir)" "p = (the (parse_canonical_generation name), name)" "g \<le> fst p"
      unfolding paths_def by force
    then obtain h where h: "0 < h" "h < 2 ^ 64" "name = canonical_filename h" using can by blast
    then have "map_of (dir_files dir) (canonical_filename h) \<noteq> None" using n(1) by (simp add: map_of_in_keys)
    then have "h < g + length contents" using files [of h] n h by (auto split: if_splits)
    then show "\<exists>h. g \<le> h \<and> h < g + length contents \<and> p = ?c h" using n h by auto
  next
    assume "\<exists>h. g \<le> h \<and> h < g + length contents \<and> p = ?c h"
    then obtain h where h: "g \<le> h" "h < g + length contents" "p = ?c h" by blast
    then have "map_of (dir_files dir) (canonical_filename h) \<noteq> None" using files [of h] g by simp
    then have "canonical_filename h \<in> fst ` set (dir_files dir)" by (simp add: map_of_in_keys)
    then show "p \<in> set paths" unfolding paths_def using h g by force
  qed
  show "set (sort_key fst paths) = set (map ?c [g..<g + length contents])" using form by auto
  have "inj_on (\<lambda>name. the (parse_canonical_generation name)) (fst ` set (dir_files dir))"
    by (rule inj_onI) (metis can option.sel parse_canonical)
  then have "distinct (map (\<lambda>name. the (parse_canonical_generation name)) (map fst (dir_files dir)))"
    using d by (simp add: distinct_map comp_inj_on)
  then have "distinct (map fst (map (\<lambda>name. (the (parse_canonical_generation name), name)) (map fst (dir_files dir))))"
    by (simp add: comp_def)
  then have "distinct (map fst paths)" unfolding paths_def by (rule distinct_filter_fst)
  then show "distinct (map fst (sort_key fst paths))"
    by (metis distinct_map distinct_sort inj_on_subset set_sort subset_refl)
  show "inj_on fst (set (sort_key fst paths) \<union> set (map ?c [g..<g + length contents]))"
    using form by (auto simp: inj_on_def)
qed (simp_all add: comp_def)

lemma collect_generations:
  assumes "crc_ok crc" "lz4_ok compress decompress" "chained p (concat logs)" "\<forall>es \<in> set logs. log_ok crc compress es"
    and "dir_files_from g (map (log_bytes crc compress) logs @ tail) dir"
  shows "collect_validated_generations crc decompress dir g p =
    rbind (collect_loop crc decompress (dir_files dir) (g + length logs) (last_lsn p (concat logs))
      (map (\<lambda>i. (i, canonical_filename i)) [g + length logs..<g + length logs + length tail]))
        (\<lambda>vs. Inr (generations_of crc compress g p logs @ vs))"
proof -
  let ?rest = "map (\<lambda>i. (i, canonical_filename i)) [g + length logs..<g + length logs + length tail]"
  have d: "0 < g" "g + length logs + length tail < 2 ^ 64"
    "\<forall>name \<in> set (map fst (dir_files dir)). \<exists>h. 0 < h \<and> h < 2 ^ 64 \<and> name = canonical_filename h"
    using assms(5) by (auto simp: dir_files_from_def)
  have ret: "(case dir_retired dir of None \<Rightarrow> Inr () | Some names \<Rightarrow> validate_retired_directory names g) = Inr ()"
  proof (cases "dir_retired dir")
    case (Some names)
    then have "\<forall>name \<in> set names. \<exists>h. parse_canonical_generation name = Some h \<and> h < g"
      using assms(5) by (simp add: dir_files_from_def)
    then show ?thesis using Some by (auto simp: validate_retired_directory_def)
  qed simp
  have srt: "sort_key fst (filter (\<lambda>p. g \<le> fst p) (map (\<lambda>name. (the (parse_canonical_generation name), name)) (map fst (dir_files dir)))) =
      map (\<lambda>i. (i, canonical_filename i)) [g..<g + length logs] @ ?rest"
    using sorted_paths [OF assms(5)] upt_add_eq_append [of g "g + length logs" "length tail"]
    by (simp add: add.assoc)
  have loop: "collect_loop crc decompress (dir_files dir) g p (map (\<lambda>i. (i, canonical_filename i)) [g..<g + length logs] @ ?rest) =
      rbind (collect_loop crc decompress (dir_files dir) (g + length logs) (last_lsn p (concat logs)) ?rest)
        (\<lambda>vs. Inr (generations_of crc compress g p logs @ vs))"
  proof (rule collect_loop_logs [OF assms(1-4) d(1)])
    show "\<forall>i < length logs. map_of (dir_files dir) (canonical_filename (g + i)) = Some (log_bytes crc compress (logs ! i))"
      using assms(5) d(2) by (auto simp: dir_files_from_def nth_append)
  qed (use d in simp)
  let ?L = "map (\<lambda>i. (i, canonical_filename i)) [g..<g + length logs] @ ?rest"
  have e: "collect_validated_generations crc decompress dir g p =
      (case ?L of [] \<Rightarrow> Inr [] | (h, name) # rest \<Rightarrow> if h \<noteq> g then Inl (FloorGenerationMissing g)
         else collect_loop crc decompress (dir_files dir) g p ((h, name) # rest))"
    unfolding collect_validated_generations_def ret select_paths_canonical [OF d(3)] rbind_simps srt by (rule refl)
  show ?thesis
  proof (cases ?L)
    case Nil
    then have "logs = []" "tail = []" using d(1) by auto
    then show ?thesis unfolding e Nil by simp
  next
    case (Cons q qs)
    have "q = (g, canonical_filename g)"
    proof (cases logs)
      case Nil
      then show ?thesis using Cons by (cases tail) (auto simp: upt_conv_Cons simp del: upt_Suc)
    next
      case logs: (Cons es ess)
      then show ?thesis using Cons by (auto simp: upt_conv_Cons simp del: upt_Suc)
    qed
    then show ?thesis using loop unfolding e Cons by simp
  qed
qed

end
