(* ===== verification/Wal_Manager.thy ===== *)
theory Wal_Manager
  imports Wal_Generations
begin

text \<open>
  The write-ahead-log manager of \<open>wal_manager/{append,rotation,checkpoint,open}.rs\<close> as explicit state passing.
  A step of the model is one critical section of the \<open>transition\<close> mutex, which every operation of the code
  holds from its admission check to its return (\<open>close\<close> takes it twice and is two steps). What the operating
  system answers (a short write, a failed \<open>fsync\<close>, a failed create, the clock) is the argument \<open>wal_io\<close> of a step.
  Instrumentation counters, test hooks and failpoints are left out.
\<close>

section \<open>State\<close>

datatype sync_mode = SyncNone | SyncNormal | SyncFull

datatype wal_lifecycle = Running | Failed | Closing | Closed

record wal =
  wal_dir :: wal_directory
  wal_file :: bool
  current_wal_file :: string
  current_lsn :: nat
  wal_previous_lsn :: nat
  buffer :: "byte list"
  flush_trigger :: nat
  max_wal_size :: nat
  last_checkpoint :: nat
  transaction_high_water :: int
  wal_sync_mode :: sync_mode
  running :: bool
  lifecycle :: wal_lifecycle
  last_sync_elapsed_nanos :: nat
  sync_interval_nanos :: nat
  current_file_position :: nat
  last_synced_file_position :: nat
  wal_sequence :: nat
  replay_floor :: "nat \<times> nat"
  validated_closed_generations :: "wal_generation list"
  last_timestamp :: int

text \<open>
  \<open>io_write\<close>: the write stops with an error after this many bytes (\<open>None\<close>: it writes everything);
  \<open>io_sync\<close>: the log file's \<open>fsync\<close> succeeds; \<open>io_elapsed\<close>: the monotonic clock; the other fields answer
  the creation, the \<open>fsync\<close>, the directory \<open>fsync\<close> and the removal of a new generation file.
\<close>

record wal_io =
  io_write :: "nat option"
  io_sync :: bool
  io_elapsed :: nat
  io_create :: bool
  io_new_sync :: bool
  io_dir_sync :: bool
  io_remove :: bool

type_synonym 'a wal_step = "(log_error, 'a) result \<times> wal"

section \<open>Timestamps\<close>

definition observe_persisted_timestamp :: "int \<Rightarrow> wal \<Rightarrow> bool \<times> wal" where
  "observe_persisted_timestamp ts w =
     (if ts \<le> 0 then (True, w)
      else if \<not> ts \<le> MAX_DURABLE_TIMESTAMP then (False, w)
      else (True, w\<lparr>last_timestamp := max (last_timestamp w) ts\<rparr>))"

section \<open>Lifecycle, writing and syncing\<close>

fun require_running_transition :: "wal_lifecycle \<Rightarrow> (log_error, unit) result" where
  "require_running_transition Running = Inr ()"
| "require_running_transition Failed = Inl WalDurabilityUncertain"
| "require_running_transition Closing = Inl WalNotRunning"
| "require_running_transition Closed = Inl WalNotRunning"

text \<open>\<open>Self::require_running_transition(&transition)?\<close> followed by the rest of the operation.\<close>

definition when_running :: "wal \<Rightarrow> 'a wal_step \<Rightarrow> 'a wal_step" where
  "when_running w k = (case require_running_transition (lifecycle w) of Inl e \<Rightarrow> (Inl e, w) | Inr _ \<Rightarrow> k)"

definition mark_transition_uncertain :: "wal \<Rightarrow> wal" where
  "mark_transition_uncertain w = w\<lparr>lifecycle := Failed, running := False\<rparr>"

definition publish_admitted_fields :: "nat \<Rightarrow> int \<Rightarrow> wal \<Rightarrow> wal" where
  "publish_admitted_fields l txn w =
     w\<lparr>current_lsn := l, wal_previous_lsn := l,
       transaction_high_water :=
         (if txn > 0 then max (transaction_high_water w) txn else transaction_high_water w)\<rparr>"

definition prepend_to_buffer :: "byte list \<Rightarrow> wal \<Rightarrow> wal" where
  "prepend_to_buffer bs w = w\<lparr>buffer := bs @ buffer w\<rparr>"

definition file_bytes :: "wal \<Rightarrow> byte list" where
  "file_bytes w = (case map_of (dir_files (wal_dir w)) (current_wal_file w) of Some bs \<Rightarrow> bs | None \<Rightarrow> [])"

definition append_file :: "byte list \<Rightarrow> wal \<Rightarrow> wal" where
  "append_file bs w =
     w\<lparr>wal_dir := (wal_dir w)\<lparr>dir_files :=
       AList.update (current_wal_file w) (file_bytes w @ bs) (dir_files (wal_dir w))\<rparr>\<rparr>"

text \<open>The write loop: on failure the error comes with the number of bytes that reached the file.\<close>

definition write_to_file :: "wal_io \<Rightarrow> byte list \<Rightarrow> wal \<Rightarrow> (log_error \<times> nat, unit) result \<times> wal" where
  "write_to_file io bs w =
     (if bs = [] then (Inr (), w)
      else if \<not> wal_file w then (Inl (WalFileClosed, 0), w)
      else case io_write io of
        None \<Rightarrow> (Inr (), append_file bs w)
      | Some n \<Rightarrow> if n < length bs then (Inl (WriteFailed, n), append_file (take n bs) w)
                  else (Inr (), append_file bs w))"

definition sync_locked :: "wal_io \<Rightarrow> wal \<Rightarrow> unit wal_step" where
  "sync_locked io w =
     (if \<not> wal_file w then (Inl WalFileClosed, w)
      else if \<not> io_sync io then (Inl SyncFailed, w)
      else (Inr (), w\<lparr>last_synced_file_position := current_file_position w,
                      last_sync_elapsed_nanos := min (io_elapsed io) u64_max\<rparr>))"

definition should_sync :: "wal_io \<Rightarrow> wal \<Rightarrow> wal_operation \<Rightarrow> bool" where
  "should_sync io w op =
     (case wal_sync_mode w of
        SyncNone \<Rightarrow> False
      | SyncNormal \<Rightarrow>
          if op = Commit \<or> is_ddl op then True
          else if op = Rollback then False
          else min (io_elapsed io) u64_max - last_sync_elapsed_nanos w \<ge> sync_interval_nanos w
      | SyncFull \<Rightarrow> True)"

definition flush_under_transition :: "wal_io \<Rightarrow> wal \<Rightarrow> unit wal_step" where
  "flush_under_transition io w =
     (if buffer w = [] then (Inr (), w)
      else let bs = buffer w in
      case write_to_file io bs (w\<lparr>buffer := []\<rparr>) of
        (Inr _, w') \<Rightarrow> (Inr (), w'\<lparr>current_file_position := current_file_position w' + length bs\<rparr>)
      | (Inl (e, n), w') \<Rightarrow>
          (Inl e, prepend_to_buffer (drop n bs) (w'\<lparr>current_file_position := current_file_position w' + n\<rparr>)))"

text \<open>\<open>flush_under_transition()?\<close>, then a \<open>sync_locked\<close> whose failure makes the state uncertain.\<close>

definition flush_and_sync :: "wal_io \<Rightarrow> wal \<Rightarrow> unit wal_step" where
  "flush_and_sync io w =
     (case flush_under_transition io w of
        (Inl e, w') \<Rightarrow> (Inl e, w')
      | (Inr _, w') \<Rightarrow>
          (case sync_locked io w' of
             (Inl _, w'') \<Rightarrow> (Inl WalDurabilityUncertain, mark_transition_uncertain w'')
           | (Inr _, w'') \<Rightarrow> (Inr (), w'')))"

definition flush :: "wal_io \<Rightarrow> wal \<Rightarrow> unit wal_step" where
  "flush io w = when_running w (flush_under_transition io w)"

definition wal_sync :: "wal_io \<Rightarrow> wal \<Rightarrow> unit wal_step" where
  "wal_sync io w = when_running w (flush_and_sync io w)"

section \<open>Appending\<close>

record prepared_entry =
  prep_lsn :: nat
  prep_txn_id :: int
  prep_operation :: wal_operation
  prep_encoded :: "byte list"

definition prepare_entry ::
  "(byte list \<Rightarrow> nat) \<Rightarrow> (byte list \<Rightarrow> byte list) \<Rightarrow> wal_entry \<Rightarrow> (log_error, prepared_entry) result" where
  "prepare_entry crc compress e =
     (case encode crc compress e of
        Inl err \<Rightarrow> Inl (RecordError err)
      | Inr bs \<Rightarrow> Inr \<lparr>prep_lsn = lsn e, prep_txn_id = txn_id e, prep_operation = operation e, prep_encoded = bs\<rparr>)"

definition force_flush :: "wal \<Rightarrow> wal_operation \<Rightarrow> bool" where
  "force_flush w op \<longleftrightarrow> wal_sync_mode w = SyncFull \<or>
     wal_sync_mode w = SyncNormal \<and> (is_transaction_end op \<or> is_ddl op)"

definition append_prepared_entry :: "wal_io \<Rightarrow> prepared_entry \<Rightarrow> wal \<Rightarrow> nat wal_step" where
  "append_prepared_entry io p w =
     (let record_start = length (buffer w); bs = buffer w @ prep_encoded p;
          publish = publish_admitted_fields (prep_lsn p) (prep_txn_id p)
      in if length bs \<ge> flush_trigger w \<or> force_flush w (prep_operation p) then
           (case write_to_file io bs (w\<lparr>buffer := []\<rparr>) of
              (Inr _, w1) \<Rightarrow>
                let w2 = publish (w1\<lparr>current_file_position := current_file_position w1 + length bs\<rparr>) in
                if should_sync io w2 (prep_operation p) then
                  (case sync_locked io w2 of
                     (Inl _, w3) \<Rightarrow> (Inl WalDurabilityUncertain, mark_transition_uncertain w3)
                   | (Inr _, w3) \<Rightarrow> (Inr (prep_lsn p), w3))
                else (Inr (prep_lsn p), w2)
            | (Inl (err, n), w1) \<Rightarrow>
                let w2 = w1\<lparr>current_file_position := current_file_position w1 + n\<rparr> in
                if n \<le> record_start then (Inl err, prepend_to_buffer (slice n record_start bs) w2)
                else (Inl WalDurabilityUncertain,
                      mark_transition_uncertain (publish (prepend_to_buffer (drop n bs) w2))))
         else (Inr (prep_lsn p), publish (w\<lparr>buffer := bs\<rparr>)))"

definition append_entry ::
  "(byte list \<Rightarrow> nat) \<Rightarrow> (byte list \<Rightarrow> byte list) \<Rightarrow> wal_io \<Rightarrow> wal_entry \<Rightarrow> wal \<Rightarrow> nat wal_step" where
  "append_entry crc compress io e w =
     when_running w
       (if txn_id e = i64_max then (Inl TransactionIdExhausted, w)
        else case observe_persisted_timestamp (timestamp e) w of
          (False, w1) \<Rightarrow> (Inl TimestampExhausted, w1)
        | (True, w1) \<Rightarrow>
            (case checked_add_u64 (current_lsn w1) 1 of
               None \<Rightarrow> (Inl LsnOverflow, w1)
             | Some next_lsn \<Rightarrow>
                 (case prepare_entry crc compress (e\<lparr>previous_lsn := wal_previous_lsn w1, lsn := next_lsn\<rparr>) of
                    Inl err \<Rightarrow> (Inl err, w1)
                  | Inr p \<Rightarrow> append_prepared_entry io p w1)))"

text \<open>The serial part of \<open>append_entries\<close>: checks and sequence numbers, in order.\<close>

fun assign_lsns :: "nat \<Rightarrow> nat \<Rightarrow> wal_entry list \<Rightarrow> wal \<Rightarrow> wal_entry list wal_step" where
  "assign_lsns l previous [] w = (Inr [], w)"
| "assign_lsns l previous (e # es) w =
     (if txn_id e = i64_max then (Inl TransactionIdExhausted, w)
      else case observe_persisted_timestamp (timestamp e) w of
        (False, w1) \<Rightarrow> (Inl TimestampExhausted, w1)
      | (True, w1) \<Rightarrow>
          (case checked_add_u64 l 1 of
             None \<Rightarrow> (Inl LsnOverflow, w1)
           | Some next_lsn \<Rightarrow>
               (case assign_lsns next_lsn next_lsn es w1 of
                  (Inl err, w2) \<Rightarrow> (Inl err, w2)
                | (Inr es', w2) \<Rightarrow> (Inr (e\<lparr>previous_lsn := previous, lsn := next_lsn\<rparr> # es'), w2))))"

definition prepare_entries ::
  "(byte list \<Rightarrow> nat) \<Rightarrow> (byte list \<Rightarrow> byte list) \<Rightarrow> wal_entry list \<Rightarrow> (log_error, prepared_entry list) result" where
  "prepare_entries crc compress es = map_res (prepare_entry crc compress) es"

text \<open>One \<open>wal_io\<close> per record, by its index in the batch.\<close>

fun append_prepared_entries :: "(nat \<Rightarrow> wal_io) \<Rightarrow> prepared_entry list \<Rightarrow> wal \<Rightarrow> nat list wal_step" where
  "append_prepared_entries ios [] w = (Inr [], w)"
| "append_prepared_entries ios (p # ps) w =
     (case append_prepared_entry (ios 0) p w of
        (Inl err, w1) \<Rightarrow> (Inl err, w1)
      | (Inr l, w1) \<Rightarrow>
          (case append_prepared_entries (\<lambda>n. ios (Suc n)) ps w1 of
             (Inl err, w2) \<Rightarrow> (Inl err, w2)
           | (Inr ls, w2) \<Rightarrow> (Inr (l # ls), w2)))"

definition append_entries ::
  "(byte list \<Rightarrow> nat) \<Rightarrow> (byte list \<Rightarrow> byte list) \<Rightarrow> (nat \<Rightarrow> wal_io) \<Rightarrow> wal_entry list \<Rightarrow> wal \<Rightarrow> nat list wal_step" where
  "append_entries crc compress ios es w =
     (if es = [] then (Inr [], w)
      else when_running w
        (case assign_lsns (current_lsn w) (wal_previous_lsn w) es w of
           (Inl err, w1) \<Rightarrow> (Inl err, w1)
         | (Inr es', w1) \<Rightarrow>
             (case prepare_entries crc compress es' of
                Inl err \<Rightarrow> (Inl err, w1)
              | Inr ps \<Rightarrow> append_prepared_entries ios ps w1)))"

definition write_commit_marker ::
  "(byte list \<Rightarrow> nat) \<Rightarrow> (byte list \<Rightarrow> byte list) \<Rightarrow> wal_io \<Rightarrow> int \<Rightarrow> int \<Rightarrow> wal \<Rightarrow> nat wal_step" where
  "write_commit_marker crc compress io now txn w = append_entry crc compress io (commit_entry now txn) w"

definition write_abort_marker ::
  "(byte list \<Rightarrow> nat) \<Rightarrow> (byte list \<Rightarrow> byte list) \<Rightarrow> wal_io \<Rightarrow> int \<Rightarrow> int \<Rightarrow> wal \<Rightarrow> nat wal_step" where
  "write_abort_marker crc compress io now txn w = append_entry crc compress io (rollback_entry now txn) w"

section \<open>Rotation\<close>

definition replay_floor_generation :: "wal \<Rightarrow> nat" where
  "replay_floor_generation w = fst (replay_floor w)"

definition replay_floor_lsn :: "wal \<Rightarrow> nat" where
  "replay_floor_lsn w = snd (replay_floor w)"

definition current_start_lsn :: "wal \<Rightarrow> nat" where
  "current_start_lsn w =
     (if validated_closed_generations w = [] then replay_floor_lsn w
      else gen_end_lsn (last (validated_closed_generations w)))"

definition create_file :: "string \<Rightarrow> wal \<Rightarrow> wal" where
  "create_file name w = w\<lparr>wal_dir := (wal_dir w)\<lparr>dir_files := AList.update name [] (dir_files (wal_dir w))\<rparr>\<rparr>"

definition delete_file :: "string \<Rightarrow> wal \<Rightarrow> wal" where
  "delete_file name w = w\<lparr>wal_dir := (wal_dir w)\<lparr>dir_files := AList.delete name (dir_files (wal_dir w))\<rparr>\<rparr>"

text \<open>The clean-up after a failed publication of the new file: remove it, or give up as uncertain.\<close>

definition abandon_rotation :: "wal_io \<Rightarrow> string \<Rightarrow> wal \<Rightarrow> unit wal_step" where
  "abandon_rotation io name w =
     (if io_remove io then (Inl SyncFailed, delete_file name w)
      else (Inl WalDurabilityUncertain, mark_transition_uncertain w))"

definition rotate_wal_under_transition ::
  "(byte list \<Rightarrow> nat) \<Rightarrow> (byte list \<Rightarrow> byte list option) \<Rightarrow> wal_io \<Rightarrow> wal \<Rightarrow> unit wal_step" where
  "rotate_wal_under_transition crc decompress io w =
     (case validate_generation crc decompress (dir_files (wal_dir w)) (current_wal_file w) (wal_sequence w)
             (current_start_lsn w) of
        Inl e \<Rightarrow> (Inl e, w)
      | Inr closed \<Rightarrow>
          if gen_name closed \<noteq> current_wal_file w \<or> gen_end_lsn closed \<noteq> current_lsn w
          then (Inl (EndLsnMismatch (gen_end_lsn closed) (current_lsn w)), w)
          else case checked_add_u64 (wal_sequence w) 1 of
            None \<Rightarrow> (Inl GenerationExhausted, w)
          | Some new_sequence \<Rightarrow>
              let name = canonical_filename new_sequence in
              if \<not> io_create io \<or> map_of (dir_files (wal_dir w)) name \<noteq> None then (Inl (CreateFailed name), w)
              else let w1 = create_file name w in
              if \<not> io_new_sync io then abandon_rotation io name w1
              else if \<not> io_dir_sync io then abandon_rotation io name w1
              else (Inr (), w1\<lparr>wal_file := True, current_wal_file := name, current_file_position := 0,
                              last_synced_file_position := 0, wal_sequence := new_sequence,
                              validated_closed_generations := validated_closed_generations w1 @ [closed]\<rparr>))"

definition maybe_rotate ::
  "(byte list \<Rightarrow> nat) \<Rightarrow> (byte list \<Rightarrow> byte list option) \<Rightarrow> wal_io \<Rightarrow> wal \<Rightarrow> bool wal_step" where
  "maybe_rotate crc decompress io w =
     when_running w
       (if current_file_position w < max_wal_size w then (Inr False, w)
        else case flush_and_sync io w of
          (Inl e, w1) \<Rightarrow> (Inl e, w1)
        | (Inr _, w1) \<Rightarrow>
            (case rotate_wal_under_transition crc decompress io w1 of
               (Inl e, w2) \<Rightarrow> (Inl e, w2)
             | (Inr _, w2) \<Rightarrow> (Inr True, w2)))"

definition pending_durability_bytes :: "wal \<Rightarrow> nat" where
  "pending_durability_bytes w =
     saturating_add_u64 (current_file_position w - last_synced_file_position w) (length (buffer w))"

section \<open>Checkpoints\<close>

definition create_checkpoint :: "wal_io \<Rightarrow> wal \<Rightarrow> nat wal_step" where
  "create_checkpoint io w =
     (if lifecycle w = Closing \<or> lifecycle w = Closed then (Inl WalNotRunning, w)
      else case flush_and_sync io w of
        (Inl e, w1) \<Rightarrow> (Inl e, w1)
      | (Inr _, w1) \<Rightarrow>
          let w2 = (if lifecycle w1 = Failed then w1\<lparr>lifecycle := Running, running := True\<rparr> else w1)
          in (Inr (current_lsn w2), w2\<lparr>last_checkpoint := current_lsn w2\<rparr>))"

definition prepare_checkpoint_retention ::
  "(byte list \<Rightarrow> nat) \<Rightarrow> (byte list \<Rightarrow> byte list option) \<Rightarrow> wal_io \<Rightarrow> nat \<Rightarrow> wal \<Rightarrow> nat wal_step" where
  "prepare_checkpoint_retention crc decompress io up_to w =
     when_running w
       (if up_to = 0 then (Inl ZeroCheckpoint, w)
        else if up_to > current_lsn w \<or> up_to > last_checkpoint w
        then (Inl (RetentionNotOwned up_to (last_checkpoint w) (current_lsn w)), w)
        else case flush_and_sync io w of
          (Inl e, w1) \<Rightarrow> (Inl e, w1)
        | (Inr _, w1) \<Rightarrow>
            if current_file_position w1 > 0 \<and> current_lsn w \<le> up_to then
              (case rotate_wal_under_transition crc decompress io w1 of
                 (Inl e, w2) \<Rightarrow> (Inl e, w2)
               | (Inr _, w2) \<Rightarrow> (Inr (wal_sequence w2), w2))
            else (Inr (wal_sequence w1), w1))"

definition confirm_checkpoint_publication :: "nat \<times> nat \<Rightarrow> nat list \<Rightarrow> wal \<Rightarrow> wal" where
  "confirm_checkpoint_publication floor retired w =
     (let w1 = w\<lparr>replay_floor := floor\<rparr> in
      if retired = [] then w1
      else w1\<lparr>validated_closed_generations :=
             filter (\<lambda>g. gen_sequence g \<notin> set retired) (validated_closed_generations w1)\<rparr>)"

definition freeze_snapshot_generations ::
  "(byte list \<Rightarrow> nat) \<Rightarrow> (byte list \<Rightarrow> byte list option) \<Rightarrow> wal_io \<Rightarrow> nat \<times> nat \<Rightarrow> wal \<Rightarrow> wal_generation list wal_step" where
  "freeze_snapshot_generations crc decompress io floor w =
     when_running w
       (if floor \<noteq> replay_floor w then (Inl SnapshotFloorDiffers, w)
        else case flush_and_sync io w of
          (Inl e, w1) \<Rightarrow> (Inl e, w1)
        | (Inr _, w1) \<Rightarrow>
            let last_generation = wal_sequence w1 in
            (case rotate_wal_under_transition crc decompress io w1 of
               (Inl e, w2) \<Rightarrow> (Inl e, w2)
             | (Inr _, w2) \<Rightarrow>
                 let selected = filter (\<lambda>g. fst floor \<le> gen_sequence g \<and> gen_sequence g \<le> last_generation)
                                  (validated_closed_generations w2)
                 in if last_generation < fst floor \<or> length selected \<noteq> last_generation - fst floor + 1 \<or>
                       map gen_sequence selected \<noteq> map (\<lambda>i. fst floor + i) [0..<length selected]
                    then (Inl SnapshotNotContiguous, w2)
                    else (Inr selected, w2)))"

section \<open>Closing\<close>

definition begin_close :: "wal \<Rightarrow> bool wal_step" where
  "begin_close w =
     (case lifecycle w of
        Closed \<Rightarrow> (Inr True, w)
      | Closing \<Rightarrow> (Inl CloseInProgress, w)
      | _ \<Rightarrow> (Inr False, w\<lparr>lifecycle := Closing, running := False\<rparr>))"

definition finish_close :: "wal_io \<Rightarrow> wal \<Rightarrow> unit wal_step" where
  "finish_close io w =
     (case flush_under_transition io w of
        (Inl _, w1) \<Rightarrow> (Inl WalDurabilityUncertain, w1\<lparr>lifecycle := Failed\<rparr>)
      | (Inr _, w1) \<Rightarrow>
          (case sync_locked io w1 of
             (Inl _, w2) \<Rightarrow> (Inl WalDurabilityUncertain, mark_transition_uncertain w2)
           | (Inr _, w2) \<Rightarrow> (Inr (), w2\<lparr>wal_file := False, lifecycle := Closed\<rparr>)))"

section \<open>Opening\<close>

record wal_config =
  cfg_sync_interval_ms :: nat
  cfg_wal_flush_trigger :: nat
  cfg_wal_max_size :: nat

definition DEFAULT_WAL_MAX_SIZE :: nat where
  "DEFAULT_WAL_MAX_SIZE = 64 * 1024 * 1024"

definition DEFAULT_WAL_FLUSH_TRIGGER :: nat where
  "DEFAULT_WAL_FLUSH_TRIGGER = 32 * 1024"

definition with_replay_floor ::
  "(byte list \<Rightarrow> nat) \<Rightarrow> (byte list \<Rightarrow> byte list option) \<Rightarrow> wal_io \<Rightarrow> wal_directory \<Rightarrow> sync_mode \<Rightarrow> wal_config option \<Rightarrow>
   nat \<times> nat \<Rightarrow> int \<Rightarrow> (log_error, wal) result" where
  "with_replay_floor crc decompress io dir mode config floor ts =
     rbind (collect_validated_generations crc decompress dir (fst floor) (snd floor)) (\<lambda>gens.
     rbind (validate_required_generation_suffix gens (snd floor)) (\<lambda>_.
     let sequence = (if gens = [] then fst floor else Max (set (map gen_sequence gens)));
         initial_lsn = (if gens = [] then snd floor else gen_end_lsn (last gens));
         name = (if gens = [] then canonical_filename (fst floor) else gen_name (last gens))
     in rbind (if gens \<noteq> [] then Inr dir
               else if \<not> io_create io \<or> map_of (dir_files dir) name \<noteq> None then Inl (CreateFailed name)
               else if \<not> io_dir_sync io then Inl SyncFailed
               else Inr (dir\<lparr>dir_files := AList.update name [] (dir_files dir)\<rparr>)) (\<lambda>dir'.
        if snd floor > initial_lsn then Inl (CheckpointAhead (snd floor) initial_lsn)
        else let pos = (case map_of (dir_files dir') name of Some bs \<Rightarrow> length bs | None \<Rightarrow> 0) in
        Inr \<lparr>wal_dir = dir', wal_file = True, current_wal_file = name, current_lsn = initial_lsn,
             wal_previous_lsn = initial_lsn, buffer = [],
             flush_trigger = (case config of Some c \<Rightarrow> cfg_wal_flush_trigger c | None \<Rightarrow> DEFAULT_WAL_FLUSH_TRIGGER),
             max_wal_size = (case config of Some c \<Rightarrow> cfg_wal_max_size c | None \<Rightarrow> DEFAULT_WAL_MAX_SIZE),
             last_checkpoint = snd floor, transaction_high_water = 0, wal_sync_mode = mode, running = True,
             lifecycle = Running, last_sync_elapsed_nanos = 0,
             sync_interval_nanos = (case config of Some c \<Rightarrow> saturating_mul_u64 (cfg_sync_interval_ms c) 1000000 | None \<Rightarrow> 10000000),
             current_file_position = pos, last_synced_file_position = pos, wal_sequence = sequence,
             replay_floor = floor, validated_closed_generations = butlast gens, last_timestamp = ts\<rparr>)))"

end
