(* ===== verification/Wal_Durability.thy ===== *)
theory Wal_Durability
  imports Wal_Manager
begin

text \<open>
  What the log manager keeps: in every state, whatever writes and syncs failed, the bytes in the files and in the
  buffer are exactly the records of the admitted entries, chained from the first retained generation to the
  current sequence number. Then what a crash can do to it: an acknowledged commit survives every crash after
  which the log opens at all, and the checkpoint cycle hands the opener a floor it accepts.
\<close>

section \<open>Bytes in the file and in the buffer\<close>

lemma update_same: "map_of xs k = Some v \<Longrightarrow> AList.update k v xs = xs"
  by (induction xs) auto

text \<open>Moving the first \<open>n\<close> buffered bytes to the file: the effect of every write, complete or not.\<close>

definition move :: "nat \<Rightarrow> wal \<Rightarrow> wal" where
  "move n w = (append_file (take n (buffer w)) w)\<lparr>buffer := drop n (buffer w),
     current_file_position := current_file_position w + n\<rparr>"

definition has_file :: "wal \<Rightarrow> bool" where
  "has_file w \<longleftrightarrow> map_of (dir_files (wal_dir w)) (current_wal_file w) \<noteq> None"

lemma has_file_update [simp]:
  "has_file (w\<lparr>buffer := b\<rparr>) = has_file w" "has_file (append_file bs w)"
  by (simp_all add: has_file_def append_file_def)

lemma append_file_Nil [simp]: "has_file w \<Longrightarrow> append_file [] w = w"
  by (auto simp: has_file_def append_file_def file_bytes_def update_same)

lemma move_0 [simp]: "has_file w \<Longrightarrow> move 0 w = w"
  by (simp add: move_def)

lemma append_file_buffer [simp]: "append_file bs (w\<lparr>buffer := b\<rparr>) = (append_file bs w)\<lparr>buffer := b\<rparr>"
  by (simp add: append_file_def file_bytes_def)

lemma append_file_fields [simp]:
  "buffer (append_file bs w) = buffer w" "current_file_position (append_file bs w) = current_file_position w"
  "file_bytes (append_file bs w) = file_bytes w @ bs"
  by (simp_all add: append_file_def file_bytes_def)

lemma file_bytes_update [simp]:
  "file_bytes (w\<lparr>buffer := b\<rparr>) = file_bytes w" "file_bytes (w\<lparr>current_file_position := n\<rparr>) = file_bytes w"
  by (simp_all add: file_bytes_def)

lemma move_bytes [simp]:
  "file_bytes (move n w) = file_bytes w @ take n (buffer w)" "buffer (move n w) = drop n (buffer w)"
  "current_file_position (move n w) = current_file_position w + n"
  by (simp_all add: move_def)

lemma write_to_file_ok:
  assumes "has_file w" "write_to_file io (buffer w) (w\<lparr>buffer := []\<rparr>) = (Inr u, w')"
  shows "w'\<lparr>current_file_position := current_file_position w' + length (buffer w)\<rparr> = move (length (buffer w)) w"
proof -
  have "w' = append_file (buffer w) (w\<lparr>buffer := []\<rparr>)"
    using assms by (auto simp: write_to_file_def split: if_splits option.splits simp del: append_file_buffer)
  then show ?thesis by (simp add: move_def)
qed

lemma write_to_file_error:
  assumes "has_file w" "write_to_file io (buffer w) (w\<lparr>buffer := []\<rparr>) = (Inl (err, n), w')"
  shows "n < length (buffer w)" "prepend_to_buffer (drop n (buffer w)) (w'\<lparr>current_file_position := current_file_position w' + n\<rparr>) = move n w"
proof -
  have n: "n < length (buffer w) \<and> w' = append_file (take n (buffer w)) (w\<lparr>buffer := []\<rparr>)"
    using assms by (auto simp: write_to_file_def split: if_splits option.splits simp del: append_file_buffer)
  then show "n < length (buffer w)" by simp
  show "prepend_to_buffer (drop n (buffer w)) (w'\<lparr>current_file_position := current_file_position w' + n\<rparr>) = move n w"
    unfolding conjunct2 [OF n] by (simp add: move_def prepend_to_buffer_def)
qed

lemma flush_cases:
  assumes "has_file w" "flush_under_transition io w = (r, w')"
  obtains n where "n \<le> length (buffer w)" "w' = move n w" "r = Inr () \<longrightarrow> n = length (buffer w)"
proof (cases "buffer w = []")
  case True
  then have "w' = w" using assms(2) by (simp add: flush_under_transition_def)
  then show ?thesis using that [of 0] move_0 [OF assms(1)] True by simp
next
  case False
  obtain r1 w1 where w1: "write_to_file io (buffer w) (w\<lparr>buffer := []\<rparr>) = (r1, w1)" by (rule prod.exhaust)
  show ?thesis
  proof (cases r1)
    case (Inl x)
    then obtain err n where x: "r1 = Inl (err, n)" by (cases x) simp
    note n = write_to_file_error [OF assms(1) w1 [unfolded x]]
    have "r = Inl err" "w' = move n w"
      using assms(2) w1 False x n(2) by (simp_all add: flush_under_transition_def Let_def)
    then show ?thesis using that [of n] n(1) by simp
  next
    case (Inr u)
    note m = write_to_file_ok [OF assms(1) w1 [unfolded Inr]]
    have "w' = move (length (buffer w)) w"
      using assms(2) w1 False Inr m by (simp add: flush_under_transition_def Let_def)
    then show ?thesis using that [of "length (buffer w)"] by simp
  qed
qed

section \<open>The effect of an append\<close>

text \<open>
  \<open>settled x w\<close>: the state \<open>w\<close> is \<open>x\<close>, or \<open>x\<close> marked as uncertain, or \<open>x\<close> after a successful sync.
\<close>

definition settled :: "wal \<Rightarrow> wal \<Rightarrow> bool" where
  "settled x w \<longleftrightarrow> w = x \<or> w = mark_transition_uncertain x \<or> (\<exists>io. sync_locked io x = (Inr (), w))"

definition with_record :: "prepared_entry \<Rightarrow> wal \<Rightarrow> wal" where
  "with_record p w = w\<lparr>buffer := buffer w @ prep_encoded p\<rparr>"

definition publish_record :: "prepared_entry \<Rightarrow> wal \<Rightarrow> wal" where
  "publish_record p w = publish_admitted_fields (prep_lsn p) (prep_txn_id p) w"

lemma with_record_simps [simp]:
  "buffer (with_record p w) = buffer w @ prep_encoded p" "has_file (with_record p w) = has_file w"
  "(with_record p w)\<lparr>buffer := b\<rparr> = w\<lparr>buffer := b\<rparr>"
  by (simp_all add: with_record_def)

lemma move_with_record:
  "n \<le> length (buffer w) \<Longrightarrow> move n (with_record p w) = (move n w)\<lparr>buffer := drop n (buffer w) @ prep_encoded p\<rparr>"
  by (simp add: move_def with_record_def)

lemma publish_record_simps [simp]:
  "buffer (publish_record p w) = buffer w" "current_file_position (publish_record p w) = current_file_position w"
  "file_bytes (publish_record p w) = file_bytes w" "wal_sync_mode (publish_record p w) = wal_sync_mode w"
  by (simp_all add: publish_record_def publish_admitted_fields_def file_bytes_def)

lemma sync_locked_ok:
  assumes "sync_locked io w = (Inr u, w')"
  shows "last_synced_file_position w' = current_file_position w" "buffer w' = buffer w"
    "current_file_position w' = current_file_position w"
  using assms by (auto simp: sync_locked_def split: if_splits)

lemma sync_locked_error: "sync_locked io w = (Inl e, w') \<Longrightarrow> w' = w"
  by (auto simp: sync_locked_def split: if_splits)

lemma append_prepared_cases:
  assumes "has_file w" "append_prepared_entry io p w = (r, w')"
  obtains (rejected) n err where "n \<le> length (buffer w)" "r = Inl err" "w' = move n w"
  | (admitted) n where "n \<le> length (buffer w @ prep_encoded p)"
      "settled (publish_record p (move n (with_record p w))) w'"
      "r = Inr (prep_lsn p) \<or> r = Inl WalDurabilityUncertain \<and> lifecycle w' = Failed"
      "r = Inr (prep_lsn p) \<Longrightarrow> force_flush w (prep_operation p) \<Longrightarrow>
       should_sync io (publish_record p (move n (with_record p w))) (prep_operation p) \<Longrightarrow>
       buffer w' = [] \<and> last_synced_file_position w' = current_file_position w'"
proof (cases "length (buffer w @ prep_encoded p) \<ge> flush_trigger w \<or> force_flush w (prep_operation p)")
  case False
  then have "r = Inr (prep_lsn p)" "w' = publish_record p (with_record p w)"
    using assms(2) by (simp_all add: append_prepared_entry_def Let_def publish_record_def with_record_def)
  then show ?thesis
    using admitted [of 0] assms(1) False by (simp add: settled_def)
next
  case True
  let ?x = "with_record p w"
  have f: "has_file ?x" using assms(1) by simp
  obtain r1 w1 where w1: "write_to_file io (buffer ?x) (?x\<lparr>buffer := []\<rparr>) = (r1, w1)" by (rule prod.exhaust)
  show ?thesis
  proof (cases r1)
    case (Inl y)
    then obtain err n where y: "r1 = Inl (err, n)" by (cases y) simp
    note n = write_to_file_error [OF f w1 [unfolded y]]
    have w1': "write_to_file io (buffer w @ prep_encoded p) (w\<lparr>buffer := []\<rparr>) = (Inl (err, n), w1)"
      using w1 y by simp
    let ?w2 = "w1\<lparr>current_file_position := current_file_position w1 + n\<rparr>"
    show ?thesis
    proof (cases "n \<le> length (buffer w)")
      case le: True
      have e: "r = Inl err" "w' = prepend_to_buffer (slice n (length (buffer w)) (buffer w @ prep_encoded p)) ?w2"
        using assms(2) True le unfolding append_prepared_entry_def Let_def w1' by auto
      have b: "buffer w1 = []" using w1' by (auto simp: write_to_file_def split: if_splits option.splits)
      have s: "slice n (length (buffer w)) (buffer w @ prep_encoded p) = drop n (buffer w)"
        using le by (simp add: slice_def)
      have "w' = (prepend_to_buffer (drop n (buffer ?x)) ?w2)\<lparr>buffer := drop n (buffer w)\<rparr>"
        unfolding e(2) s prepend_to_buffer_def using b by simp
      also have "\<dots> = move n w" unfolding n(2) move_with_record [OF le] by (simp add: move_def)
      finally show ?thesis using rejected [OF le e(1)] by simp
    next
      case gt: False
      have e: "r = Inl WalDurabilityUncertain" "w' = mark_transition_uncertain (publish_record p (move n ?x))"
        using assms(2) True gt n(2) unfolding append_prepared_entry_def Let_def w1' publish_record_def by auto
      show ?thesis using admitted [of n] e n(1) by (simp add: settled_def mark_transition_uncertain_def)
    qed
  next
    case (Inr u)
    let ?n = "length (buffer ?x)"
    let ?y = "publish_record p (move ?n ?x)"
    note m = write_to_file_ok [OF f w1 [unfolded Inr]]
    have w1': "write_to_file io (buffer ?x) (w\<lparr>buffer := []\<rparr>) = (Inr u, w1)"
      using w1 Inr by (simp only: with_record_simps(3))
    have body: "(if should_sync io ?y (prep_operation p) then
          (case sync_locked io ?y of (Inl _, w3) \<Rightarrow> (Inl WalDurabilityUncertain, mark_transition_uncertain w3)
           | (Inr _, w3) \<Rightarrow> (Inr (prep_lsn p), w3))
        else (Inr (prep_lsn p), ?y)) = (r, w')"
      using assms(2) True
      unfolding append_prepared_entry_def Let_def publish_record_def [symmetric] with_record_simps(1) [symmetric]
      by (simp only: if_True w1' prod.case sum.case m)
    show ?thesis
    proof (cases "should_sync io ?y (prep_operation p)")
      case False
      then show ?thesis using body admitted [of ?n] by (simp add: settled_def)
    next
      case sync: True
      obtain r3 w3 where w3: "sync_locked io ?y = (r3, w3)" by (rule prod.exhaust)
      show ?thesis
      proof (cases r3)
        case (Inl e)
        then have "w3 = ?y" using sync_locked_error w3 by blast
        then have "r = Inl WalDurabilityUncertain" "w' = mark_transition_uncertain ?y"
          using body sync w3 Inl by simp_all
        then show ?thesis using admitted [of ?n] by (simp add: settled_def mark_transition_uncertain_def)
      next
        case (Inr v)
        have "r = Inr (prep_lsn p)" "w' = w3" using body sync w3 Inr by simp_all
        moreover have "sync_locked io ?y = (Inr (), w3)" using w3 Inr by simp
        ultimately show ?thesis using admitted [of ?n] sync_locked_ok [OF w3 [unfolded Inr]]
          by (auto simp: settled_def)
      qed
    qed
  qed
qed

section \<open>The invariant\<close>

definition first_generation :: "wal \<Rightarrow> nat" where
  "first_generation w = wal_sequence w - length (validated_closed_generations w)"

text \<open>
  \<open>wal_inv p ls es w\<close>: \<open>ls\<close> are the entries of the closed generations and \<open>es\<close> the entries admitted to the current one;
  together they are a chain from position \<open>p\<close> to the current sequence number, the closed files hold the
  records of \<open>ls\<close>, the current file and the buffer hold the records of \<open>es\<close>, and the replay floor is the
  start of a retained generation. After a rotation that could neither publish its new file nor remove it,
  one empty file of the next generation is left behind.
\<close>

definition floor_ok :: "nat \<Rightarrow> wal_entry list list \<Rightarrow> wal \<Rightarrow> bool" where
  "floor_ok p ls w \<longleftrightarrow>
     (\<exists>k \<le> length ls. replay_floor w = (first_generation w + k, last_lsn p (concat (take k ls))))"

definition wal_inv ::
  "(byte list \<Rightarrow> nat) \<Rightarrow> (byte list \<Rightarrow> byte list) \<Rightarrow> nat \<Rightarrow> wal_entry list list \<Rightarrow> wal_entry list \<Rightarrow> wal \<Rightarrow> bool" where
  "wal_inv crc compress p ls es w \<longleftrightarrow>
     length ls < wal_sequence w \<and>
     validated_closed_generations w = generations_of crc compress (first_generation w) p ls \<and>
     current_wal_file w = canonical_filename (wal_sequence w) \<and>
     (\<exists>orphan \<in> {[], [[]]}.
        dir_files_from (first_generation w) (map (log_bytes crc compress) ls @ file_bytes w # orphan) (wal_dir w)) \<and>
     file_bytes w @ buffer w = log_bytes crc compress es \<and>
     chained p (concat ls @ es) \<and> last_lsn p (concat ls @ es) = current_lsn w \<and> wal_previous_lsn w = current_lsn w \<and>
     (\<forall>l \<in> set (es # ls). log_ok crc compress l) \<and>
     current_file_position w = length (file_bytes w) \<and> last_synced_file_position w \<le> current_file_position w \<and>
     floor_ok p ls w"

lemma length_generations_of [simp]: "length (generations_of crc compress g p ls) = length ls"
  by (induction ls arbitrary: g p) auto

lemma wal_invD:
  assumes "wal_inv crc compress p ls es w"
  shows "length ls < wal_sequence w" "first_generation w + length ls = wal_sequence w" "0 < first_generation w"
    "wal_sequence w + 1 < 2 ^ 64" "has_file w"
    "map_of (dir_files (wal_dir w)) (current_wal_file w) = Some (file_bytes w)"
proof -
  have c: "validated_closed_generations w = generations_of crc compress (first_generation w) p ls"
    "length ls < wal_sequence w" "current_wal_file w = canonical_filename (wal_sequence w)"
    and "\<exists>orphan \<in> {[], [[]]}.
        dir_files_from (first_generation w) (map (log_bytes crc compress) ls @ file_bytes w # orphan) (wal_dir w)"
    using assms unfolding wal_inv_def by blast+
  then obtain orphan where
    d: "dir_files_from (first_generation w) (map (log_bytes crc compress) ls @ file_bytes w # orphan) (wal_dir w)" by blast
  have len: "length (validated_closed_generations w) = length ls" unfolding c(1) by simp
  show l: "length ls < wal_sequence w" by (rule c(2))
  show g: "first_generation w + length ls = wal_sequence w" "0 < first_generation w"
    using l len by (simp_all add: first_generation_def)
  show s: "wal_sequence w + 1 < 2 ^ 64" using d g by (simp add: dir_files_from_def)
  have "map_of (dir_files (wal_dir w)) (canonical_filename h) = Some ((map (log_bytes crc compress) ls @ file_bytes w # orphan) ! (h - first_generation w))"
    if "first_generation w \<le> h" "h < first_generation w + Suc (length ls)" for h
    using d that s g by (simp add: dir_files_from_def)
  moreover have "wal_sequence w - first_generation w = length ls" using g(1) by linarith
  ultimately have "map_of (dir_files (wal_dir w)) (canonical_filename (wal_sequence w)) =
      Some ((map (log_bytes crc compress) ls @ file_bytes w # orphan) ! length ls)"
    using g(1) by (metis add_Suc_right le_add1 lessI)
  then show "map_of (dir_files (wal_dir w)) (current_wal_file w) = Some (file_bytes w)"
    unfolding c(3) by (simp add: nth_append)
  then show "has_file w" by (simp add: has_file_def)
qed

text \<open>The fields that the invariant does not read.\<close>

definition same_log :: "wal \<Rightarrow> wal \<Rightarrow> bool" where
  "same_log w w' \<longleftrightarrow> wal_dir w' = wal_dir w \<and> current_wal_file w' = current_wal_file w \<and> current_lsn w' = current_lsn w \<and>
     wal_previous_lsn w' = wal_previous_lsn w \<and> buffer w' = buffer w \<and> current_file_position w' = current_file_position w \<and>
     wal_sequence w' = wal_sequence w \<and> replay_floor w' = replay_floor w \<and>
     validated_closed_generations w' = validated_closed_generations w \<and>
     last_synced_file_position w \<le> last_synced_file_position w' \<and>
     last_synced_file_position w' \<le> max (last_synced_file_position w) (current_file_position w)"

lemma same_log_inv: "same_log w w' \<Longrightarrow> wal_inv crc compress p ls es w \<Longrightarrow> wal_inv crc compress p ls es w'"
  unfolding wal_inv_def floor_ok_def first_generation_def file_bytes_def same_log_def by auto

lemma same_log_refl [simp]: "same_log w w"
  by (simp add: same_log_def)

lemma same_log_status:
  "same_log w (mark_transition_uncertain w)" "same_log w (snd (observe_persisted_timestamp ts w))"
  "same_log w (w\<lparr>lifecycle := a, running := b\<rparr>)" "same_log w (w\<lparr>last_checkpoint := n\<rparr>)"
  "same_log w (w\<lparr>lifecycle := a\<rparr>)" "same_log w (w\<lparr>wal_file := f, lifecycle := a\<rparr>)"
  by (auto simp: same_log_def mark_transition_uncertain_def observe_persisted_timestamp_def)

lemma same_log_sync:
  "wal_inv crc compress p ls es w \<Longrightarrow> sync_locked io w = (r, w') \<Longrightarrow> same_log w w'"
  by (auto simp: wal_inv_def same_log_def sync_locked_def split: if_splits)

lemma settled_same_log: "wal_inv crc compress p ls es w \<Longrightarrow> settled w w' \<Longrightarrow> same_log w w'"
  using same_log_status(1) same_log_sync by (auto simp: settled_def)

lemma update_keys: "fst ` set (AList.update k v xs) = insert k (fst ` set xs)"
  using dom_update [of k v xs] by (simp add: dom_map_of_conv_image_fst)

text \<open>Writing the file of generation \<open>g + i\<close>, an existing one or the next one.\<close>

lemma dir_files_from_update:
  assumes "dir_files_from g cs dir" "i \<le> length cs" "g + i + 1 < 2 ^ 64"
  shows "dir_files_from g (take i cs @ c # drop (Suc i) cs)
    (dir\<lparr>dir_files := AList.update (canonical_filename (g + i)) c (dir_files dir)\<rparr>)"
proof -
  let ?cs = "take i cs @ c # drop (Suc i) cs"
  have g: "0 < g" "g + length cs < 2 ^ 64" using assms(1) by (simp_all add: dir_files_from_def)
  have files: "map_of (AList.update (canonical_filename (g + i)) c (dir_files dir)) (canonical_filename h) =
      (if h < g + length ?cs then Some (?cs ! (h - g)) else None)" if h: "g \<le> h" "h < 2 ^ 64" for h
  proof -
    have "map_of (dir_files dir) (canonical_filename h) = (if h < g + length cs then Some (cs ! (h - g)) else None)"
      using assms(1) h by (simp add: dir_files_from_def)
    moreover have "canonical_filename h = canonical_filename (g + i) \<longleftrightarrow> h = g + i"
      using h g assms(3) by (intro canonical_filename_inj) auto
    moreover obtain k where k: "h = g + k" using h(1) le_Suc_ex by blast
    ultimately show ?thesis
      using assms(2) by (auto simp: nth_append nth_Cons' min_def)
  qed
  have "\<forall>name \<in> fst ` set (AList.update (canonical_filename (g + i)) c (dir_files dir)).
      \<exists>h. 0 < h \<and> h < 2 ^ 64 \<and> name = canonical_filename h"
    using assms(1,3) g unfolding dir_files_from_def by (auto simp: update_keys intro!: exI [of _ "g + i"])
  moreover have "g + length ?cs < 2 ^ 64" using g assms(2,3) by simp
  ultimately show ?thesis
    using assms(1) files unfolding dir_files_from_def by (simp add: distinct_update)
qed

lemma move_inv:
  assumes "wal_inv crc compress p ls es w" "n \<le> length (buffer w)"
  shows "wal_inv crc compress p ls es (move n w)"
proof -
  have f: "wal_sequence (move n w) = wal_sequence w" "validated_closed_generations (move n w) = validated_closed_generations w"
    "current_wal_file (move n w) = current_wal_file w" "current_lsn (move n w) = current_lsn w"
    "wal_previous_lsn (move n w) = wal_previous_lsn w" "replay_floor (move n w) = replay_floor w"
    "last_synced_file_position (move n w) = last_synced_file_position w"
    "wal_dir (move n w) = (wal_dir w)\<lparr>dir_files := AList.update (current_wal_file w) (file_bytes w @ take n (buffer w)) (dir_files (wal_dir w))\<rparr>"
    by (simp_all add: move_def append_file_def)
  have g: "first_generation (move n w) = first_generation w" by (simp add: first_generation_def f)
  note i = assms(1) [unfolded wal_inv_def]
  from i obtain orphan where o: "orphan \<in> {[], [[]]}"
    "dir_files_from (first_generation w) (map (log_bytes crc compress) ls @ file_bytes w # orphan) (wal_dir w)" by blast
  have "dir_files_from (first_generation w) (map (log_bytes crc compress) ls @ (file_bytes w @ take n (buffer w)) # orphan) (wal_dir (move n w))"
    unfolding f using dir_files_from_update [OF o(2), of "length ls"] wal_invD(2,4) [OF assms(1)] i by simp
  then have "\<exists>orphan \<in> {[], [[]]}. dir_files_from (first_generation w)
      (map (log_bytes crc compress) ls @ (file_bytes w @ take n (buffer w)) # orphan) (wal_dir (move n w))"
    using o(1) by blast
  then show ?thesis
    using i assms(2) unfolding wal_inv_def floor_ok_def g f move_bytes by simp
qed

section \<open>Steps extend the log\<close>

text \<open>The admitted entries up to position \<open>l\<close> lie wholly in the synced part of the current file (or in closed files).\<close>

definition durable ::
  "(byte list \<Rightarrow> nat) \<Rightarrow> (byte list \<Rightarrow> byte list) \<Rightarrow> nat \<Rightarrow> wal_entry list \<Rightarrow> wal \<Rightarrow> bool" where
  "durable crc compress l es w \<longleftrightarrow>
     (\<exists>es1 es2. es = es1 @ es2 \<and> length (log_bytes crc compress es1) \<le> last_synced_file_position w \<and> (\<forall>e \<in> set es2. l < lsn e))"

definition ext ::
  "(byte list \<Rightarrow> nat) \<Rightarrow> (byte list \<Rightarrow> byte list) \<Rightarrow> nat \<Rightarrow> wal_entry list list \<Rightarrow> wal_entry list \<Rightarrow> wal \<Rightarrow>
   wal_entry list list \<Rightarrow> wal_entry list \<Rightarrow> wal \<Rightarrow> bool" where
  "ext crc compress p ls es w ls' es' w' \<longleftrightarrow>
     wal_inv crc compress p ls' es' w' \<and> prefix (concat ls @ es) (concat ls' @ es') \<and> current_lsn w \<le> current_lsn w' \<and>
     replay_floor w' = replay_floor w \<and>
     (\<forall>l \<le> current_lsn w. durable crc compress l es w \<longrightarrow> durable crc compress l es' w')"

lemma ext_trans:
  "ext crc compress p ls es w ls' es' w' \<Longrightarrow> ext crc compress p ls' es' w' ls'' es'' w'' \<Longrightarrow> ext crc compress p ls es w ls'' es'' w''"
  unfolding ext_def using prefix_order.order_trans order_trans by (metis (no_types, lifting))

lemma ext_same_log:
  assumes "wal_inv crc compress p ls es w" "same_log w w'"
  shows "ext crc compress p ls es w ls es w'"
proof -
  have "last_synced_file_position w \<le> last_synced_file_position w'" "current_lsn w' = current_lsn w"
    "replay_floor w' = replay_floor w"
    using assms(2) by (simp_all add: same_log_def)
  then show ?thesis
    using same_log_inv [OF assms(2,1)] unfolding ext_def durable_def by (auto dest: order_trans)
qed

lemma ext_move:
  assumes "wal_inv crc compress p ls es w" "n \<le> length (buffer w)"
  shows "ext crc compress p ls es w ls es (move n w)"
  using move_inv [OF assms] unfolding ext_def durable_def by (simp add: move_def append_file_def)

lemma ext_settled:
  assumes "ext crc compress p ls es w ls' es' x" "settled x w'"
  shows "ext crc compress p ls es w ls' es' w'"
  using ext_trans [OF assms(1) ext_same_log] assms settled_same_log unfolding ext_def by blast

lemma publish_move: "publish_record p (move n w) = move n (publish_record p w)"
  by (simp add: publish_record_def publish_admitted_fields_def move_def append_file_def file_bytes_def)

lemma prepare_entry_Inr:
  assumes "prepare_entry crc compress e = Inr q"
  shows "prep_lsn q = lsn e" "prep_txn_id q = txn_id e" "prep_operation q = operation e"
    "prep_encoded q = record_bytes crc compress e" "validate_semantics e = Inr ()" "fits compress e"
  using assms by (auto simp: prepare_entry_def encode_Inr split: sum.splits)

definition admitted_ok :: "wal_entry \<Rightarrow> bool" where
  "admitted_ok e \<longleftrightarrow> entry_ok e \<and> admissible e"

lemma admit_inv:
  assumes "wal_inv crc compress p ls es w" "prepare_entry crc compress e = Inr q" "admitted_ok e"
    and "lsn e = current_lsn w + 1" "previous_lsn e = wal_previous_lsn w"
    and "length (log_bytes crc compress (es @ [e])) \<le> u64_max"
  shows "wal_inv crc compress p ls (es @ [e]) (publish_record q (with_record q w))"
proof -
  let ?w = "publish_record q (with_record q w)"
  note q = prepare_entry_Inr [OF assms(2)]
  note i = assms(1) [unfolded wal_inv_def]
  have f: "wal_sequence ?w = wal_sequence w" "validated_closed_generations ?w = validated_closed_generations w"
    "current_wal_file ?w = current_wal_file w" "wal_dir ?w = wal_dir w" "current_lsn ?w = lsn e" "wal_previous_lsn ?w = lsn e"
    "replay_floor ?w = replay_floor w" "last_synced_file_position ?w = last_synced_file_position w"
    "current_file_position ?w = current_file_position w" "buffer ?w = buffer w @ record_bytes crc compress e"
    by (simp_all add: publish_record_def publish_admitted_fields_def with_record_def q)
  have g: "first_generation ?w = first_generation w" "file_bytes ?w = file_bytes w"
    by (simp_all add: first_generation_def file_bytes_def f)
  have "log_ok crc compress (es @ [e])" using i assms(3,6) q by (simp add: log_ok_def writable_def admitted_ok_def)
  then show ?thesis
    using i assms(4,5) unfolding wal_inv_def floor_ok_def f g by simp
qed

lemma ext_admit:
  assumes "wal_inv crc compress p ls es w" "prepare_entry crc compress e = Inr q" "admitted_ok e"
    and "lsn e = current_lsn w + 1" "previous_lsn e = wal_previous_lsn w"
    and "length (log_bytes crc compress (es @ [e])) \<le> u64_max" "n \<le> length (buffer w @ prep_encoded q)"
  shows "ext crc compress p ls es w ls (es @ [e]) (publish_record q (move n (with_record q w)))"
proof -
  let ?w = "publish_record q (with_record q w)"
  note i = admit_inv [OF assms(1-6)]
  have "ext crc compress p ls es w ls (es @ [e]) ?w"
    unfolding ext_def
  proof (intro conjI allI impI i)
    show "replay_floor ?w = replay_floor w"
      by (simp add: publish_record_def publish_admitted_fields_def with_record_def)
    show "current_lsn w \<le> current_lsn ?w"
      using prepare_entry_Inr(1) [OF assms(2)] assms(4) by (simp add: publish_record_def publish_admitted_fields_def)
    fix l assume "l \<le> current_lsn w" "durable crc compress l es w"
    then obtain es1 es2 where "es = es1 @ es2" "length (log_bytes crc compress es1) \<le> last_synced_file_position w"
      "\<forall>e \<in> set es2. l < lsn e" by (auto simp: durable_def)
    then show "durable crc compress l (es @ [e]) ?w"
      using assms(4) \<open>l \<le> current_lsn w\<close> unfolding durable_def
      by (intro exI [of _ es1] exI [of _ "es2 @ [e]"])
        (auto simp: publish_record_def publish_admitted_fields_def with_record_def)
  qed simp
  moreover have "n \<le> length (buffer ?w)" using assms(7) by simp
  ultimately show ?thesis unfolding publish_move by (metis ext_move [OF i] ext_trans)
qed

definition log_size :: "wal \<Rightarrow> nat" where
  "log_size w = length (file_bytes w) + length (buffer w)"

lemma log_size_move [simp]: "n \<le> length (buffer w) \<Longrightarrow> log_size (move n w) = log_size w"
  by (simp add: log_size_def)

lemma log_size_record [simp]:
  "log_size (publish_record p w) = log_size w" "log_size (with_record p w) = log_size w + length (prep_encoded p)"
  by (simp_all add: log_size_def with_record_def)

lemma log_size_inv: "wal_inv crc compress p ls es w \<Longrightarrow> log_size w = length (log_bytes crc compress es)"
  unfolding wal_inv_def log_size_def by (metis length_append)

lemma same_log_size: "same_log w w' \<Longrightarrow> log_size w' = log_size w"
  by (simp add: same_log_def log_size_def file_bytes_def)

lemma settled_size: "settled x w \<Longrightarrow> log_size w = log_size x"
  by (auto simp: settled_def log_size_def mark_transition_uncertain_def file_bytes_def sync_locked_def split: if_splits)

lemma durable_synced:
  "wal_inv crc compress p ls es w \<Longrightarrow> buffer w = [] \<Longrightarrow> last_synced_file_position w = current_file_position w \<Longrightarrow>
   durable crc compress l es w"
  unfolding durable_def wal_inv_def by (intro exI [of _ es] exI [of _ "[]"]) simp

text \<open>When the code promises that an acknowledged record is on disk.\<close>

definition acknowledged_sync :: "wal \<Rightarrow> wal_operation \<Rightarrow> bool" where
  "acknowledged_sync w op \<longleftrightarrow>
     wal_sync_mode w = SyncFull \<or> wal_sync_mode w = SyncNormal \<and> (op = Commit \<or> is_ddl op)"

lemma acknowledged_flush: "acknowledged_sync w op \<Longrightarrow> force_flush w op"
  by (auto simp: acknowledged_sync_def force_flush_def)

lemma acknowledged_should_sync:
  "acknowledged_sync w op \<Longrightarrow> should_sync io (publish_record p (move n (with_record p w))) op"
proof -
  have "wal_sync_mode (move n (with_record p w)) = wal_sync_mode w"
    by (simp add: move_def append_file_def with_record_def)
  then show "acknowledged_sync w op \<Longrightarrow> ?thesis"
    by (auto simp: acknowledged_sync_def should_sync_def split: sync_mode.splits)
qed

lemma append_prepared_ext:
  assumes "wal_inv crc compress p ls es w" "prepare_entry crc compress e = Inr q" "admitted_ok e"
    and "lsn e = current_lsn w + 1" "previous_lsn e = wal_previous_lsn w"
    and "append_prepared_entry io q w = (r, w')" "log_size w' \<le> u64_max"
  shows "(\<exists>err. r = Inl err) \<and> ext crc compress p ls es w ls es w' \<and> log_size w' = log_size w \<or>
    ext crc compress p ls es w ls (es @ [e]) w' \<and> (r = Inr (lsn e) \<or> r = Inl WalDurabilityUncertain) \<and>
    log_size w \<le> log_size w' \<and>
    (r = Inr (lsn e) \<longrightarrow> acknowledged_sync w (operation e) \<longrightarrow> durable crc compress (lsn e) (es @ [e]) w')"
proof -
  note q = prepare_entry_Inr [OF assms(2)]
  from wal_invD(5) [OF assms(1)] assms(6) show ?thesis
  proof (cases rule: append_prepared_cases)
    case (rejected n err)
    then show ?thesis using ext_move [OF assms(1)] by simp
  next
    case (admitted n)
    let ?x = "publish_record q (move n (with_record q w))"
    have size: "log_size ?x = log_size w + length (record_bytes crc compress e)"
      using admitted(1) q(4) by simp
    then have len: "length (log_bytes crc compress (es @ [e])) \<le> u64_max"
      using settled_size [OF admitted(2)] assms(7) log_size_inv [OF assms(1)] by simp
    have ex: "ext crc compress p ls es w ls (es @ [e]) w'"
      by (rule ext_settled [OF ext_admit [OF assms(1-5) len admitted(1)] admitted(2)])
    have "durable crc compress (lsn e) (es @ [e]) w'" if "r = Inr (lsn e)" "acknowledged_sync w (operation e)"
      by (rule durable_synced) (use ex that admitted(4) q acknowledged_flush acknowledged_should_sync in \<open>auto simp: ext_def\<close>)
    then show ?thesis using ex admitted(3) q size settled_size [OF admitted(2)] by auto
  qed
qed

lemma append_entry_ext:
  assumes "wal_inv crc compress p ls es w" "entry_ok e" "append_entry crc compress io e w = (r, w')" "log_size w' \<le> u64_max"
  defines "e' \<equiv> e\<lparr>previous_lsn := current_lsn w, lsn := current_lsn w + 1\<rparr>"
  shows "(\<exists>err. r = Inl err) \<and> ext crc compress p ls es w ls es w' \<or>
    ext crc compress p ls es w ls (es @ [e']) w' \<and> (r = Inr (current_lsn w + 1) \<or> r = Inl WalDurabilityUncertain) \<and>
    (r = Inr (current_lsn w + 1) \<longrightarrow> acknowledged_sync w (operation e) \<longrightarrow>
       durable crc compress (current_lsn w + 1) (es @ [e']) w')"
proof -
  obtain ok w1 where w1: "observe_persisted_timestamp (timestamp e) w = (ok, w1)" by (rule prod.exhaust)
  have s: "same_log w w1" using same_log_status(2) [of w "timestamp e"] w1 by simp
  have prev: "wal_previous_lsn w1 = current_lsn w" "current_lsn w1 = current_lsn w" "wal_sync_mode w1 = wal_sync_mode w"
  proof -
    have "wal_previous_lsn w = current_lsn w" using assms(1) unfolding wal_inv_def by blast
    then show "wal_previous_lsn w1 = current_lsn w" "current_lsn w1 = current_lsn w" using s by (simp_all add: same_log_def)
    have "wal_sync_mode (snd (observe_persisted_timestamp (timestamp e) w)) = wal_sync_mode w"
      by (simp add: observe_persisted_timestamp_def)
    then show "wal_sync_mode w1 = wal_sync_mode w" unfolding w1 by simp
  qed
  note i1 = same_log_inv [OF s assms(1)] and x1 = ext_same_log [OF assms(1) s]
  show ?thesis
  proof (cases "require_running_transition (lifecycle w) \<noteq> Inr () \<or> txn_id e = i64_max \<or> \<not> ok \<or> current_lsn w + 1 > u64_max")
    case True
    then have "(\<exists>err. r = Inl err) \<and> (w' = w \<or> w' = w1)"
      using assms(3) w1 unfolding append_entry_def when_running_def
      by (cases ok) (auto simp: prev checked_add_u64_def split: sum.splits if_splits)
    then show ?thesis using x1 ext_same_log [OF assms(1) same_log_refl] by auto
  next
    case False
    then have c: "checked_add_u64 (current_lsn w) (Suc 0) = Some (Suc (current_lsn w))" by simp
    have ok': "admitted_ok e'"
      using assms(2) False w1 unfolding admitted_ok_def entry_ok_def admissible_def e'_def
      by (auto simp: observe_persisted_timestamp_def MAX_DURABLE_TIMESTAMP_def split: if_splits)
    have a: "(case prepare_entry crc compress e' of Inl err \<Rightarrow> (Inl err, w1) | Inr q \<Rightarrow> append_prepared_entry io q w1) = (r, w')"
      using assms(3) w1 False unfolding append_entry_def when_running_def e'_def
      by (simp add: prev c del: checked_add_u64_Some)
    show ?thesis
    proof (cases "prepare_entry crc compress e'")
      case (Inl err)
      then show ?thesis using a x1 by auto
    next
      case (Inr q)
      have "append_prepared_entry io q w1 = (r, w')" using a Inr by simp
      from append_prepared_ext [OF i1 Inr ok' _ _ this assms(4)]
      show ?thesis
        using ext_trans [OF x1] prev by (auto simp: e'_def acknowledged_sync_def)
    qed
  qed
qed

section \<open>The other operations\<close>

lemma same_log_trans: "same_log w w1 \<Longrightarrow> same_log w1 w2 \<Longrightarrow> same_log w w2"
  unfolding same_log_def by auto

fun numbered :: "nat \<Rightarrow> nat \<Rightarrow> wal_entry list \<Rightarrow> bool" where
  "numbered l previous [] = True"
| "numbered l previous (e # es) \<longleftrightarrow> admitted_ok e \<and> lsn e = l + 1 \<and> previous_lsn e = previous \<and> numbered (l + 1) (l + 1) es"

lemma assign_lsns_ok:
  assumes "assign_lsns l previous es w = (r, w')" "\<forall>e \<in> set es. entry_ok e" "previous \<le> l"
  shows "same_log w w' \<and> (\<forall>es'. r = Inr es' \<longrightarrow> numbered l previous es')"
  using assms
proof (induction es arbitrary: l previous w r w')
  case (Cons e es)
  obtain ok w1 where w1: "observe_persisted_timestamp (timestamp e) w = (ok, w1)" by (rule prod.exhaust)
  have s: "same_log w w1" using same_log_status(2) [of w "timestamp e"] w1 by simp
  show ?case
  proof (cases "txn_id e = i64_max \<or> \<not> ok \<or> l + 1 > u64_max")
    case True
    then have "(\<exists>err. r = Inl err) \<and> (w' = w \<or> w' = w1)"
      using Cons.prems(1) w1 by (cases ok) (auto simp: checked_add_u64_def split: if_splits)
    then show ?thesis using s by auto
  next
    case False
    obtain r2 w2 where w2: "assign_lsns (Suc l) (Suc l) es w1 = (r2, w2)" by (rule prod.exhaust)
    have IH: "same_log w1 w2 \<and> (\<forall>es'. r2 = Inr es' \<longrightarrow> numbered (Suc l) (Suc l) es')"
      by (rule Cons.IH [OF w2]) (use Cons.prems False in auto)
    have c: "checked_add_u64 l (Suc 0) = Some (Suc l)" using False by simp
    have eq: "(case r2 of Inl err \<Rightarrow> (Inl err, w2)
        | Inr es' \<Rightarrow> (Inr (e\<lparr>previous_lsn := previous, lsn := Suc l\<rparr> # es'), w2)) = (r, w')"
      using Cons.prems(1) w1 w2 False by (cases r2) (auto simp add: c simp del: checked_add_u64_Some)
    then have "w' = w2" by (cases r2) auto
    moreover have "numbered l previous es''" if r: "r = Inr es''" for es''
    proof -
      obtain es' where es': "r2 = Inr es'" "es'' = e\<lparr>previous_lsn := previous, lsn := Suc l\<rparr> # es'"
        using eq r by (cases r2) auto
      have "admitted_ok (e\<lparr>previous_lsn := previous, lsn := Suc l\<rparr>)"
        using Cons.prems(2,3) False w1
        by (auto simp: admitted_ok_def admissible_def entry_ok_def observe_persisted_timestamp_def MAX_DURABLE_TIMESTAMP_def split: if_splits)
      then show ?thesis using es' IH by simp
    qed
    ultimately show ?thesis using same_log_trans [OF s] IH by blast
  qed
qed simp

lemma assign_lsns_length: "assign_lsns l previous es w = (Inr es', w') \<Longrightarrow> length es' = length es"
  by (induction es arbitrary: l previous w es') (auto split: if_splits prod.splits bool.splits option.splits sum.splits)

lemma has_file_move [simp]: "has_file (move n w)"
  by (simp add: move_def has_file_def append_file_def)

lemma append_prepared_size:
  assumes "has_file w" "append_prepared_entry io q w = (r, w')"
  shows "has_file w' \<and> log_size w \<le> log_size w' \<and> log_size w' \<le> log_size w + length (prep_encoded q)"
  using assms
proof (cases rule: append_prepared_cases)
  case (rejected n err)
  then show ?thesis by simp
next
  case (admitted n)
  let ?x = "publish_record q (move n (with_record q w))"
  have "has_file ?x"
    by (simp add: has_file_def move_def append_file_def publish_record_def publish_admitted_fields_def)
  then have "has_file w'"
    using admitted(2) by (auto simp: settled_def has_file_def mark_transition_uncertain_def sync_locked_def split: if_splits)
  then show ?thesis using settled_size [OF admitted(2)] admitted(1) by simp
qed

lemma append_prepared_entries_size:
  assumes "has_file w" "append_prepared_entries ios qs w = (r, w')"
  shows "log_size w \<le> log_size w'"
  using assms
proof (induction qs arbitrary: ios w r w')
  case (Cons q qs)
  obtain r1 w1 where w1: "append_prepared_entry (ios 0) q w = (r1, w1)" by (rule prod.exhaust)
  obtain r2 w2 where w2: "append_prepared_entries (\<lambda>n. ios (Suc n)) qs w1 = (r2, w2)" by (rule prod.exhaust)
  note s = append_prepared_size [OF Cons.prems(1) w1]
  show ?case
  proof (cases r1)
    case (Inl err)
    then show ?thesis using Cons.prems(2) w1 s by simp
  next
    case (Inr l)
    then have "w' = w2" using Cons.prems(2) w1 w2 by (cases r2) auto
    then show ?thesis using Cons.IH [OF _ w2] s by simp
  qed
qed simp

lemma append_prepared_entries_ext:
  assumes "append_prepared_entries ios qs w = (r, w')" "map_res (prepare_entry crc compress) es' = Inr qs"
    and "wal_inv crc compress p ls es w" "numbered (current_lsn w) (wal_previous_lsn w) es'" "log_size w' \<le> u64_max"
  shows "log_size w \<le> log_size w' \<and> (\<exists>m. ext crc compress p ls es w ls (es @ take m es') w' \<and>
    (\<forall>lsns. r = Inr lsns \<longrightarrow> length es' \<le> m \<and> lsns = map lsn es'))"
  using assms
proof (induction es' arbitrary: ios qs w r w' es)
  case Nil
  then show ?case using ext_same_log [OF Nil.prems(3) same_log_refl] by (auto intro!: exI [of _ 0])
next
  case (Cons e es')
  obtain q qs' where q: "qs = q # qs'" "prepare_entry crc compress e = Inr q" "map_res (prepare_entry crc compress) es' = Inr qs'"
    using Cons.prems(2) by auto
  obtain r1 w1 where w1: "append_prepared_entry (ios 0) q w = (r1, w1)" by (rule prod.exhaust)
  obtain r2 w2 where w2: "append_prepared_entries (\<lambda>n. ios (Suc n)) qs' w1 = (r2, w2)" by (rule prod.exhaust)
  have n: "admitted_ok e" "lsn e = current_lsn w + 1" "previous_lsn e = wal_previous_lsn w" "numbered (lsn e) (lsn e) es'"
    using Cons.prems(4) by simp_all
  note step = append_prepared_ext [OF Cons.prems(3) q(2) n(1-3) w1]
  show ?case
  proof (cases r1)
    case (Inl err)
    have "w' = w1" "r = Inl err" using Cons.prems(1) w1 Inl by (simp_all add: q(1))
    moreover have "ext crc compress p ls es w ls es w1 \<and> log_size w1 = log_size w \<or>
        ext crc compress p ls es w ls (es @ [e]) w1 \<and> log_size w \<le> log_size w1"
      using step Cons.prems(5) \<open>w' = w1\<close> by auto
    ultimately obtain m where m: "log_size w \<le> log_size w'" "ext crc compress p ls es w ls (es @ take m (e # es')) w'"
      using that [of 0] that [of 1] by auto
    show ?thesis by (intro conjI exI [of _ m] allI impI m) (use \<open>r = Inl err\<close> in simp_all)
  next
    case (Inr l)
    have "w' = w2 \<and> r = (case r2 of Inl err \<Rightarrow> Inl err | Inr ls \<Rightarrow> Inr (l # ls))"
      using Cons.prems(1) w1 w2 Inr by (cases r2) (auto simp: q(1))
    then have eq: "w' = w2" "r = (case r2 of Inl err \<Rightarrow> Inl err | Inr ls \<Rightarrow> Inr (l # ls))" by simp_all
    have "log_size w1 \<le> log_size w'"
      using append_prepared_entries_size [OF _ w2] append_prepared_size [OF wal_invD(5) [OF Cons.prems(3)] w1] eq(1) by simp
    then have x: "ext crc compress p ls es w ls (es @ [e]) w1" "l = lsn e"
      using step Inr Cons.prems(5) by auto
    then have i: "wal_inv crc compress p ls (es @ [e]) w1" by (simp add: ext_def)
    then have "last_lsn p (concat ls @ es @ [e]) = current_lsn w1" "wal_previous_lsn w1 = current_lsn w1"
      unfolding wal_inv_def by simp_all
    then have num: "numbered (current_lsn w1) (wal_previous_lsn w1) es'" using n(4) by simp
    obtain m where m: "ext crc compress p ls (es @ [e]) w1 ls ((es @ [e]) @ take m es') w2"
        "\<And>lsns. r2 = Inr lsns \<Longrightarrow> length es' \<le> m \<and> lsns = map lsn es'"
      using Cons.IH [OF w2 q(3) i num] Cons.prems(5) eq(1) by blast
    have "ext crc compress p ls es w ls (es @ take (Suc m) (e # es')) w'"
      using ext_trans [OF x(1) m(1)] eq(1) by simp
    moreover have "length (e # es') \<le> Suc m \<and> lsns = map lsn (e # es')" if "r = Inr lsns" for lsns
      using that m(2) eq(2) x(2) by (cases r2) auto
    ultimately show ?thesis
      using append_prepared_entries_size [OF wal_invD(5) [OF Cons.prems(3)] Cons.prems(1)] by blast
  qed
qed

lemma append_entries_ext:
  assumes "wal_inv crc compress p ls es w" "\<forall>e \<in> set new. entry_ok e" "append_entries crc compress ios new w = (r, w')"
    and "log_size w' \<le> u64_max"
  shows "\<exists>es'. ext crc compress p ls es w ls (es @ es') w' \<and> (\<forall>lsns. r = Inr lsns \<longrightarrow> lsns = map lsn es' \<and> length es' = length new)"
proof -
  have refl: "ext crc compress p ls es w ls (es @ []) w" using ext_same_log [OF assms(1) same_log_refl] by simp
  have cur: "wal_previous_lsn w = current_lsn w" using assms(1) unfolding wal_inv_def by blast
  obtain r1 w1 where w1: "assign_lsns (current_lsn w) (wal_previous_lsn w) new w = (r1, w1)" by (rule prod.exhaust)
  note a = assign_lsns_ok [OF w1 assms(2)]
  show ?thesis
  proof (cases "new = [] \<or> require_running_transition (lifecycle w) \<noteq> Inr ()")
    case True
    then have "w' = w \<and> (\<forall>lsns. r = Inr lsns \<longrightarrow> new = [] \<and> lsns = [])"
      using assms(3) unfolding append_entries_def when_running_def by (auto split: sum.splits if_splits)
    then show ?thesis using refl by (intro exI [of _ "[]"]) auto
  next
    case False
    have s: "same_log w w1" using a cur by simp
    note x = ext_same_log [OF assms(1) s]
    have eq: "(case r1 of Inl err \<Rightarrow> (Inl err, w1) | Inr es' \<Rightarrow>
        (case prepare_entries crc compress es' of Inl err \<Rightarrow> (Inl err, w1) | Inr ps \<Rightarrow> append_prepared_entries ios ps w1)) = (r, w')"
      using assms(3) False w1 unfolding append_entries_def when_running_def by (cases r1) auto
    show ?thesis
    proof (cases r1)
      case (Inl err)
      then show ?thesis using eq x by (intro exI [of _ "[]"]) auto
    next
      case (Inr es')
      show ?thesis
      proof (cases "prepare_entries crc compress es'")
        case Inl': (Inl err)
        then show ?thesis using eq Inr x by (intro exI [of _ "[]"]) auto
      next
        case Inr': (Inr qs)
        have e: "append_prepared_entries ios qs w1 = (r, w')" using eq Inr Inr' by simp
        have num: "numbered (current_lsn w1) (wal_previous_lsn w1) es'"
          using a cur Inr s by (simp add: same_log_def)
        obtain m where m: "ext crc compress p ls es w1 ls (es @ take m es') w'"
            "\<And>lsns. r = Inr lsns \<Longrightarrow> length es' \<le> m \<and> lsns = map lsn es'"
          using append_prepared_entries_ext [OF e Inr' [unfolded prepare_entries_def] same_log_inv [OF s assms(1)] num assms(4)]
          by blast
        have "length es' = length new" using assign_lsns_length w1 Inr by blast
        then show ?thesis using ext_trans [OF x m(1)] m(2) by (intro exI [of _ "take m es'"]) auto
      qed
    qed
  qed
qed

lemma flush_ext:
  assumes "wal_inv crc compress p ls es w" "flush_under_transition io w = (r, w')"
  shows "ext crc compress p ls es w ls es w' \<and> (r = Inr () \<longrightarrow> buffer w' = [])"
proof -
  obtain n where "n \<le> length (buffer w)" "w' = move n w" "r = Inr () \<longrightarrow> n = length (buffer w)"
    using flush_cases [OF wal_invD(5) [OF assms(1)] assms(2)] by blast
  then show ?thesis using ext_move [OF assms(1)] by simp
qed

lemma flush_and_sync_ext:
  assumes "wal_inv crc compress p ls es w" "flush_and_sync io w = (r, w')"
  shows "ext crc compress p ls es w ls es w' \<and>
    (r = Inr () \<longrightarrow> buffer w' = [] \<and> last_synced_file_position w' = current_file_position w')"
proof -
  obtain r1 w1 where w1: "flush_under_transition io w = (r1, w1)" by (rule prod.exhaust)
  note x = flush_ext [OF assms(1) w1]
  then have i: "wal_inv crc compress p ls es w1" by (simp add: ext_def)
  obtain r2 w2 where w2: "sync_locked io w1 = (r2, w2)" by (rule prod.exhaust)
  show ?thesis
  proof (cases r1)
    case (Inl e)
    then show ?thesis using assms(2) w1 x by (auto simp: flush_and_sync_def)
  next
    case (Inr u)
    show ?thesis
    proof (cases r2)
      case Inl2: (Inl e)
      have "w2 = w1" using sync_locked_error w2 Inl2 by blast
      then have "r = Inl WalDurabilityUncertain" "w' = mark_transition_uncertain w1"
        using assms(2) w1 w2 Inr Inl2 by (simp_all add: flush_and_sync_def)
      then show ?thesis using ext_trans [OF conjunct1 [OF x] ext_same_log [OF i same_log_status(1)]] by simp
    next
      case Inr2: (Inr v)
      have "w' = w2" using assms(2) w1 w2 Inr Inr2 by (simp add: flush_and_sync_def)
      then show ?thesis
        using ext_trans [OF conjunct1 [OF x] ext_same_log [OF i same_log_sync [OF i w2]]] sync_locked_ok [OF w2 [unfolded Inr2]] x Inr
        by simp
    qed
  qed
qed

lemma create_checkpoint_ext:
  assumes "wal_inv crc compress p ls es w" "create_checkpoint io w = (r, w')"
  shows "ext crc compress p ls es w ls es w' \<and>
    (\<forall>l. r = Inr l \<longrightarrow> l = current_lsn w' \<and> last_checkpoint w' = l \<and> lifecycle w' \<noteq> Failed \<and> durable crc compress l es w')"
proof (cases "lifecycle w = Closing \<or> lifecycle w = Closed")
  case True
  then show ?thesis using assms ext_same_log [OF assms(1) same_log_refl] by (auto simp: create_checkpoint_def)
next
  case False
  obtain r1 w1 where w1: "flush_and_sync io w = (r1, w1)" by (rule prod.exhaust)
  note x = flush_and_sync_ext [OF assms(1) w1]
  then have i: "wal_inv crc compress p ls es w1" by (simp add: ext_def)
  show ?thesis
  proof (cases r1)
    case (Inl e)
    then show ?thesis using assms(2) w1 False x by (auto simp: create_checkpoint_def)
  next
    case (Inr u)
    let ?w2 = "if lifecycle w1 = Failed then w1\<lparr>lifecycle := Running, running := True\<rparr> else w1"
    have e: "r = Inr (current_lsn ?w2)" "w' = ?w2\<lparr>last_checkpoint := current_lsn ?w2\<rparr>"
      using assms(2) w1 False Inr unfolding create_checkpoint_def Let_def by auto
    have s: "same_log w1 w'" unfolding e(2)
      by (rule same_log_trans [OF _ same_log_status(4)]) (auto intro: same_log_status(3))
    have i': "wal_inv crc compress p ls es w'" by (rule same_log_inv [OF s i])
    have "durable crc compress l es w1" for l by (rule durable_synced [OF i]) (use x Inr in auto)
    then have d: "durable crc compress l es w'" for l
      using s unfolding durable_def same_log_def by (meson order_trans)
    have "lifecycle w' \<noteq> Failed" "last_checkpoint w' = current_lsn w'" "current_lsn ?w2 = current_lsn w'"
      unfolding e(2) by simp_all
    then show ?thesis using ext_trans [OF conjunct1 [OF x] ext_same_log [OF i s]] d e(1) by simp
  qed
qed

lemma generations_of_append:
  "generations_of crc compress g p (ls @ [es]) = generations_of crc compress g p ls @
     [\<lparr>gen_name = canonical_filename (g + length ls), gen_start_lsn = last_lsn p (concat ls),
       gen_end_lsn = last_lsn p (concat ls @ es), gen_sequence = g + length ls,
       gen_len = length (log_bytes crc compress es)\<rparr>]"
  by (induction ls arbitrary: g p) simp_all

lemma last_generation_end:
  "ls \<noteq> [] \<Longrightarrow> gen_end_lsn (last (generations_of crc compress g p ls)) = last_lsn p (concat ls)"
  by (cases ls rule: rev_cases) (simp_all add: generations_of_append)

lemma current_start_inv:
  assumes "wal_inv crc compress p ls es w"
  shows "current_start_lsn w = last_lsn p (concat ls)"
proof (cases "ls = []")
  case True
  then have "validated_closed_generations w = []" "replay_floor w = (first_generation w, p)"
    using assms by (auto simp: wal_inv_def floor_ok_def)
  then show ?thesis using True by (simp add: current_start_lsn_def replay_floor_lsn_def)
next
  case False
  have c: "validated_closed_generations w = generations_of crc compress (first_generation w) p ls"
    using assms unfolding wal_inv_def by blast
  then have "validated_closed_generations w \<noteq> []" using False by (cases ls) auto
  then show ?thesis unfolding current_start_lsn_def c using last_generation_end [OF False] by simp
qed

lemma delete_update_fresh: "map_of xs k = None \<Longrightarrow> AList.delete k (AList.update k v xs) = xs"
  by (induction xs) (auto simp: AList.delete_eq split: if_splits)

text \<open>A new, empty file of the next generation in the directory.\<close>

lemma created_dir:
  assumes "wal_inv crc compress p ls es w" "map_of (dir_files (wal_dir w)) (canonical_filename (wal_sequence w + 1)) = None"
    and "wal_sequence w + 2 < 2 ^ 64"
  shows "dir_files_from (first_generation w) (map (log_bytes crc compress) ls @ [file_bytes w, []])
    (wal_dir (create_file (canonical_filename (wal_sequence w + 1)) w))"
proof -
  from assms(1) obtain orphan where o: "orphan \<in> {[], [[]]}"
    "dir_files_from (first_generation w) (map (log_bytes crc compress) ls @ file_bytes w # orphan) (wal_dir w)"
    unfolding wal_inv_def by blast
  note g = wal_invD(2) [OF assms(1)]
  have files: "map_of (dir_files (wal_dir w)) (canonical_filename (wal_sequence w + 1)) =
      (if wal_sequence w + 1 < first_generation w + length (map (log_bytes crc compress) ls @ file_bytes w # orphan)
       then Some ((map (log_bytes crc compress) ls @ file_bytes w # orphan) ! (wal_sequence w + 1 - first_generation w)) else None)"
    using o(2) assms(3) g unfolding dir_files_from_def by simp
  have "orphan = []" using files assms(2) o(1) g by (auto split: if_splits)
  then have "dir_files_from (first_generation w) (map (log_bytes crc compress) ls @ [file_bytes w]) (wal_dir w)"
    using o(2) by simp
  from dir_files_from_update [OF this, of "Suc (length ls)" "[]"] show ?thesis
    using g assms(3) by (simp add: create_file_def add.commute add.left_commute flip: g)
qed

lemma log_ok_Nil [simp]: "log_ok crc compress []"
  by (simp add: log_ok_def)

lemma orphan_inv:
  assumes "wal_inv crc compress p ls es w" "map_of (dir_files (wal_dir w)) (canonical_filename (wal_sequence w + 1)) = None"
    and "wal_sequence w + 2 < 2 ^ 64"
  shows "ext crc compress p ls es w ls es (create_file (canonical_filename (wal_sequence w + 1)) w)"
proof -
  let ?w = "create_file (canonical_filename (wal_sequence w + 1)) w"
  note i = assms(1) [unfolded wal_inv_def]
  have "canonical_filename (wal_sequence w) \<noteq> canonical_filename (wal_sequence w + 1)"
    using assms(3) wal_invD(1) [OF assms(1)] by (subst canonical_filename_inj) auto
  then have fb: "file_bytes ?w = file_bytes w" using i by (simp add: file_bytes_def create_file_def)
  have f: "wal_sequence ?w = wal_sequence w" "validated_closed_generations ?w = validated_closed_generations w"
    "current_wal_file ?w = current_wal_file w" "current_lsn ?w = current_lsn w" "wal_previous_lsn ?w = wal_previous_lsn w"
    "buffer ?w = buffer w" "replay_floor ?w = replay_floor w" "current_file_position ?w = current_file_position w"
    "last_synced_file_position ?w = last_synced_file_position w" "first_generation ?w = first_generation w"
    by (simp_all add: create_file_def first_generation_def)
  have "\<exists>orphan \<in> {[], [[]]}. dir_files_from (first_generation w)
      (map (log_bytes crc compress) ls @ file_bytes w # orphan) (wal_dir ?w)"
    using created_dir [OF assms] by blast
  then have "wal_inv crc compress p ls es ?w" using i unfolding wal_inv_def floor_ok_def f fb by blast
  then show ?thesis unfolding ext_def durable_def f by blast
qed

lemma rotated_inv:
  assumes "wal_inv crc compress p ls es w" "buffer w = []" "wal_sequence w + 2 < 2 ^ 64"
    and "map_of (dir_files (wal_dir w)) (canonical_filename (wal_sequence w + 1)) = None"
    and "closed = \<lparr>gen_name = canonical_filename (wal_sequence w), gen_start_lsn = last_lsn p (concat ls),
      gen_end_lsn = current_lsn w, gen_sequence = wal_sequence w, gen_len = length (log_bytes crc compress es)\<rparr>"
    and "w' = (create_file (canonical_filename (wal_sequence w + 1)) w)\<lparr>wal_file := True,
      current_wal_file := canonical_filename (wal_sequence w + 1), current_file_position := 0,
      last_synced_file_position := 0, wal_sequence := wal_sequence w + 1,
      validated_closed_generations := validated_closed_generations w @ [closed]\<rparr>"
  shows "wal_inv crc compress p (ls @ [es]) [] w'"
proof -
  note i = assms(1) [unfolded wal_inv_def]
  note d = created_dir [OF assms(1,4,3)] and g = wal_invD(2) [OF assms(1)]
  have f: "wal_sequence w' = Suc (wal_sequence w)" "validated_closed_generations w' = validated_closed_generations w @ [closed]"
    "current_wal_file w' = canonical_filename (Suc (wal_sequence w))" "current_lsn w' = current_lsn w"
    "wal_previous_lsn w' = wal_previous_lsn w" "buffer w' = []" "replay_floor w' = replay_floor w"
    "current_file_position w' = 0" "last_synced_file_position w' = 0"
    "wal_dir w' = wal_dir (create_file (canonical_filename (wal_sequence w + 1)) w)"
    using assms(2) by (simp_all add: assms(6) create_file_def)
  have fg: "first_generation w' = first_generation w" by (simp add: first_generation_def f)
  have fb: "file_bytes w' = []" by (simp add: file_bytes_def f create_file_def)
  have gens: "validated_closed_generations w' = generations_of crc compress (first_generation w) p (ls @ [es])"
    using i g by (simp add: f generations_of_append assms(5))
  have dir: "dir_files_from (first_generation w) (map (log_bytes crc compress) (ls @ [es]) @ [] # []) (wal_dir w')"
    using d i assms(2) by (simp add: f)
  have fl: "floor_ok p (ls @ [es]) w'"
  proof -
    from i obtain k where "k \<le> length ls" "replay_floor w = (first_generation w + k, last_lsn p (concat (take k ls)))"
      unfolding floor_ok_def by blast
    then show ?thesis unfolding floor_ok_def fg f by (intro exI [of _ k]) simp
  qed
  show ?thesis
    unfolding wal_inv_def fg fb gens
    using i dir fl g f by auto
qed

lemma rotate_ext:
  assumes "wal_inv crc compress p ls es w" "buffer w = []" "crc_ok crc" "lz4_ok compress decompress"
    and "rotate_wal_under_transition crc decompress io w = (r, w')" "wal_sequence w + 2 < 2 ^ 64"
  shows "r = Inr () \<and> ext crc compress p ls es w (ls @ [es]) [] w' \<and> wal_sequence w' = wal_sequence w + 1 \<and>
      current_lsn w' = current_lsn w \<or>
    (\<exists>e. r = Inl e) \<and> ext crc compress p ls es w ls es w'"
proof -
  note i = assms(1) [unfolded wal_inv_def]
  let ?name = "canonical_filename (wal_sequence w + 1)"
  let ?closed = "\<lparr>gen_name = canonical_filename (wal_sequence w), gen_start_lsn = last_lsn p (concat ls),
      gen_end_lsn = current_lsn w, gen_sequence = wal_sequence w, gen_len = length (log_bytes crc compress es)\<rparr>"
  have v: "validate_generation crc decompress (dir_files (wal_dir w)) (current_wal_file w) (wal_sequence w) (current_start_lsn w) = Inr ?closed"
    using validate_generation_log [OF assms(3,4), of "wal_sequence w" "last_lsn p (concat ls)" es "dir_files (wal_dir w)"]
      i assms(2,6) wal_invD(1,6) [OF assms(1)] by (simp add: current_start_inv [OF assms(1)])
  have nm: "\<not> (gen_name ?closed \<noteq> current_wal_file w \<or> gen_end_lsn ?closed \<noteq> current_lsn w)" using i by simp
  have c: "checked_add_u64 (wal_sequence w) 1 = Some (wal_sequence w + 1)" using assms(6) by simp
  have same: "ext crc compress p ls es w ls es w" by (rule ext_same_log [OF assms(1) same_log_refl])
  let ?w1 = "create_file ?name w"
  have body: "(if \<not> io_create io \<or> map_of (dir_files (wal_dir w)) ?name \<noteq> None then (Inl (CreateFailed ?name), w)
      else if \<not> io_new_sync io then abandon_rotation io ?name ?w1
      else if \<not> io_dir_sync io then abandon_rotation io ?name ?w1
      else (Inr (), ?w1\<lparr>wal_file := True, current_wal_file := ?name, current_file_position := 0,
                        last_synced_file_position := 0, wal_sequence := wal_sequence w + 1,
                        validated_closed_generations := validated_closed_generations ?w1 @ [?closed]\<rparr>)) = (r, w')"
    using assms(5) unfolding rotate_wal_under_transition_def v sum.case Let_def c option.case if_not_P [OF nm] .
  show ?thesis
  proof (cases "\<not> io_create io \<or> map_of (dir_files (wal_dir w)) ?name \<noteq> None")
    case True
    then show ?thesis using body same by auto
  next
    case False
    then have fresh: "map_of (dir_files (wal_dir w)) ?name = None" by blast
    show ?thesis
    proof (cases "io_new_sync io \<and> io_dir_sync io")
      case True
      then have e: "r = Inr ()" "w' = ?w1\<lparr>wal_file := True, current_wal_file := ?name, current_file_position := 0,
          last_synced_file_position := 0, wal_sequence := wal_sequence w + 1,
          validated_closed_generations := validated_closed_generations w @ [?closed]\<rparr>"
        using body False by (auto simp: create_file_def)
      have iv: "wal_inv crc compress p (ls @ [es]) [] w'" by (rule rotated_inv [OF assms(1,2,6) fresh refl e(2)])
      have l: "current_lsn w' = current_lsn w" "wal_sequence w' = wal_sequence w + 1" "replay_floor w' = replay_floor w" by (simp_all add: e(2) create_file_def)
      have "durable crc compress l [] w'" for l by (simp add: durable_def)
      then have "ext crc compress p ls es w (ls @ [es]) [] w'" using iv l unfolding ext_def by simp
      then show ?thesis using e(1) l by blast
    next
      case nsync: False
      have a: "abandon_rotation io ?name ?w1 = (r, w')" using body False nsync by (auto split: if_splits)
      show ?thesis
      proof (cases "io_remove io")
        case True
        have "delete_file ?name ?w1 = w"
          using delete_update_fresh [OF fresh] by (simp add: delete_file_def create_file_def)
        then show ?thesis using a True same by (auto simp: abandon_rotation_def)
      next
        case False
        have x: "ext crc compress p ls es w ls es ?w1" by (rule orphan_inv [OF assms(1) fresh assms(6)])
        then have "wal_inv crc compress p ls es ?w1" by (simp add: ext_def)
        from ext_trans [OF x ext_same_log [OF this same_log_status(1)]] show ?thesis
          using a False by (auto simp: abandon_rotation_def)
      qed
    qed
  qed
qed

section \<open>Opening a directory that holds a log\<close>

lemma connected_generations_of: "connected_generations (generations_of crc compress g p logs) = Inr ()"
proof (induction logs arbitrary: g p)
  case (Cons es logs)
  then show ?case by (cases logs) (auto dest: meta_spec [of _ "Suc g"] meta_spec [of _ "last_lsn p es"])
qed simp

lemma suffix_of_generations:
  assumes "logs \<noteq> []" "chained p (concat logs)"
  shows "validate_required_generation_suffix (generations_of crc compress g p logs) p = Inr ()"
proof -
  obtain es ls where logs: "logs = es # ls" using assms(1) by (cases logs) auto
  then have "p \<le> last_lsn p es" using assms(2) chained_le by auto
  then show ?thesis
    using connected_generations_of [of crc compress g p logs]
    by (simp add: validate_required_generation_suffix_def logs)
qed

lemma generations_sequences: "map gen_sequence (generations_of crc compress g p logs) = [g..<g + length logs]"
  by (induction logs arbitrary: g p) (simp_all add: upt_conv_Cons del: upt_Suc)

lemma butlast_generations:
  "logs \<noteq> [] \<Longrightarrow> butlast (generations_of crc compress g p logs) = generations_of crc compress g p (butlast logs)"
  by (cases logs rule: rev_cases) (simp_all add: generations_of_append)

lemma last_generation:
  "gen_name (last (generations_of crc compress g p (ls @ [es]))) = canonical_filename (g + length ls)"
  "gen_end_lsn (last (generations_of crc compress g p (ls @ [es]))) = last_lsn p (concat ls @ es)"
  by (simp_all add: generations_of_append)

lemma open_holds:
  assumes "crc_ok crc" "lz4_ok compress decompress" "chained p (concat ls @ es)" "\<forall>l \<in> set (es # ls). log_ok crc compress l"
    and "dir_files_from g (map (log_bytes crc compress) (ls @ [es])) dir"
  shows "\<exists>w. with_replay_floor crc decompress io dir mode config (g, p) ts = Inr w \<and> wal_inv crc compress p ls es w \<and>
    replay_floor w = (g, p) \<and> wal_dir w = dir \<and> buffer w = [] \<and> lifecycle w = Running \<and> wal_file w \<and>
    wal_sync_mode w = mode \<and> last_checkpoint w = p"
proof -
  let ?gens = "generations_of crc compress g p (ls @ [es])"
  have c: "collect_validated_generations crc decompress dir g p = Inr ?gens"
    using collect_generations [OF assms(1,2), of p "ls @ [es]" g "[]" dir] assms(3-5) by simp
  have s: "validate_required_generation_suffix ?gens p = Inr ()"
    by (rule suffix_of_generations) (use assms(3) in simp_all)
  have ne: "?gens \<noteq> []" by (simp add: generations_of_append)
  have "set (map gen_sequence ?gens) = {g..<g + Suc (length ls)}" unfolding generations_sequences by auto
  then have m: "Max (set (map gen_sequence ?gens)) = g + length ls" by (auto intro!: Max_eqI)
  have le: "p \<le> last_lsn p (concat ls @ es)" using chained_le [OF assms(3)] by simp
  have g: "0 < g" "g + length ls + 1 < 2 ^ 64" using assms(5) by (simp_all add: dir_files_from_def)
  have bytes: "map_of (dir_files dir) (canonical_filename (g + length ls)) = Some (log_bytes crc compress es)"
    using assms(5) g unfolding dir_files_from_def by (auto simp: nth_append)
  obtain w where w: "with_replay_floor crc decompress io dir mode config (g, p) ts = Inr w"
    and f: "wal_dir w = dir" "current_wal_file w = canonical_filename (g + length ls)" "wal_sequence w = g + length ls"
      "current_lsn w = last_lsn p (concat ls @ es)" "wal_previous_lsn w = last_lsn p (concat ls @ es)" "buffer w = []"
      "replay_floor w = (g, p)" "validated_closed_generations w = butlast ?gens"
      "current_file_position w = length (log_bytes crc compress es)"
      "last_synced_file_position w = length (log_bytes crc compress es)"
      "lifecycle w = Running" "wal_file w" "wal_sync_mode w = mode" "last_checkpoint w = p"
    using le unfolding with_replay_floor_def Let_def
    by (simp add: c s ne m last_generation bytes del: set_map)
  have gens: "validated_closed_generations w = generations_of crc compress g p ls"
    using f(8) butlast_generations [of "ls @ [es]"] by simp
  have fg: "first_generation w = g" by (simp add: first_generation_def f(3) gens)
  have fb: "file_bytes w = log_bytes crc compress es" by (simp add: file_bytes_def f bytes)
  have "floor_ok p ls w" unfolding floor_ok_def fg f by (intro exI [of _ 0]) simp
  moreover have "\<exists>orphan \<in> {[], [[]]}. dir_files_from g (map (log_bytes crc compress) ls @ log_bytes crc compress es # orphan) dir"
    using assms(5) by simp
  ultimately have "wal_inv crc compress p ls es w"
    unfolding wal_inv_def fg fb gens using assms(3,4) g f by simp
  then show ?thesis using w f by blast
qed

lemma dir_files_from_drop:
  assumes "dir_files_from g cs dir" "j \<le> length cs"
  shows "dir_files_from (g + j) (drop j cs) dir"
proof -
  have "map_of (dir_files dir) (canonical_filename h) = (if h < g + j + length (drop j cs) then Some (drop j cs ! (h - (g + j))) else None)"
    if h: "g + j \<le> h" "h < 2 ^ 64" for h
  proof -
    obtain k where k: "h = g + j + k" using h(1) le_Suc_ex by blast
    have "map_of (dir_files dir) (canonical_filename h) = (if h < g + length cs then Some (cs ! (h - g)) else None)"
      using assms(1) h by (simp add: dir_files_from_def)
    then show ?thesis using assms(2) k by simp
  qed
  then show ?thesis using assms unfolding dir_files_from_def by fastforce
qed

section \<open>Histories\<close>

text \<open>
  One critical section of any operation, with any answers of the operating system. A log file stays below
  \<open>2^64\<close> bytes and there are fewer than \<open>2^64 - 2\<close> generations.
\<close>

inductive wal_next ::
  "(byte list \<Rightarrow> nat) \<Rightarrow> (byte list \<Rightarrow> byte list) \<Rightarrow> (byte list \<Rightarrow> byte list option) \<Rightarrow> wal \<Rightarrow> wal \<Rightarrow> bool"
  for crc compress decompress where
  next_append: "entry_ok e \<Longrightarrow> append_entry crc compress io e w = (r, w') \<Longrightarrow> log_size w' \<le> u64_max \<Longrightarrow>
     wal_next crc compress decompress w w'"
| next_batch: "\<forall>e \<in> set es. entry_ok e \<Longrightarrow> append_entries crc compress ios es w = (r, w') \<Longrightarrow> log_size w' \<le> u64_max \<Longrightarrow>
     wal_next crc compress decompress w w'"
| next_flush: "flush io w = (r, w') \<Longrightarrow> wal_next crc compress decompress w w'"
| next_sync: "wal_sync io w = (r, w') \<Longrightarrow> wal_next crc compress decompress w w'"
| next_checkpoint: "create_checkpoint io w = (r', w') \<Longrightarrow> wal_next crc compress decompress w w'"
| next_rotate: "maybe_rotate crc decompress io w = (b, w') \<Longrightarrow> wal_sequence w + 2 < 2 ^ 64 \<Longrightarrow>
     wal_next crc compress decompress w w'"
| next_retention: "prepare_checkpoint_retention crc decompress io l w = (g, w') \<Longrightarrow> wal_sequence w + 2 < 2 ^ 64 \<Longrightarrow>
     wal_next crc compress decompress w w'"
| next_freeze: "freeze_snapshot_generations crc decompress io floor w = (gs, w') \<Longrightarrow> wal_sequence w + 2 < 2 ^ 64 \<Longrightarrow>
     wal_next crc compress decompress w w'"
| next_begin_close: "begin_close w = (b, w') \<Longrightarrow> wal_next crc compress decompress w w'"
| next_finish_close: "finish_close io w = (u, w') \<Longrightarrow> wal_next crc compress decompress w w'"

lemma when_running_cases:
  "when_running w k = (r, w') \<Longrightarrow> (k = (r, w') \<Longrightarrow> P) \<Longrightarrow> (w' = w \<Longrightarrow> P) \<Longrightarrow> P"
  unfolding when_running_def by (cases "require_running_transition (lifecycle w)") auto

lemma flush_and_sync_sequence:
  assumes "has_file w" "flush_and_sync io w = (r, w')"
  shows "wal_sequence w' = wal_sequence w"
proof -
  obtain r1 w1 where w1: "flush_under_transition io w = (r1, w1)" by (rule prod.exhaust)
  obtain n where "w1 = move n w" using flush_cases [OF assms(1) w1] by blast
  then have s: "wal_sequence w1 = wal_sequence w" by (simp add: move_def append_file_def)
  obtain r2 w2 where w2: "sync_locked io w1 = (r2, w2)" by (rule prod.exhaust)
  then have "wal_sequence w2 = wal_sequence w1" by (auto simp: sync_locked_def split: if_splits)
  then show ?thesis
    using assms(2) w1 w2 s unfolding flush_and_sync_def
    by (cases r1; cases r2) (auto simp: mark_transition_uncertain_def)
qed

lemma flush_sync_rotate_ext:
  assumes "wal_inv crc compress p ls es w" "crc_ok crc" "lz4_ok compress decompress" "wal_sequence w + 2 < 2 ^ 64"
    and "flush_and_sync io w = (Inr u, w1)" "rotate_wal_under_transition crc decompress io w1 = (r, w2)"
  shows "r = Inr () \<and> ext crc compress p ls es w (ls @ [es]) [] w2 \<and> wal_sequence w2 = wal_sequence w1 + 1 \<and>
      current_lsn w2 = current_lsn w \<or>
    (\<exists>e. r = Inl e) \<and> ext crc compress p ls es w ls es w2"
proof -
  have x: "ext crc compress p ls es w ls es w1" "buffer w1 = []"
    using flush_and_sync_ext [OF assms(1,5)] by simp_all
  then have i: "wal_inv crc compress p ls es w1" by (simp add: ext_def)
  have "current_lsn w1 = current_lsn w" using i assms(1) unfolding wal_inv_def by (metis (no_types))
  moreover have "wal_sequence w1 = wal_sequence w" by (rule flush_and_sync_sequence [OF wal_invD(5) [OF assms(1)] assms(5)])
  ultimately show ?thesis
    using rotate_ext [OF i x(2) assms(2,3,6)] assms(4) ext_trans [OF x(1)] by auto
qed

lemma next_ext:
  assumes "wal_next crc compress decompress w w'" "wal_inv crc compress p ls es w" "crc_ok crc" "lz4_ok compress decompress"
  shows "\<exists>ls' es'. ext crc compress p ls es w ls' es' w'"
proof -
  note i = assms(2)
  have same: "ext crc compress p ls es w ls es w" by (rule ext_same_log [OF i same_log_refl])
  have rot: "\<exists>ls' es'. ext crc compress p ls es w ls' es' w''"
    if "wal_sequence w + 2 < 2 ^ 64" "flush_and_sync io w = (r1, w1)"
      "case r1 of Inl _ \<Rightarrow> w'' = w1 | Inr _ \<Rightarrow> (w'' = w1 \<or> (\<exists>r. rotate_wal_under_transition crc decompress io w1 = (r, w'')))"
    for io r1 w1 w''
  proof (cases r1)
    case (Inl e)
    then show ?thesis using that(2,3) flush_and_sync_ext [OF i that(2)] by auto
  next
    case (Inr u)
    then show ?thesis
      using that flush_and_sync_ext [OF i that(2)] flush_sync_rotate_ext [OF i assms(3,4) that(1), of io u w1] by fastforce
  qed
  from assms(1) show ?thesis
  proof cases
    case (next_append e io r)
    then show ?thesis using append_entry_ext [OF i] by blast
  next
    case (next_batch new ios r)
    then show ?thesis using append_entries_ext [OF i] by blast
  next
    case (next_flush io r)
    from next_flush [unfolded flush_def] show ?thesis
      by (rule when_running_cases) (use flush_ext [OF i] same in blast)+
  next
    case (next_sync io r)
    from next_sync [unfolded wal_sync_def] show ?thesis
      by (rule when_running_cases) (use flush_and_sync_ext [OF i] same in blast)+
  next
    case (next_checkpoint io r)
    then show ?thesis using create_checkpoint_ext [OF i] by blast
  next
    case (next_rotate io b)
    obtain r1 w1 where w1: "flush_and_sync io w = (r1, w1)" by (rule prod.exhaust)
    from next_rotate(1) [unfolded maybe_rotate_def] show ?thesis
    proof (rule when_running_cases)
      assume a: "(if current_file_position w < max_wal_size w then (Inr False, w)
        else case flush_and_sync io w of (Inl e, w1) \<Rightarrow> (Inl e, w1)
          | (Inr _, w1) \<Rightarrow> (case rotate_wal_under_transition crc decompress io w1 of (Inl e, w2) \<Rightarrow> (Inl e, w2)
              | (Inr _, w2) \<Rightarrow> (Inr True, w2))) = (b, w')"
      show ?thesis
      proof (cases "current_file_position w < max_wal_size w")
        case True
        then show ?thesis using a same by auto
      next
        case False
        show ?thesis
          by (rule rot [OF next_rotate(2) w1])
            (use a False w1 in \<open>auto split: sum.splits prod.splits if_splits\<close>)
      qed
    qed (use same in blast)
  next
    case (next_retention io l g)
    obtain r1 w1 where w1: "flush_and_sync io w = (r1, w1)" by (rule prod.exhaust)
    have "w' = w \<or> (case r1 of Inl _ \<Rightarrow> w' = w1 | Inr _ \<Rightarrow> (w' = w1 \<or> (\<exists>r. rotate_wal_under_transition crc decompress io w1 = (r, w'))))"
      using next_retention(1) w1 unfolding prepare_checkpoint_retention_def when_running_def
      by (auto split: sum.splits prod.splits if_splits)
    then show ?thesis using same rot [OF next_retention(2) w1] by blast
  next
    case (next_freeze io floor gs)
    obtain r1 w1 where w1: "flush_and_sync io w = (r1, w1)" by (rule prod.exhaust)
    have "w' = w \<or> (case r1 of Inl _ \<Rightarrow> w' = w1 | Inr _ \<Rightarrow> (w' = w1 \<or> (\<exists>r. rotate_wal_under_transition crc decompress io w1 = (r, w'))))"
      using next_freeze(1) w1 unfolding freeze_snapshot_generations_def when_running_def Let_def
      by (auto split: sum.splits prod.splits if_splits)
    then show ?thesis using same rot [OF next_freeze(2) w1] by blast
  next
    case (next_begin_close b)
    then have "same_log w w'"
      unfolding begin_close_def using same_log_status(3) by (auto split: wal_lifecycle.splits)
    then show ?thesis using ext_same_log [OF i] by blast
  next
    case (next_finish_close io u)
    obtain r1 w1 where w1: "flush_under_transition io w = (r1, w1)" by (rule prod.exhaust)
    obtain r2 w2 where w2: "sync_locked io w1 = (r2, w2)" by (rule prod.exhaust)
    have x: "ext crc compress p ls es w ls es w1" using flush_ext [OF i w1] by blast
    then have i1: "wal_inv crc compress p ls es w1" by (simp add: ext_def)
    have "same_log w1 w'"
      using next_finish_close w1 w2 same_log_trans [OF same_log_sync [OF i1 w2]] same_log_status
      unfolding finish_close_def by (cases r1; cases r2) auto
    then show ?thesis using ext_trans [OF x ext_same_log [OF i1]] by blast
  qed
qed

lemma steps_ext:
  assumes "(wal_next crc compress decompress)\<^sup>*\<^sup>* w w'" "wal_inv crc compress p ls es w" "crc_ok crc" "lz4_ok compress decompress"
  shows "\<exists>ls' es'. ext crc compress p ls es w ls' es' w'"
  using assms(1)
proof (induction rule: rtranclp_induct)
  case base
  then show ?case using ext_same_log [OF assms(2) same_log_refl] by blast
next
  case (step w1 w2)
  then obtain ls1 es1 where x: "ext crc compress p ls es w ls1 es1 w1" by blast
  then have "wal_inv crc compress p ls1 es1 w1" by (simp add: ext_def)
  from next_ext [OF step(2) this assms(3,4)] show ?case using ext_trans [OF x] by blast
qed

end
