(* ===== verification/Wal_Crash.thy ===== *)
theory Wal_Crash
  imports Wal_Durability
begin

text \<open>
  Crashes and checkpoints of the log manager. A crash keeps every file that was synced and any prefix of the
  current file that contains its synced part; then the log is opened again from the replay floor. The
  properties: an acknowledged commit survives, the admitted entries are exactly what the files and the
  buffer hold, failed writes lose nothing that was admitted, and which replay floors a checkpoint may publish.
\<close>

section \<open>Crashes\<close>

definition crash_image :: "nat \<Rightarrow> wal \<Rightarrow> wal_directory" where
  "crash_image k w = (wal_dir w)\<lparr>dir_files := AList.update (current_wal_file w) (take k (file_bytes w)) (dir_files (wal_dir w))\<rparr>"

lemma chained_filter:
  assumes "chained p (xs @ ys)"
  shows "filter (\<lambda>e. last_lsn p xs < lsn e) (xs @ ys) = ys"
proof -
  have "\<forall>e \<in> set xs. lsn e \<le> last_lsn p xs" "\<forall>e \<in> set ys. last_lsn p xs < lsn e"
    using assms chained_le [of p xs] chained_gt [of "last_lsn p xs" ys] by auto
  then show ?thesis by (auto simp: filter_empty_conv filter_id_conv)
qed

lemma log_take_less:
  assumes "n < m" "m \<le> length es" "\<forall>e \<in> set es. writable compress e"
  shows "length (log_bytes crc compress (take n es)) < length (log_bytes crc compress (take m es))"
proof -
  have "es ! n \<in> set es" using assms by simp
  then have r: "0 < length (record_bytes crc compress (es ! n))"
    using assms(3) length_record_bytes [of "es ! n" crc compress] by (auto simp: writable_def)
  obtain d where d: "m = Suc n + d" using assms(1) less_iff_Suc_add by auto
  have "take m es = take n es @ [es ! n] @ take d (drop (Suc n) es)"
    using assms take_add [of "Suc n" d es] by (simp add: d take_Suc_conv_app_nth [of n es] del: add_Suc)
  then show ?thesis using r by simp
qed

lemma crash_open:
  assumes "wal_inv crc compress p ls es w" "crc_ok crc" "lz4_ok compress decompress" "k \<le> length (file_bytes w)"
    and "with_replay_floor crc decompress io (crash_image k w) mode config (replay_floor w) ts = r"
  obtains (fails) err where "r = Inl err" "\<nexists>n. k = length (log_bytes crc compress (take n es))"
  | (opens) n ls' es' w' where "r = Inr w'" "n \<le> length es" "k = length (log_bytes crc compress (take n es))"
      "wal_inv crc compress (replay_floor_lsn w) ls' es' w'" "replay_floor w' = replay_floor w" "buffer w' = []" "lifecycle w' = Running"
      "concat ls' @ es' = filter (\<lambda>e. replay_floor_lsn w < lsn e) (concat ls @ take n es)"
proof -
  note i = assms(1) [unfolded wal_inv_def]
  from i obtain j where j: "j \<le> length ls" "replay_floor w = (first_generation w + j, last_lsn p (concat (take j ls)))"
    unfolding floor_ok_def by blast
  let ?q = "last_lsn p (concat (take j ls))"
  from i obtain orphan where o: "orphan \<in> {[], [[]]}"
    "dir_files_from (first_generation w) (map (log_bytes crc compress) ls @ file_bytes w # orphan) (wal_dir w)" by blast
  have lb: "file_bytes w @ buffer w = log_bytes crc compress es" and lo: "\<forall>l \<in> set (es # ls). log_ok crc compress l"
    and ch: "chained p (concat ls @ es)" and nm: "current_wal_file w = canonical_filename (first_generation w + length ls)"
    using i wal_invD(2) [OF assms(1)] by simp_all
  have tk: "take k (file_bytes w) = take k (log_bytes crc compress es)" "k \<le> length (log_bytes crc compress es)"
    using assms(4) by (simp_all flip: lb)
  have "dir_files_from (first_generation w) (map (log_bytes crc compress) ls @ take k (file_bytes w) # orphan) (crash_image k w)"
    unfolding crash_image_def nm using dir_files_from_update [OF o(2), of "length ls"] wal_invD(2,4) [OF assms(1)] by simp
  from dir_files_from_drop [OF this, of j] j(1)
  have dir: "dir_files_from (first_generation w + j) (map (log_bytes crc compress) (drop j ls) @ take k (file_bytes w) # orphan) (crash_image k w)"
    by (simp add: drop_map)
  have spl: "concat ls = concat (take j ls) @ concat (drop j ls)" by (metis append_take_drop_id concat_append)
  then have ch': "chained ?q (concat (drop j ls) @ es)" using ch by simp
  have lo': "\<forall>l \<in> set (drop j ls). log_ok crc compress l" "log_ok crc compress es" using lo by (auto dest: in_set_dropD)
  have q: "replay_floor_lsn w = ?q" by (simp add: replay_floor_lsn_def j(2))
  show thesis
  proof (rule log_cut [OF tk(2)])
    fix n assume n: "n \<le> length es" "take k (log_bytes crc compress es) = log_bytes crc compress (take n es)"
      "k = length (log_bytes crc compress (take n es))"
    have cn: "chained ?q (concat (drop j ls) @ take n es)" using ch' chained_take by auto
    have ln: "log_ok crc compress (take n es)"
      using lo'(2) n(2) by (auto simp: log_ok_def dest: in_set_takeD) (metis (no_types) length_take min.coboundedI1 min.commute)
    define ls' es' where "ls' = (if orphan = [] then drop j ls else drop j ls @ [take n es])"
      and "es' = (if orphan = [] then take n es else [])"
    have c: "concat ls' @ es' = concat (drop j ls) @ take n es" by (simp add: ls'_def es'_def)
    have d: "dir_files_from (first_generation w + j) (map (log_bytes crc compress) (ls' @ [es'])) (crash_image k w)"
      using dir o(1) n(2) tk(1) by (auto simp: ls'_def es'_def)
    have l: "\<forall>l \<in> set (es' # ls'). log_ok crc compress l" using lo'(1) ln by (auto simp: ls'_def es'_def)
    obtain w' where w': "r = Inr w'" "wal_inv crc compress ?q ls' es' w'" "replay_floor w' = replay_floor w"
      "buffer w' = []" "lifecycle w' = Running"
      using open_holds [OF assms(2,3) cn [folded c] l d, of io mode config ts] assms(5) j(2) by auto
    have "chained p (concat (take j ls) @ concat (drop j ls) @ take n es)" using ch spl cn by simp
    from chained_filter [OF this] have "concat ls' @ es' = filter (\<lambda>e. ?q < lsn e) (concat ls @ take n es)"
      using c spl by simp
    then show thesis using opens [OF w'(1) n(1,3) _ w'(3-5)] w'(2) q by simp
  next
    fix n m assume n: "n < length es" "0 < m" "m < length (record_bytes crc compress (es ! n))"
      "take k (log_bytes crc compress es) = log_bytes crc compress (take n es) @ take m (record_bytes crc compress (es ! n))"
      "k = length (log_bytes crc compress (take n es)) + m"
    have kn: "length (log_bytes crc compress (take n es)) < k" "k < length (log_bytes crc compress (take (Suc n) es))"
      using n by (simp_all add: take_Suc_conv_app_nth)
    let ?g = "first_generation w + j + length (drop j ls)"
    have f: "map_of (dir_files (crash_image k w)) (canonical_filename ?g) = Some (take k (log_bytes crc compress es))"
      using j(1) by (simp add: crash_image_def nm tk(1))
    have "chained (last_lsn ?q (concat (drop j ls))) es" using ch' by simp
    from validate_generation_torn [OF assms(2,3) this lo'(2) n(1) kn f]
    obtain err where v: "validate_generation crc decompress (dir_files (crash_image k w)) (canonical_filename ?g) ?g
        (last_lsn ?q (concat (drop j ls))) = Inl err" by blast
    have "collect_validated_generations crc decompress (crash_image k w) (first_generation w + j) ?q = Inl err"
      using collect_generations [OF assms(2,3) _ lo'(1) dir] ch' v by (simp add: upt_conv_Cons del: upt_Suc)
    then have "r = Inl err" using assms(5) j(2) by (simp add: with_replay_floor_def)
    moreover have "\<nexists>m. k = length (log_bytes crc compress (take m es))"
    proof
      assume "\<exists>m. k = length (log_bytes crc compress (take m es))"
      then obtain m' where m': "k = length (log_bytes crc compress (take m' es))" by blast
      have wr: "\<forall>e \<in> set es. writable compress e" using lo'(2) by (simp add: log_ok_def)
      show False
      proof (cases "m' \<le> n")
        case True
        then show ?thesis using log_take_less [of m' n es compress crc] m' kn(1) n(1) wr by (cases "m' = n") auto
      next
        case False
        then have "Suc n = min m' (length es) \<or> Suc n < min m' (length es)" using n(1) by auto
        moreover have "take m' es = take (min m' (length es)) es" by (simp add: min_def)
        ultimately show ?thesis using log_take_less [of "Suc n" "min m' (length es)" es compress crc] m' kn(2) wr by auto
      qed
    qed
    ultimately show thesis by (rule fails)
  qed
qed

section \<open>Durability\<close>

lemma durable_prefix:
  assumes "wal_inv crc compress p ls es w" "durable crc compress l es w" "prefix xs (concat ls @ es)" "\<forall>e \<in> set xs. lsn e \<le> l"
    and "last_synced_file_position w \<le> length (log_bytes crc compress (take n es))"
  shows "prefix xs (concat ls @ take n es)"
proof -
  obtain es1 es2 where d: "es = es1 @ es2" "length (log_bytes crc compress es1) \<le> last_synced_file_position w"
      "\<forall>e \<in> set es2. l < lsn e" using assms(2) by (auto simp: durable_def)
  have wr: "\<forall>e \<in> set es. writable compress e" using assms(1) by (simp add: wal_inv_def log_ok_def)
  have "length es1 \<le> n"
  proof (rule ccontr)
    assume "\<not> length es1 \<le> n"
    then show False using log_take_less [of n "length es1" es compress crc] wr d(1,2) assms(5) by simp
  qed
  then have "set (drop n es) \<subseteq> set es2" using d(1) by (auto dest: in_set_dropD)
  then have late: "\<forall>e \<in> set (drop n es). l < lsn e" using d(3) by blast
  have full: "concat ls @ es = (concat ls @ take n es) @ drop n es" by simp
  from assms(3) full have "prefix xs (concat ls @ take n es) \<or> (\<exists>zs. xs = (concat ls @ take n es) @ zs \<and> prefix zs (drop n es))"
    by (metis prefix_append)
  moreover have "zs = []" if "xs = (concat ls @ take n es) @ zs" "prefix zs (drop n es)" for zs
  proof (rule ccontr)
    assume "zs \<noteq> []"
    then have "hd zs \<in> set xs" "hd zs \<in> set (drop n es)" using that set_mono_prefix by fastforce+
    then show False using assms(4) late by fastforce
  qed
  ultimately show ?thesis by auto
qed

lemma acknowledged_survives:
  assumes "wal_inv crc compress p ls es w" "crc_ok crc" "lz4_ok compress decompress" "entry_ok e"
    and "append_entry crc compress io e w = (Inr l, w1)" "log_size w1 \<le> u64_max" "acknowledged_sync w (operation e)"
    and "(wal_next crc compress decompress)\<^sup>*\<^sup>* w1 w2"
    and "last_synced_file_position w2 \<le> k" "k \<le> length (file_bytes w2)"
    and "with_replay_floor crc decompress io' (crash_image k w2) mode config (replay_floor w2) ts = Inr w3"
  obtains ls' es' where "wal_inv crc compress (replay_floor_lsn w) ls' es' w3" "replay_floor_lsn w3 = replay_floor_lsn w"
    "buffer w3 = []" "lifecycle w3 = Running"
    "prefix (filter (\<lambda>x. replay_floor_lsn w < lsn x) (concat ls @ es @ [e\<lparr>previous_lsn := current_lsn w, lsn := l\<rparr>])) (concat ls' @ es')"
    "\<forall>x \<in> set (concat ls' @ es'). replay_floor_lsn w < lsn x"
proof -
  let ?e = "e\<lparr>previous_lsn := current_lsn w, lsn := current_lsn w + 1\<rparr>"
  have l: "l = current_lsn w + 1" and x1: "ext crc compress p ls es w ls (es @ [?e]) w1"
    and d1: "durable crc compress (current_lsn w + 1) (es @ [?e]) w1"
    using append_entry_ext [OF assms(1,4,5,6)] assms(7) by auto
  then have i1: "wal_inv crc compress p ls (es @ [?e]) w1" by (simp add: ext_def)
  obtain ls2 es2 where x2: "ext crc compress p ls (es @ [?e]) w1 ls2 es2 w2"
    using steps_ext [OF assms(8) i1 assms(2,3)] by blast
  have c1: "current_lsn w1 = l" using i1 by (simp add: wal_inv_def l)
  have i2: "wal_inv crc compress p ls2 es2 w2" and pre: "prefix (concat ls @ es @ [?e]) (concat ls2 @ es2)"
    and d2: "durable crc compress l es2 w2" and fl: "replay_floor w2 = replay_floor w"
    using x1 x2 d1 c1 l unfolding ext_def by auto
  have "chained p (concat ls @ es @ [?e])" "last_lsn p (concat ls @ es @ [?e]) = l"
    using i1 unfolding wal_inv_def by (simp_all add: l)
  then have le: "\<forall>x \<in> set (concat ls @ es @ [?e]). lsn x \<le> l" using chained_le by blast
  show thesis
  proof (rule crash_open [OF i2 assms(2,3,10,11)])
    fix err assume "(Inr w3 :: (log_error, wal) result) = Inl err"
    then show thesis by simp
  next
    fix n ls' es' w' assume r: "(Inr w3 :: (log_error, wal) result) = Inr w'" "k = length (log_bytes crc compress (take n es2))"
      "wal_inv crc compress (replay_floor_lsn w2) ls' es' w'" "replay_floor w' = replay_floor w2" "buffer w' = []" "lifecycle w' = Running"
      "concat ls' @ es' = filter (\<lambda>e. replay_floor_lsn w2 < lsn e) (concat ls2 @ take n es2)"
    have q: "replay_floor_lsn w2 = replay_floor_lsn w" "replay_floor_lsn w' = replay_floor_lsn w" using fl r(4) by (simp_all add: replay_floor_lsn_def)
    have "prefix (concat ls @ es @ [?e]) (concat ls2 @ take n es2)"
      by (rule durable_prefix [OF i2 d2 pre le]) (use assms(9) r(2) in simp)
    from filter_mono_prefix [OF this] show thesis
      by (intro that [of ls' es']) (use r q l in \<open>simp_all del: filter_append\<close>)
  qed
qed


text \<open>A new log directory, opened in normal sync mode, and an operating system that does not fail.\<close>

definition example_io :: wal_io where
  "example_io = \<lparr>io_write = None, io_sync = True, io_elapsed = 0, io_create = True, io_new_sync = True,
     io_dir_sync = True, io_remove = True\<rparr>"

definition example_dir :: wal_directory where
  "example_dir = \<lparr>dir_files = [(canonical_filename 1, [])], dir_retired = None\<rparr>"

lemma example_dir_from: "dir_files_from 1 [[]] example_dir"
proof -
  have "map_of (dir_files example_dir) (canonical_filename h) = (if h < 1 + length [[]] then Some ([[]] ! (h - 1)) else None)"
    if "1 \<le> h" "h < 2 ^ 64" for h
    using canonical_filename_inj [of h 1] that by (auto simp: example_dir_def)
  then show ?thesis unfolding dir_files_from_def by (auto simp: example_dir_def intro!: exI [of _ "1 :: nat"])
qed

lemma example_open:
  "\<exists>w. with_replay_floor example_crc example_decompress example_io example_dir mode None (1, 0) 0 = Inr w \<and>
     wal_inv example_crc example_compress 0 [] [] w \<and> replay_floor w = (1, 0) \<and> wal_dir w = example_dir \<and> buffer w = [] \<and>
     lifecycle w = Running \<and> wal_file w \<and> wal_sync_mode w = mode \<and> last_checkpoint w = 0"
  using open_holds [OF example_crc_ok example_lz4_ok, of 0 "[]" "[]" 1 example_dir example_io mode None 0]
    example_dir_from by simp

lemma commit_entry_ok:
  "in_i64 now \<Longrightarrow> in_i64 txn \<Longrightarrow> l < 2 ^ 64 \<Longrightarrow> q < 2 ^ 64 \<Longrightarrow> entry_ok ((commit_entry now txn)\<lparr>previous_lsn := q, lsn := l\<rparr>)"
  "validate_semantics ((commit_entry now txn)\<lparr>previous_lsn := q, lsn := l\<rparr>) = Inr ()"
  "fits compress ((commit_entry now txn)\<lparr>previous_lsn := q, lsn := l\<rparr>)"
proof -
  show "in_i64 now \<Longrightarrow> in_i64 txn \<Longrightarrow> l < 2 ^ 64 \<Longrightarrow> q < 2 ^ 64 \<Longrightarrow> entry_ok ((commit_entry now txn)\<lparr>previous_lsn := q, lsn := l\<rparr>)"
    by (simp add: entry_ok_def commit_entry_def with_flags_def new_entry_def)
  have "COMMIT_MARKER AND NOT WAL_KNOWN_FLAGS = 0" by (simp add: known_flags_bit flag_bits)
  then show "validate_semantics ((commit_entry now txn)\<lparr>previous_lsn := q, lsn := l\<rparr>) = Inr ()"
    by (simp add: validate_semantics_Inr commit_entry_def with_flags_def new_entry_def flag_bits)
  show "fits compress ((commit_entry now txn)\<lparr>previous_lsn := q, lsn := l\<rparr>)"
    by (simp add: fits_def encoded_payload_def compressed_payload_def commit_entry_def with_flags_def new_entry_def wal_defs)
qed

lemma example_append:
  assumes "lifecycle w = Running" "wal_file w" "wal_sync_mode w = SyncNormal" "current_lsn w = wal_previous_lsn w" "current_lsn w < 1000"
  shows "fst (append_entry example_crc example_compress example_io (commit_entry 1700 9) w) = Inr (current_lsn w + 1)"
proof -
  let ?w = "w\<lparr>last_timestamp := max (last_timestamp w) 1700\<rparr>"
  let ?e = "(commit_entry 1700 9)\<lparr>previous_lsn := wal_previous_lsn w, lsn := Suc (current_lsn w)\<rparr>"
  let ?q = "\<lparr>prep_lsn = lsn ?e, prep_txn_id = txn_id ?e, prep_operation = operation ?e,
      prep_encoded = record_bytes example_crc example_compress ?e\<rparr>"
  have c: "txn_id (commit_entry 1700 9) = 9" "timestamp (commit_entry 1700 9) = 1700" "operation ?e = Commit"
    by (simp_all add: commit_entry_def with_flags_def new_entry_def)
  have "encode example_crc example_compress ?e = Inr (record_bytes example_crc example_compress ?e)"
    using commit_entry_ok(2,3) [where txn = 9 and now = 1700] by (simp add: encode_Inr)
  then have p: "prepare_entry example_crc example_compress ?e = Inr ?q" by (simp add: prepare_entry_def)
  have o: "observe_persisted_timestamp 1700 w = (True, ?w)"
    by (simp add: observe_persisted_timestamp_def MAX_DURABLE_TIMESTAMP_def)
  have k: "checked_add_u64 (current_lsn w) (Suc 0) = Some (Suc (current_lsn w))" using assms(5) by simp
  have "append_entry example_crc example_compress example_io (commit_entry 1700 9) w = append_prepared_entry example_io ?q ?w"
    unfolding append_entry_def when_running_def assms(1) require_running_transition.simps c(1,2) o
    by (simp add: p k del: checked_add_u64_Some)
  moreover have "fst (append_prepared_entry example_io ?q ?w) = Inr (current_lsn w + 1)"
    unfolding append_prepared_entry_def Let_def
    using assms(2,3) c(3)
    by (simp add: force_flush_def write_to_file_def example_io_def should_sync_def publish_admitted_fields_def
        append_file_def sync_locked_def)
  ultimately show ?thesis by simp
qed

lemma append_entry_size:
  assumes "has_file w" "entry_ok e" "wal_previous_lsn w \<le> current_lsn w" "append_entry crc compress io e w = (r, w')"
  shows "log_size w' \<le> log_size w + (MAX_WAL_RECORD_DATA_SIZE + 36)"
proof -
  obtain ok w1 where w1: "observe_persisted_timestamp (timestamp e) w = (ok, w1)" by (rule prod.exhaust)
  have s: "same_log w w1" using same_log_status(2) [of w "timestamp e"] w1 by simp
  have eq: "log_size w1 = log_size w" "current_lsn w1 = current_lsn w" "wal_previous_lsn w1 = wal_previous_lsn w" "has_file w1"
    using same_log_size [OF s] s assms(1) by (simp_all add: same_log_def has_file_def)
  let ?e = "e\<lparr>previous_lsn := wal_previous_lsn w1, lsn := Suc (current_lsn w)\<rparr>"
  consider "w' = w" | "w' = w1" | q where "prepare_entry crc compress ?e = Inr q" "append_prepared_entry io q w1 = (r, w')"
      "current_lsn w + 1 \<le> u64_max"
    using assms(4) w1 unfolding append_entry_def when_running_def
    by (cases ok) (auto simp: eq(2) split: sum.splits if_splits option.splits)
  then show ?thesis
  proof cases
    case 3
    have "entry_ok ?e" using assms(2,3) 3(3) eq by (auto simp: entry_ok_def)
    then have "length (prep_encoded q) \<le> MAX_WAL_RECORD_DATA_SIZE + 36"
      using prepare_entry_Inr [OF 3(1)] length_record_bytes [of ?e crc compress] by (simp add: fits_def)
    then show ?thesis using append_prepared_size [OF eq(4) 3(2)] eq(1) by linarith
  qed (use eq in simp_all)
qed

lemma last_lsn_bound: "p \<le> b \<Longrightarrow> \<forall>e \<in> set es. lsn e \<le> b \<Longrightarrow> last_lsn p es \<le> b"
  by (induction es arbitrary: p) auto

text \<open>A commit marker written in normal mode, and a crash that keeps the whole file.\<close>

lemma example_crash:
  assumes "wal_inv example_crc example_compress p ls es w" "lifecycle w = Running" "wal_file w" "wal_sync_mode w = SyncNormal"
    and "current_lsn w < 1000" "log_size w \<le> 2 ^ 40"
  obtains w1 w3 where "append_entry example_crc example_compress example_io (commit_entry 1700 9) w = (Inr (current_lsn w + 1), w1)"
    "log_size w1 \<le> u64_max" "last_synced_file_position w1 \<le> length (file_bytes w1)"
    "with_replay_floor example_crc example_decompress example_io (crash_image (length (file_bytes w1)) w1) SyncNormal None (replay_floor w1) 0 = Inr w3"
    "current_lsn w3 \<le> current_lsn w + 1"
proof -
  let ?e = "commit_entry 1700 9" let ?es = "es @ [?e\<lparr>previous_lsn := current_lsn w, lsn := current_lsn w + 1\<rparr>]"
  have pv: "current_lsn w = wal_previous_lsn w" using assms(1) by (simp add: wal_inv_def)
  obtain r w1 where a: "append_entry example_crc example_compress example_io ?e w = (r, w1)" by (rule prod.exhaust)
  have r: "r = Inr (current_lsn w + 1)" using example_append [OF assms(2-4) pv assms(5)] a by simp
  have ok: "entry_ok ?e" using commit_entry_ok(1) [of 1700 9 0 0] by (simp add: commit_entry_def with_flags_def new_entry_def)
  have bound: "log_size w1 \<le> u64_max"
    using append_entry_size [OF wal_invD(5) [OF assms(1)] ok _ a] assms(6) pv by (simp add: wal_defs)
  have "acknowledged_sync w (operation ?e)" using assms(4) by (simp add: acknowledged_sync_def commit_entry_def with_flags_def new_entry_def)
  then have i1: "wal_inv example_crc example_compress p ls ?es w1" "durable example_crc example_compress (current_lsn w + 1) ?es w1"
    using append_entry_ext [OF assms(1) ok a bound] r unfolding ext_def by auto
  have "chained p (concat ls @ ?es)" "last_lsn p (concat ls @ ?es) = current_lsn w + 1" using i1(1) by (simp_all add: wal_inv_def)
  then have le: "\<forall>x \<in> set (concat ls @ ?es). lsn x \<le> current_lsn w + 1" "p \<le> current_lsn w + 1" using chained_le by (metis, metis)
  obtain es1 es2 where d: "?es = es1 @ es2" "length (log_bytes example_crc example_compress es1) \<le> last_synced_file_position w1"
      "\<forall>x \<in> set es2. current_lsn w + 1 < lsn x" using i1(2) unfolding durable_def by blast
  have "x \<notin> set es2" for x
  proof
    assume x: "x \<in> set es2"
    then have "x \<in> set (concat ls @ ?es)" unfolding d(1) by simp
    then show False using le(1) d(3) x by fastforce
  qed
  then have "es2 = []" by (metis ex_in_conv set_empty)
  then have sy: "length (log_bytes example_crc example_compress ?es) \<le> last_synced_file_position w1" using d(1,2) by simp
  have f: "last_synced_file_position w1 \<le> length (file_bytes w1)" using i1(1) by (simp add: wal_inv_def)
  then have whole: "length (file_bytes w1) = length (log_bytes example_crc example_compress (take (length ?es) ?es))"
    using sy log_size_inv [OF i1(1)] by (simp add: log_size_def)
  have fl: "replay_floor_lsn w1 \<le> current_lsn w + 1"
  proof -
    obtain j where "replay_floor_lsn w1 = last_lsn p (concat (take j ls))"
      using i1(1) by (auto simp: wal_inv_def floor_ok_def replay_floor_lsn_def)
    moreover have "set (concat (take j ls)) \<subseteq> set (concat ls @ ?es)" using set_take_subset [of j ls] by auto
    then have "\<forall>x \<in> set (concat (take j ls)). lsn x \<le> current_lsn w + 1" using le(1) by blast
    ultimately show ?thesis using last_lsn_bound [OF le(2)] by simp
  qed
  show thesis
  proof (rule crash_open [OF i1(1) example_crc_ok example_lz4_ok order_refl refl])
    fix n ls' es' w3
    assume o: "with_replay_floor example_crc example_decompress example_io (crash_image (length (file_bytes w1)) w1) SyncNormal None (replay_floor w1) 0 = Inr w3"
      "wal_inv example_crc example_compress (replay_floor_lsn w1) ls' es' w3"
      "concat ls' @ es' = filter (\<lambda>e. replay_floor_lsn w1 < lsn e) (concat ls @ take n ?es)"
    have "set (concat ls' @ es') \<subseteq> set (concat ls @ ?es)" unfolding o(3) using set_take_subset [of n ?es] by (simp del: take_append) blast
    then have "\<forall>x \<in> set (concat ls' @ es'). lsn x \<le> current_lsn w + 1" using le(1) by blast
    moreover have "last_lsn (replay_floor_lsn w1) (concat ls' @ es') = current_lsn w3" using o(2) by (simp add: wal_inv_def)
    ultimately have "current_lsn w3 \<le> current_lsn w + 1" using last_lsn_bound [OF fl] by fastforce
    then show thesis by (rule that [OF a [unfolded r] bound f o(1)])
  qed (use whole in blast)
qed


section \<open>Recovery of a crashed log\<close>



end
