(* ===== verification/Wal_Checkpoint.thy ===== *)
theory Wal_Checkpoint
  imports Wal_Crash
begin

text \<open>
  Checkpoints of the log. \<open>checkpoint_floor\<close> are the checks of \<open>publish_checkpoint_generation\<close>
  (\<open>engine/physical_publication.rs\<close>) that decide the replay floor from the answers of \<open>create_checkpoint\<close> and
  \<open>prepare_checkpoint_retention\<close>. The properties: the floor of an undisturbed checkpoint reopens, and the floor of a
  checkpoint disturbed by one record does not.
\<close>

section \<open>The published floor\<close>

definition checkpoint_floor :: "nat \<times> nat \<Rightarrow> nat \<Rightarrow> nat \<Rightarrow> (log_error, (nat \<times> nat) option) result" where
  "checkpoint_floor current_floor checkpoint_lsn target_wal_generation =
     (if checkpoint_lsn = 0 then Inl ZeroCheckpoint
      else if checkpoint_lsn < snd current_floor then Inl (CheckpointRegresses checkpoint_lsn (snd current_floor))
      else if checkpoint_lsn = snd current_floor then Inr None
      else if target_wal_generation \<le> fst current_floor
      then Inl (CheckpointNotAdvancing target_wal_generation (fst current_floor))
      else Inr (Some (target_wal_generation, checkpoint_lsn)))"

lemma log_bytes_Nil_iff:
  assumes "\<forall>e \<in> set es. writable compress e"
  shows "log_bytes crc compress es = [] \<longleftrightarrow> es = []"
  using log_take_less [of 0 "length es" es compress crc] assms by (cases es) auto

lemma empty_generation:
  assumes "wal_inv crc compress p ls es w" "buffer w = []" "current_file_position w = 0"
  shows "es = []"
proof -
  have "log_bytes crc compress es = []" using assms unfolding wal_inv_def by (metis append_Nil2 length_0_conv)
  moreover have "\<forall>e \<in> set es. writable compress e" using assms(1) by (simp add: wal_inv_def log_ok_def)
  ultimately show ?thesis by (simp add: log_bytes_Nil_iff)
qed

lemma prepare_retention_cases:
  assumes "prepare_checkpoint_retention crc decompress io l w = (Inr g, w')"
  obtains (rotated) w1 where "flush_and_sync io w = (Inr (), w1)" "0 < current_file_position w1" "current_lsn w \<le> l"
      "rotate_wal_under_transition crc decompress io w1 = (Inr (), w')" "g = wal_sequence w'"
  | (same) "flush_and_sync io w = (Inr (), w')" "current_file_position w' = 0 \<or> l < current_lsn w" "g = wal_sequence w'"
proof -
  obtain r1 w1 where f: "flush_and_sync io w = (r1, w1)" by (rule prod.exhaust)
  obtain r2 w2 where t: "rotate_wal_under_transition crc decompress io w1 = (r2, w2)" by (rule prod.exhaust)
  show thesis
    using assms that f t unfolding prepare_checkpoint_retention_def when_running_def
    by (cases "require_running_transition (lifecycle w)"; cases r1; cases r2) (auto split: if_splits)
qed

lemma create_checkpoint_sequence:
  assumes "has_file w" "create_checkpoint io w = (r, w')"
  shows "wal_sequence w' = wal_sequence w"
proof -
  obtain r1 w1 where f: "flush_and_sync io w = (r1, w1)" by (rule prod.exhaust)
  show ?thesis using assms(2) flush_and_sync_sequence [OF assms(1) f]
    unfolding create_checkpoint_def f Let_def by (auto split: if_splits sum.splits)
qed

lemma checkpoint_closes:
  assumes "wal_inv crc compress p ls es w" "crc_ok crc" "lz4_ok compress decompress" "wal_sequence w + 2 < 2 ^ 64"
    and "create_checkpoint io w = (Inr l, w1)" "prepare_checkpoint_retention crc decompress io' l w1 = (Inr g, w2)"
  shows "\<exists>ls'. concat ls' = concat ls @ es \<and> wal_inv crc compress p ls' [] w2 \<and> g = wal_sequence w2 \<and> l = current_lsn w2"
proof -
  have c: "ext crc compress p ls es w ls es w1" "l = current_lsn w1"
    using create_checkpoint_ext [OF assms(1,5)] by auto
  then have i: "wal_inv crc compress p ls es w1" by (simp add: ext_def)
  have "wal_sequence w1 = wal_sequence w" by (rule create_checkpoint_sequence [OF wal_invD(5) [OF assms(1)] assms(5)])
  then have sq: "wal_sequence w1 + 2 < 2 ^ 64" using assms(4) by simp
  from assms(6) show ?thesis
  proof (cases rule: prepare_retention_cases)
    case (rotated v)
    then have "ext crc compress p ls es w1 (ls @ [es]) [] w2" "current_lsn w2 = current_lsn w1"
      using flush_sync_rotate_ext [OF i assms(2,3) sq rotated(1,4)] by auto
    then show ?thesis using c rotated(5) by (intro exI [of _ "ls @ [es]"]) (simp add: ext_def)
  next
    case same
    have x: "wal_inv crc compress p ls es w2" "buffer w2 = []"
      using flush_and_sync_ext [OF i same(1)] by (simp_all add: ext_def)
    then have "es = []" using empty_generation [OF x] same(2) c(2) by simp
    moreover have "current_lsn w2 = current_lsn w1" using x(1) i unfolding wal_inv_def by (metis (no_types))
    ultimately show ?thesis using x c same(3) by (intro exI [of _ ls]) simp
  qed
qed

lemma confirm_floor:
  assumes "wal_inv crc compress p ls [] w"
  shows "wal_inv crc compress p ls [] (confirm_checkpoint_publication (wal_sequence w, current_lsn w) [] w)"
proof -
  let ?w = "confirm_checkpoint_publication (wal_sequence w, current_lsn w) [] w"
  have f: "?w = w\<lparr>replay_floor := (wal_sequence w, current_lsn w)\<rparr>" by (simp add: confirm_checkpoint_publication_def)
  have "floor_ok p ls ?w"
    unfolding floor_ok_def f using wal_invD(2) [OF assms] assms
    by (intro exI [of _ "length ls"]) (simp add: wal_inv_def first_generation_def)
  moreover have "first_generation ?w = first_generation w" "file_bytes ?w = file_bytes w"
    by (simp_all add: f first_generation_def file_bytes_def)
  ultimately show ?thesis using assms unfolding wal_inv_def f by auto
qed

lemma crash_image_whole:
  assumes "wal_inv crc compress p ls es w"
  shows "crash_image (length (file_bytes w)) w = wal_dir w"
  unfolding crash_image_def using update_same [OF wal_invD(6) [OF assms]] by simp

text \<open>
  C15. A checkpoint publishes a floor the log reopens at. When nothing is appended between \<open>create_checkpoint\<close> and
  \<open>prepare_checkpoint_retention\<close>, the floor that is published starts an empty generation behind every admitted
  entry: the reconciled manager keeps its invariant with the same entries, and opening the directory at the new floor
  succeeds with nothing to replay and continues at the checkpoint's sequence number.
\<close>

theorem checkpoint_floor_reopens:
  assumes "wal_inv crc compress p ls es w" "crc_ok crc" "lz4_ok compress decompress" "wal_sequence w + 2 < 2 ^ 64"
    and "create_checkpoint io w = (Inr l, w1)" "prepare_checkpoint_retention crc decompress io' l w1 = (Inr g, w2)"
    and "checkpoint_floor (replay_floor w) l g = Inr (Some floor)"
  shows "l = current_lsn w \<and>
    (\<exists>ls'. concat ls' = concat ls @ es \<and> wal_inv crc compress p ls' [] (confirm_checkpoint_publication floor [] w2)) \<and>
    (\<exists>w3 ls3. with_replay_floor crc decompress io'' (wal_dir w2) mode config floor ts = Inr w3 \<and> concat ls3 = [] \<and>
       wal_inv crc compress l ls3 [] w3 \<and> current_lsn w3 = l)"
proof -
  obtain ls' where i: "concat ls' = concat ls @ es" "wal_inv crc compress p ls' [] w2" "g = wal_sequence w2" "l = current_lsn w2"
    using checkpoint_closes [OF assms(1-6)] by blast
  have fl: "floor = (wal_sequence w2, current_lsn w2)"
    using assms(7) i(3,4) by (auto simp: checkpoint_floor_def split: if_splits)
  let ?w = "confirm_checkpoint_publication floor [] w2"
  have inv: "wal_inv crc compress p ls' [] ?w" unfolding fl by (rule confirm_floor [OF i(2)])
  have d: "wal_dir ?w = wal_dir w2" "replay_floor ?w = floor" "replay_floor_lsn ?w = l"
    by (simp_all add: confirm_checkpoint_publication_def replay_floor_lsn_def fl i(4))
  have lw: "l = current_lsn w" using i(1,2,4) assms(1) by (simp add: wal_inv_def)
  have le: "\<forall>e \<in> set (concat ls'). lsn e \<le> l"
    using i(2,4) chained_le [of p "concat ls'"] by (auto simp: wal_inv_def)
  have k: "length (file_bytes ?w) = length (log_bytes crc compress (take 0 []))" using inv by (simp add: wal_inv_def)
  let ?r = "with_replay_floor crc decompress io'' (wal_dir w2) mode config floor ts"
  have "\<exists>w3 ls3. ?r = Inr w3 \<and> concat ls3 = [] \<and> wal_inv crc compress l ls3 [] w3 \<and> current_lsn w3 = l"
  proof (rule crash_open [OF inv assms(2,3) order_refl, of io'' mode config ts ?r, unfolded crash_image_whole [OF inv] d])
    fix n ls3 es3 w3 assume o: "?r = Inr w3" "wal_inv crc compress l ls3 es3 w3"
      "concat ls3 @ es3 = filter (\<lambda>e. l < lsn e) (concat ls' @ take n [])"
    have "filter (\<lambda>e. l < lsn e) (concat ls' @ take n []) = []"
      using le by (simp only: filter_empty_conv) fastforce
    then have e: "concat ls3 = []" "es3 = []" using o(3) by (metis append_is_Nil_conv)+
    moreover have "last_lsn l (concat ls3 @ es3) = current_lsn w3" using o(2) by (simp add: wal_inv_def del: concat_eq_Nil_conv)
    ultimately have "current_lsn w3 = l" by (simp del: concat_eq_Nil_conv)
    then show ?thesis using o e by blast
  qed (use k in auto)
  then show ?thesis using inv i(1) lw by blast
qed

lemma append_entry_fields:
  assumes "append_entry crc compress io e w = (r, w')"
  shows "wal_sequence w' = wal_sequence w \<and> last_checkpoint w' = last_checkpoint w \<and> wal_file w' = wal_file w \<and>
    (\<forall>m. r = Inr m \<longrightarrow> lifecycle w' = lifecycle w)"
proof -
  let ?same = "\<lambda>w w'. wal_sequence w' = wal_sequence w \<and> last_checkpoint w' = last_checkpoint w \<and> wal_file w' = wal_file w"
  have w: "?same w w' \<and> lifecycle w' = lifecycle w" if "write_to_file io bs w = (q, w')" for bs w w' q
    using that by (auto simp: write_to_file_def append_file_def split: option.splits if_splits)
  have s: "?same w w' \<and> lifecycle w' = lifecycle w" if "sync_locked io w = (q, w')" for w w' q
    using that by (auto simp: sync_locked_def split: if_splits)
  have p: "?same w w' \<and> (\<forall>m. r = Inr m \<longrightarrow> lifecycle w' = lifecycle w)" if "append_prepared_entry io q w = (r, w')" for q w w'
  proof -
    obtain r1 w1 where w1: "write_to_file io (buffer w @ prep_encoded q) (w\<lparr>buffer := []\<rparr>) = (r1, w1)" by (rule prod.exhaust)
    let ?w2 = "publish_admitted_fields (prep_lsn q) (prep_txn_id q)
        (w1\<lparr>current_file_position := current_file_position w1 + length (buffer w @ prep_encoded q)\<rparr>)"
    obtain r2 w2 where w2: "sync_locked io ?w2 = (r2, w2)" by (rule prod.exhaust)
    have "?same w w1 \<and> lifecycle w1 = lifecycle w" "?same w1 w2 \<and> lifecycle w2 = lifecycle w1"
      using w [OF w1] s [OF w2] by (simp_all add: publish_admitted_fields_def)
    then show ?thesis
      using that w2 unfolding append_prepared_entry_def Let_def w1
      by (auto simp: publish_admitted_fields_def mark_transition_uncertain_def prepend_to_buffer_def split: sum.splits if_splits)
  qed
  show ?thesis
    using assms p unfolding append_entry_def when_running_def observe_persisted_timestamp_def
    by (auto split: sum.splits if_splits option.splits)
qed

lemma generation_refused:
  assumes "crc_ok crc" "lz4_ok compress decompress" "chained q (e # es)" "log_ok crc compress (e # es)" "lsn e \<le> start"
    and "0 < g" "g < 2 ^ 64" "map_of files (canonical_filename g) = Some (log_bytes crc compress (e # es))"
  shows "validate_generation crc decompress files (canonical_filename g) g start = Inl (LsnAtOrBelowStart (lsn e) start)"
proof -
  let ?r = "reader_open (log_bytes crc compress (e # es))"
  obtain r' where f: "for_entries crc decompress (generation_body start) RecordError ?r s =
      rbind (fold_res (generation_body start) (map (stored_entry compress) (e # es)) s)
        (for_entries crc decompress (generation_body start) RecordError r')" for s
    using for_entries_log [OF assms(3) _ assms(1,2), of ?r "[]" "generation_body start" RecordError] assms(4)
    by (auto simp: reader_open_def log_ok_def)
  have b: "generation_body start (stored_entry compress e) (start, True) = Inl (LsnAtOrBelowStart (lsn e) start)"
    using assms(5) by (simp add: generation_body_def)
  show ?thesis
    unfolding validate_generation_def assms(8) using assms(6,7) b by (simp only: f option.case parse_canonical) simp
qed

lemma inside_floor_refused:
  assumes "wal_inv crc compress p ls (e # es) w" "crc_ok crc" "lz4_ok compress decompress" "buffer w = []" "lsn e \<le> l"
  shows "with_replay_floor crc decompress io (wal_dir w) mode config (wal_sequence w, l) ts =
    Inl (LsnAtOrBelowStart (lsn e) l)"
proof -
  note i = assms(1) [unfolded wal_inv_def] and d = wal_invD [OF assms(1)]
  from i obtain orphan where "dir_files_from (first_generation w) (map (log_bytes crc compress) ls @ file_bytes w # orphan) (wal_dir w)" by blast
  from dir_files_from_drop [OF this, of "length ls"]
  have dir: "dir_files_from (wal_sequence w) (map (log_bytes crc compress) [] @ file_bytes w # orphan) (wal_dir w)"
    using d(2) by simp
  have fb: "file_bytes w = log_bytes crc compress (e # es)" "log_ok crc compress (e # es)"
    "chained (last_lsn p (concat ls)) (e # es)" "current_wal_file w = canonical_filename (wal_sequence w)"
    using i assms(4) by auto
  have "validate_generation crc decompress (dir_files (wal_dir w)) (canonical_filename (wal_sequence w)) (wal_sequence w) l =
      Inl (LsnAtOrBelowStart (lsn e) l)"
    by (rule generation_refused [OF assms(2,3) fb(3,2) assms(5)]) (use d fb in auto)
  then have "collect_validated_generations crc decompress (wal_dir w) (wal_sequence w) l = Inl (LsnAtOrBelowStart (lsn e) l)"
    using collect_generations [OF assms(2,3) _ _ dir, of l] by (simp add: upt_conv_Cons del: upt_Suc)
  then show ?thesis by (simp add: with_replay_floor_def)
qed

text \<open>
  C21. A record between the two halves of a checkpoint. A rollback writes its abort marker without the fence that a
  checkpoint holds. If one record is appended after \<open>create_checkpoint\<close> and before \<open>prepare_checkpoint_retention\<close> of a
  current generation that is not empty, no new generation is started, the floor passes the publication checks when the
  generation is above the published one, and opening the directory at that floor is refused: the floor lies inside
  the generation.
\<close>

theorem checkpoint_race_floor_refused:
  assumes "wal_inv crc compress p ls (x # es) w" "crc_ok crc" "lz4_ok compress decompress"
    and "create_checkpoint io w = (Inr l, w1)" "snd (replay_floor w) < l" "fst (replay_floor w) < wal_sequence w"
    and "entry_ok e" "append_entry crc compress io' e w1 = (Inr m, w2)" "log_size w2 \<le> u64_max"
    and "prepare_checkpoint_retention crc decompress io'' l w2 = (Inr g, w3)"
  shows "checkpoint_floor (replay_floor w) l g = Inr (Some (wal_sequence w, l)) \<and>
    with_replay_floor crc decompress io''' (wal_dir w3) mode config (wal_sequence w, l) ts = Inl (LsnAtOrBelowStart (lsn x) l)"
proof -
  have c: "ext crc compress p ls (x # es) w ls (x # es) w1" "l = current_lsn w1"
    using create_checkpoint_ext [OF assms(1,4)] by auto
  then have i1: "wal_inv crc compress p ls (x # es) w1" by (simp add: ext_def)
  obtain y where i2: "wal_inv crc compress p ls ((x # es) @ [y]) w2" "lsn y = Suc l"
    using append_entry_ext [OF i1 assms(7-9)] c(2) unfolding ext_def by auto
  then have m: "l < current_lsn w2" by (simp add: wal_inv_def)
  have s: "flush_and_sync io'' w2 = (Inr (), w3)" "g = wal_sequence w3"
    using assms(10) m by (auto elim: prepare_retention_cases)
  have i3: "wal_inv crc compress p ls (x # (es @ [y])) w3" "buffer w3 = []"
    using flush_and_sync_ext [OF i2(1) s(1)] by (simp_all add: ext_def)
  have sq: "wal_sequence w3 = wal_sequence w"
    using create_checkpoint_sequence [OF wal_invD(5) [OF assms(1)] assms(4)] append_entry_fields [OF assms(8)]
      flush_and_sync_sequence [OF wal_invD(5) [OF i2(1)] s(1)] by simp
  have "chained p (concat ls @ x # es)" "last_lsn p (concat ls @ x # es) = l" using i1 c(2) by (simp_all add: wal_inv_def)
  then have "lsn x \<le> l" using chained_le [of p "concat ls @ x # es"] by auto
  from inside_floor_refused [OF i3(1) assms(2,3) i3(2) this]
  have "with_replay_floor crc decompress io''' (wal_dir w3) mode config (wal_sequence w, l) ts = Inl (LsnAtOrBelowStart (lsn x) l)"
    unfolding sq .
  moreover have "checkpoint_floor (replay_floor w) l g = Inr (Some (wal_sequence w, l))"
    using assms(5,6) s(2) sq by (simp add: checkpoint_floor_def)
  ultimately show ?thesis by blast
qed

lemma example_flush:
  assumes "wal_file w"
  shows "\<exists>w'. flush_and_sync example_io w = (Inr (), w') \<and> wal_file w' \<and> lifecycle w' = lifecycle w \<and> current_lsn w' = current_lsn w \<and>
    last_checkpoint w' = last_checkpoint w \<and> wal_sync_mode w' = wal_sync_mode w \<and> wal_sequence w' = wal_sequence w \<and>
    current_file_position w' = current_file_position w + length (buffer w)"
  using assms
  by (simp add: flush_and_sync_def flush_under_transition_def sync_locked_def write_to_file_def append_file_def example_io_def Let_def)

lemma example_checkpoint:
  assumes "wal_file w" "lifecycle w = Running"
  shows "\<exists>w'. create_checkpoint example_io w = (Inr (current_lsn w), w') \<and> wal_file w' \<and> lifecycle w' = Running \<and>
    current_lsn w' = current_lsn w \<and> last_checkpoint w' = current_lsn w \<and> wal_sync_mode w' = wal_sync_mode w \<and>
    wal_sequence w' = wal_sequence w \<and> current_file_position w' = current_file_position w + length (buffer w)"
  using example_flush [OF assms(1)] assms(2) by (auto simp: create_checkpoint_def Let_def)

lemma example_retention:
  assumes "wal_file w" "lifecycle w = Running" "0 < l" "l \<le> current_lsn w" "l \<le> last_checkpoint w"
    and "current_file_position w + length (buffer w) = 0 \<or> l < current_lsn w"
  shows "\<exists>w'. prepare_checkpoint_retention crc decompress example_io l w = (Inr (wal_sequence w), w')"
  using example_flush [OF assms(1)] assms(2-) by (auto simp: prepare_checkpoint_retention_def when_running_def)

section \<open>Concrete checkpoints\<close>

text \<open>A log of two generations with one record, in the closed one or in the current one.\<close>

definition example_record :: wal_entry where
  "example_record = (commit_entry 1700 8)\<lparr>previous_lsn := 0, lsn := 1\<rparr>"

definition two_generations :: "byte list \<Rightarrow> byte list \<Rightarrow> wal_directory" where
  "two_generations a b = \<lparr>dir_files = [(canonical_filename 1, a), (canonical_filename 2, b)], dir_retired = None\<rparr>"

lemma two_generations_from: "dir_files_from 1 [a, b] (two_generations a b)"
proof -
  have "map_of (dir_files (two_generations a b)) (canonical_filename h) =
      (if h < 1 + length [a, b] then Some ([a, b] ! (h - 1)) else None)" if "1 \<le> h" "h < 2 ^ 64" for h
    using canonical_filename_inj [of h 1] canonical_filename_inj [of h 2] canonical_filename_inj [of 1 2] that
    by (auto simp: two_generations_def nth_Cons')
  moreover have "canonical_filename 1 \<noteq> canonical_filename 2" using canonical_filename_inj [of 1 2] by auto
  ultimately show ?thesis unfolding dir_files_from_def
    by (auto simp: two_generations_def intro: exI [of _ "1 :: nat"] exI [of _ "2 :: nat"])
qed

lemma example_record_ok: "log_ok example_crc example_compress [example_record]" "chained 0 [example_record]"
  "length (log_bytes example_crc example_compress [example_record]) \<le> MAX_WAL_RECORD_DATA_SIZE + 36"
proof -
  have r: "entry_ok example_record" "validate_semantics example_record = Inr ()" "fits example_compress example_record"
    using commit_entry_ok [where now = 1700 and txn = 8 and l = 1 and q = 0] by (simp_all add: example_record_def)
  then show "length (log_bytes example_crc example_compress [example_record]) \<le> MAX_WAL_RECORD_DATA_SIZE + 36"
    "log_ok example_crc example_compress [example_record]"
    using length_record_bytes [of example_record example_crc example_compress]
    by (simp_all add: log_ok_def writable_def fits_def wal_defs admissible_def MAX_DURABLE_TIMESTAMP_def example_record_def
        commit_entry_def with_flags_def new_entry_def)
  show "chained 0 [example_record]" by (simp add: example_record_def)
qed

lemma two_generations_open:
  assumes "(a, b) \<in> {([example_record], []), ([], [example_record])}"
  obtains w where "wal_inv example_crc example_compress 0 [a] b w" "replay_floor w = (1, 0)" "lifecycle w = Running" "wal_file w"
    "wal_sync_mode w = SyncNormal" "current_lsn w = 1" "wal_sequence w = 2" "buffer w = []"
    "current_file_position w = length (log_bytes example_crc example_compress b)"
proof -
  let ?l = "log_bytes example_crc example_compress"
  have h: "chained 0 (concat [a] @ b)" "\<forall>l \<in> set (b # [a]). log_ok example_crc example_compress l"
    "dir_files_from 1 (map ?l ([a] @ [b])) (two_generations (?l a) (?l b))"
    using assms example_record_ok two_generations_from by auto
  obtain w where w: "wal_inv example_crc example_compress 0 [a] b w" "replay_floor w = (1, 0)" "lifecycle w = Running" "wal_file w"
    "wal_sync_mode w = SyncNormal" "wal_dir w = two_generations (?l a) (?l b)" "buffer w = []"
    using open_holds [OF example_crc_ok example_lz4_ok h, of example_io SyncNormal None 0] by auto
  have c: "current_lsn w = 1" using assms w(1) by (auto simp: wal_inv_def example_record_def)
  have s: "first_generation w = 1" using w(1,2) assms wal_invD(3) [OF w(1)] by (auto simp: wal_inv_def floor_ok_def le_Suc_eq example_record_def)
  have "current_file_position w = length (?l b)" using w(1,7) by (auto simp: wal_inv_def)
  then show thesis using that w c s wal_invD(2) [OF w(1)] by simp
qed

theorem checkpoint_floor_reopens_witness:
  "\<exists>w w1 w2. create_checkpoint example_io w = (Inr 1, w1) \<and>
     prepare_checkpoint_retention example_crc example_decompress example_io 1 w1 = (Inr 2, w2) \<and>
     checkpoint_floor (replay_floor w) 1 2 = Inr (Some (2, 1)) \<and>
     (\<exists>w3. with_replay_floor example_crc example_decompress example_io (wal_dir w2) SyncNormal None (2, 1) 0 = Inr w3 \<and>
       current_lsn w3 = 1)"
proof -
  obtain w where w: "wal_inv example_crc example_compress 0 [[example_record]] [] w" "replay_floor w = (1, 0)"
    "lifecycle w = Running" "wal_file w" "current_lsn w = 1" "wal_sequence w = 2" "buffer w = []" "current_file_position w = 0"
    using two_generations_open [of "[example_record]" "[]"] by auto
  obtain w1 where c: "create_checkpoint example_io w = (Inr 1, w1)" "wal_file w1" "lifecycle w1 = Running"
    "current_lsn w1 = 1" "last_checkpoint w1 = 1" "wal_sequence w1 = 2" "current_file_position w1 = 0"
    using example_checkpoint [OF w(4,3)] w by auto
  have "buffer w1 = []" using create_checkpoint_ext [OF w(1) c(1)] by (simp add: ext_def wal_inv_def)
  then obtain w2 where p: "prepare_checkpoint_retention example_crc example_decompress example_io 1 w1 = (Inr 2, w2)"
    using example_retention [OF c(2,3), of 1 example_crc example_decompress] c by auto
  have f: "checkpoint_floor (replay_floor w) 1 2 = Inr (Some (2, 1))" by (simp add: checkpoint_floor_def w(2))
  have "wal_sequence w + 2 < 2 ^ 64" using w(6) by simp
  from checkpoint_floor_reopens [OF w(1) example_crc_ok example_lz4_ok this c(1) p f, of example_io SyncNormal None 0]
  show ?thesis using c(1) p f by blast
qed

theorem checkpoint_race_floor_refused_witness:
  "\<exists>w w1 w2 w3. create_checkpoint example_io w = (Inr 1, w1) \<and>
     append_entry example_crc example_compress example_io (commit_entry 1700 9) w1 = (Inr 2, w2) \<and>
     prepare_checkpoint_retention example_crc example_decompress example_io 1 w2 = (Inr 2, w3) \<and>
     checkpoint_floor (replay_floor w) 1 2 = Inr (Some (2, 1)) \<and>
     with_replay_floor example_crc example_decompress example_io (wal_dir w3) SyncNormal None (2, 1) 0 = Inl (LsnAtOrBelowStart 1 1)"
proof -
  obtain w where w: "wal_inv example_crc example_compress 0 [[]] [example_record] w" "replay_floor w = (1, 0)"
    "lifecycle w = Running" "wal_file w" "current_lsn w = 1" "wal_sequence w = 2" "wal_sync_mode w = SyncNormal"
    using two_generations_open [of "[]" "[example_record]"] by auto
  obtain w1 where c: "create_checkpoint example_io w = (Inr 1, w1)" "wal_file w1" "lifecycle w1 = Running"
    "current_lsn w1 = 1" "last_checkpoint w1 = 1" "wal_sequence w1 = 2" "wal_sync_mode w1 = SyncNormal"
    using example_checkpoint [OF w(4,3)] w by auto
  have i: "wal_inv example_crc example_compress 0 [[]] [example_record] w1"
    using create_checkpoint_ext [OF w(1) c(1)] by (simp add: ext_def)
  obtain r w2 where a: "append_entry example_crc example_compress example_io (commit_entry 1700 9) w1 = (r, w2)" by (rule prod.exhaust)
  have ps: "wal_previous_lsn w1 = 1" using i c(4) by (simp add: wal_inv_def)
  have r: "r = Inr 2" using example_append [OF c(3,2,7)] a c(4) ps by simp
  have ok: "entry_ok (commit_entry 1700 9)"
    using commit_entry_ok(1) [of 1700 9 0 0] by (simp add: commit_entry_def with_flags_def new_entry_def)
  have "log_size w1 \<le> MAX_WAL_RECORD_DATA_SIZE + 36"
    using log_size_inv [OF i] example_record_ok(3) by simp
  then have sz: "log_size w2 \<le> u64_max"
    using append_entry_size [OF wal_invD(5) [OF i] ok _ a] ps c(4) by (simp add: wal_defs)
  have st: "lifecycle w2 = Running" "last_checkpoint w2 = 1" "wal_file w2" "wal_sequence w2 = 2" "current_lsn w2 = 2"
    using append_entry_fields [OF a [unfolded r]] c append_entry_ext [OF i ok a sz] r
    by (auto simp: ext_def wal_inv_def)
  obtain w3 where p: "prepare_checkpoint_retention example_crc example_decompress example_io 1 w2 = (Inr 2, w3)"
    using example_retention [OF st(3,1), of 1 example_crc example_decompress] st by auto
  have "lsn example_record = 1" by (simp add: example_record_def)
  then have "checkpoint_floor (replay_floor w) 1 2 = Inr (Some (2, 1))"
    "with_replay_floor example_crc example_decompress example_io (wal_dir w3) SyncNormal None (2, 1) 0 = Inl (LsnAtOrBelowStart 1 1)"
    using checkpoint_race_floor_refused [OF w(1) example_crc_ok example_lz4_ok c(1) _ _ ok a [unfolded r] sz p,
        of example_io SyncNormal None 0] w(2,6) by simp_all
  then show ?thesis using c(1) a [unfolded r] p by blast
qed

end
