(* ===== verification/Wal_Outcomes.thy ===== *)
theory Wal_Outcomes
  imports Wal_Generations I64_Map_Correct
begin

text \<open>
  Transaction outcomes during recovery, from \<open>wal_manager/recovery.rs\<close>: the in-memory map, and the temporary disk
  index with open addressing that replaces it for long histories, modelled down to the bytes of its file. The
  argument \<open>io\<close> says which file offsets can be read and written. Both are outcome stores in the sense of one contract;
  then they give the same answers.
\<close>

section \<open>The disk index\<close>

definition RECOVERY_OUTCOME_MEMORY_LIMIT :: nat where
  "RECOVERY_OUTCOME_MEMORY_LIMIT = 262144"

definition RECOVERY_OUTCOME_COMMITTED :: byte where "RECOVERY_OUTCOME_COMMITTED = 1"
definition RECOVERY_OUTCOME_ABORTED :: byte where "RECOVERY_OUTCOME_ABORTED = 2"
definition RECOVERY_OUTCOME_SLOT_SIZE :: nat where "RECOVERY_OUTCOME_SLOT_SIZE = 16"

record disk_outcomes =
  spill_bytes :: "byte list"
  spill_capacity :: nat
  spill_committed :: nat
  spill_aborted :: nat

definition index_capacity :: "nat \<Rightarrow> (log_error, nat) result" where
  "index_capacity outcome_count =
     (case checked_mul_u64 outcome_count 2 of None \<Rightarrow> Inl OutcomeCountOverflow | Some value \<Rightarrow>
      case checked_add_u64 value 1 of None \<Rightarrow> Inl OutcomeCountOverflow | Some required \<Rightarrow>
      if next_power_of_two required > u64_max then Inl OutcomeCountOverflow
      else Inr (max (next_power_of_two required) 16))"

definition create_outcomes :: "bool \<Rightarrow> nat \<Rightarrow> (log_error, disk_outcomes) result" where
  "create_outcomes created outcome_count =
     rbind (index_capacity outcome_count) (\<lambda>capacity.
       case checked_mul_u64 capacity RECOVERY_OUTCOME_SLOT_SIZE of None \<Rightarrow> Inl OutcomeCountOverflow | Some byte_len \<Rightarrow>
       if \<not> created then Inl SpillCreateFailed
       else Inr \<lparr>spill_bytes = replicate byte_len 0, spill_capacity = capacity, spill_committed = 0, spill_aborted = 0\<rparr>)"

definition mix :: "64 word \<Rightarrow> 64 word" where
  "mix v =
     (let v = v XOR drop_bit 30 v;
          v = v * 0xbf58476d1ce4e5b9;
          v = v XOR drop_bit 27 v;
          v = v * 0x94d049bb133111eb
      in v XOR drop_bit 31 v)"

definition initial_slot :: "disk_outcomes \<Rightarrow> int \<Rightarrow> nat" where
  "initial_slot d txn = unat (mix (word_of_int txn)) AND (spill_capacity d - 1)"

definition read_slot :: "(nat \<Rightarrow> bool) \<Rightarrow> disk_outcomes \<Rightarrow> nat \<Rightarrow> (log_error, byte \<times> int) result" where
  "read_slot io d slot =
     (case checked_mul_u64 slot RECOVERY_OUTCOME_SLOT_SIZE of None \<Rightarrow> Inl OutcomeCountOverflow | Some offset \<Rightarrow>
      if \<not> io offset \<or> length (spill_bytes d) < offset + RECOVERY_OUTCOME_SLOT_SIZE then Inl SpillIoFailed
      else let encoded = slice offset (offset + RECOVERY_OUTCOME_SLOT_SIZE) (spill_bytes d)
      in Inr (encoded ! 0, i64_of_le (slice 8 16 encoded)))"

definition write_slot :: "(nat \<Rightarrow> bool) \<Rightarrow> nat \<Rightarrow> int \<Rightarrow> byte \<Rightarrow> disk_outcomes \<Rightarrow> (log_error, disk_outcomes) result" where
  "write_slot io slot txn outcome d =
     (case checked_mul_u64 slot RECOVERY_OUTCOME_SLOT_SIZE of None \<Rightarrow> Inl OutcomeCountOverflow | Some offset \<Rightarrow>
      if \<not> io offset then Inl SpillIoFailed
      else let encoded = (replicate 16 0)[0 := outcome] in
      let encoded = take 8 encoded @ i64_to_le txn in
      Inr (d\<lparr>spill_bytes := take offset (spill_bytes d) @ encoded @ drop (offset + RECOVERY_OUTCOME_SLOT_SIZE) (spill_bytes d)\<rparr>))"

fun insert_probes ::
  "(nat \<Rightarrow> bool) \<Rightarrow> int \<Rightarrow> byte \<Rightarrow> nat \<Rightarrow> nat list \<Rightarrow> disk_outcomes \<Rightarrow> (log_error, disk_outcomes) result" where
  "insert_probes io txn outcome start [] d = Inl OutcomeIndexFull"
| "insert_probes io txn outcome start (i # probes) d =
     (let slot = (start + i) AND (spill_capacity d - 1) in
      rbind (read_slot io d slot) (\<lambda>(stored_outcome, stored_txn_id).
        if stored_outcome = 0 then
          rbind (write_slot io slot txn outcome d) (\<lambda>d'.
            Inr (if outcome = RECOVERY_OUTCOME_COMMITTED then d'\<lparr>spill_committed := spill_committed d' + 1\<rparr>
                 else d'\<lparr>spill_aborted := spill_aborted d' + 1\<rparr>))
        else if stored_txn_id = txn then
          if stored_outcome \<noteq> outcome then Inl (BothOutcomes txn) else Inr d
        else insert_probes io txn outcome start probes d))"

definition insert_outcome :: "(nat \<Rightarrow> bool) \<Rightarrow> int \<Rightarrow> byte \<Rightarrow> disk_outcomes \<Rightarrow> (log_error, disk_outcomes) result" where
  "insert_outcome io txn outcome d =
     insert_probes io txn outcome (initial_slot d txn) [0..<spill_capacity d] d"

fun get_probes :: "(nat \<Rightarrow> bool) \<Rightarrow> int \<Rightarrow> nat \<Rightarrow> nat list \<Rightarrow> disk_outcomes \<Rightarrow> (log_error, byte option) result" where
  "get_probes io txn start [] d = Inr None"
| "get_probes io txn start (i # probes) d =
     (let slot = (start + i) AND (spill_capacity d - 1) in
      rbind (read_slot io d slot) (\<lambda>(stored_outcome, stored_txn_id).
        if stored_outcome = 0 then Inr None
        else if stored_txn_id = txn then Inr (Some stored_outcome)
        else get_probes io txn start probes d))"

definition get_outcome :: "(nat \<Rightarrow> bool) \<Rightarrow> int \<Rightarrow> disk_outcomes \<Rightarrow> (log_error, byte option) result" where
  "get_outcome io txn d = get_probes io txn (initial_slot d txn) [0..<spill_capacity d] d"

section \<open>Slots\<close>

definition sized :: "disk_outcomes \<Rightarrow> bool" where
  "sized d \<longleftrightarrow> pow2_size (spill_capacity d) \<and> spill_capacity d * 16 \<le> u64_max \<and> length (spill_bytes d) = spill_capacity d * 16"

definition slot_at :: "disk_outcomes \<Rightarrow> nat \<Rightarrow> byte \<times> int" where
  "slot_at d s = (spill_bytes d ! (16 * s), i64_of_le (slice (16 * s + 8) (16 * s + 16) (spill_bytes d)))"

lemma slot_bounds: "sized d \<Longrightarrow> s < spill_capacity d \<Longrightarrow> 16 * s + 16 \<le> length (spill_bytes d) \<and> 16 * s \<le> u64_max"
  by (auto simp: sized_def)

lemma slice_slice: "a + c \<le> a + d \<Longrightarrow> d \<le> b - a \<Longrightarrow> slice c d (slice a b xs) = slice (a + c) (a + d) xs"
  by (simp add: slice_def take_drop add.commute min_def)

lemma read_slot_at:
  assumes "sized d" "s < spill_capacity d" "\<forall>n. io n"
  shows "read_slot io d s = Inr (slot_at d s)"
proof -
  note b = slot_bounds [OF assms(1,2)]
  have "checked_mul_u64 s 16 = Some (16 * s)" using b by (simp add: checked_mul_u64_def mult.commute)
  moreover have "slice (16 * s) (16 * s + 16) (spill_bytes d) ! 0 = spill_bytes d ! (16 * s)" using b by (simp add: slice_def)
  ultimately show ?thesis
    using b assms(3) slice_slice [of "16 * s" 8 16 "16 * s + 16" "spill_bytes d"]
    by (simp add: read_slot_def RECOVERY_OUTCOME_SLOT_SIZE_def slot_at_def)
qed

lemma write_slot_at:
  assumes "sized d" "s < spill_capacity d" "\<forall>n. io n" "in_i64 txn"
  shows "\<exists>bs. write_slot io s txn outcome d = Inr (d\<lparr>spill_bytes := bs\<rparr>) \<and> length bs = length (spill_bytes d) \<and>
    (\<forall>t < spill_capacity d. slot_at (d\<lparr>spill_bytes := bs\<rparr>) t = (if t = s then (outcome, txn) else slot_at d t))"
proof -
  note b = slot_bounds [OF assms(1,2)]
  let ?e = "outcome # replicate 7 0 @ i64_to_le txn"
  let ?bs = "take (16 * s) (spill_bytes d) @ ?e @ drop (16 * s + 16) (spill_bytes d)"
  have e: "take 8 ((replicate 16 0)[0 := outcome]) @ i64_to_le txn = ?e" by (simp add: numeral_eq_Suc)
  have w: "write_slot io s txn outcome d = Inr (d\<lparr>spill_bytes := ?bs\<rparr>)"
    using b assms(3) e by (simp add: write_slot_def RECOVERY_OUTCOME_SLOT_SIZE_def checked_mul_u64_def mult.commute Let_def)
  have l: "length ?bs = length (spill_bytes d)" using b by (simp; linarith)
  have "slot_at (d\<lparr>spill_bytes := ?bs\<rparr>) t = (if t = s then (outcome, txn) else slot_at d t)" if t: "t < spill_capacity d" for t
  proof (cases t s rule: linorder_cases)
    case less
    then have "16 * t + 16 \<le> 16 * s" by simp
    then have "?bs ! (16 * t) = spill_bytes d ! (16 * t)" "slice (16 * t + 8) (16 * t + 16) ?bs = slice (16 * t + 8) (16 * t + 16) (spill_bytes d)"
      using b by (auto simp: nth_append slice_def take_drop)
    then show ?thesis using less by (simp add: slot_at_def)
  next
    case equal
    have "slice (16 * s + 8) (16 * s + 16) ?bs = i64_to_le txn" using b by (simp add: slice_def)
    moreover have "?bs ! (16 * s) = outcome" using b by (simp add: nth_append)
    ultimately show ?thesis using equal assms(4) by (simp add: slot_at_def byte_simps)
  next
    case greater
    then obtain k where k: "t = s + 1 + k" using less_iff_Suc_add by auto
    let ?A = "take (16 * s) (spill_bytes d) @ ?e"
    have A: "length ?A = 16 * s + 16" "?bs = ?A @ drop (16 * s + 16) (spill_bytes d)" using b by simp_all
    have q: "16 * t = 16 * s + 16 + 16 * k" by (simp add: k)
    have "?bs ! (16 * t) = spill_bytes d ! (16 * t)" "drop (16 * t + 8) ?bs = drop (16 * t + 8) (spill_bytes d)"
      unfolding A(2) q nth_append drop_append A(1) using b by (simp_all add: add.commute)
    then show ?thesis using greater by (simp add: slot_at_def slice_def)
  qed
  then show ?thesis using w l by blast
qed

section \<open>Probing\<close>

definition home_slot :: "nat \<Rightarrow> int \<Rightarrow> nat" where
  "home_slot n txn = unat (mix (word_of_int txn)) mod n"

text \<open>
  \<open>clear_path n f t k\<close>: the first \<open>k\<close> slots from the home of \<open>t\<close> are occupied by other transactions. Every stored
  transaction has a clear path to its slot; the occupied slots are the graph of the outcome map \<open>m\<close>.
\<close>

definition clear_path :: "nat \<Rightarrow> (nat \<Rightarrow> byte \<times> int) \<Rightarrow> int \<Rightarrow> nat \<Rightarrow> bool" where
  "clear_path n f t k \<longleftrightarrow> (\<forall>i < k. fst (f ((home_slot n t + i) mod n)) \<noteq> 0 \<and> snd (f ((home_slot n t + i) mod n)) \<noteq> t)"

definition index_of :: "(int \<rightharpoonup> byte) \<Rightarrow> nat \<Rightarrow> (nat \<Rightarrow> byte \<times> int) \<Rightarrow> bool" where
  "index_of m n f \<longleftrightarrow>
     (\<forall>k < n. \<forall>t. fst (f ((home_slot n t + k) mod n)) \<noteq> 0 \<longrightarrow> snd (f ((home_slot n t + k) mod n)) = t \<longrightarrow> clear_path n f t k) \<and>
     (\<forall>s < n. fst (f s) \<noteq> 0 \<longrightarrow> m (snd (f s)) = Some (fst (f s))) \<and>
     (\<forall>t outcome. m t = Some outcome \<longrightarrow> outcome \<noteq> 0 \<and> (\<exists>s < n. f s = (outcome, t)))"

lemma slot_of_probe: "pow2_size n \<Longrightarrow> ((unat (mix (word_of_int t)) AND (n - Suc 0)) + i) AND (n - Suc 0) = (home_slot n t + i) mod n"
  by (simp add: and_mask_mod home_slot_def)

lemma clear_path_0 [simp]: "clear_path n f t 0"
  by (simp add: clear_path_def)

lemma clear_path_Suc:
  "clear_path n f t (Suc k) \<longleftrightarrow> clear_path n f t k \<and> fst (f ((home_slot n t + k) mod n)) \<noteq> 0 \<and> snd (f ((home_slot n t + k) mod n)) \<noteq> t"
  by (auto simp: clear_path_def less_Suc_eq)

lemma reach_slot: "s < n \<Longrightarrow> \<exists>k < n. s = (home_slot n t + k) mod n"
  by (rule exI [of _ "cdist n (home_slot n t) s"]) (auto simp: home_slot_def intro: cdist_lt cdist_add [symmetric])

lemma clear_path_all: "clear_path n f t n \<Longrightarrow> s < n \<Longrightarrow> fst (f s) \<noteq> 0 \<and> snd (f s) \<noteq> t"
  using reach_slot [of s n t] by (auto simp: clear_path_def)

lemma index_of_SomeD: "index_of m n f \<Longrightarrow> m t = Some outcome \<Longrightarrow> outcome \<noteq> 0 \<and> (\<exists>s < n. f s = (outcome, t))"
  by (simp add: index_of_def)

lemma index_of_slotD: "index_of m n f \<Longrightarrow> s < n \<Longrightarrow> fst (f s) \<noteq> 0 \<Longrightarrow> m (snd (f s)) = Some (fst (f s))"
  by (simp add: index_of_def)

lemma empty_on_path:
  assumes "index_of m n f" "clear_path n f t k" "k < n" "fst (f ((home_slot n t + k) mod n)) = 0"
  shows "m t = None"
proof (rule ccontr)
  assume "m t \<noteq> None"
  then obtain outcome s where s: "outcome \<noteq> 0" "s < n" "f s = (outcome, t)" using index_of_SomeD [OF assms(1)] by blast
  obtain j where j: "j < n" "s = (home_slot n t + j) mod n" using reach_slot [OF s(2)] by blast
  have c: "clear_path n f t j" using assms(1) j s unfolding index_of_def by auto
  consider "j < k" | "j = k" | "k < j" by linarith
  then show False
    using assms(2-4) c j s unfolding clear_path_def by cases auto
qed

text \<open>An index with fewer transactions than slots has an empty slot, so no probe sequence is clear all the way round.\<close>

lemma not_full:
  assumes "index_of m n f" "card (dom m) < n" "finite (dom m)"
  shows "\<not> clear_path n f t n"
proof
  assume c: "clear_path n f t n"
  have occ: "\<And>s. s < n \<Longrightarrow> fst (f s) \<noteq> 0" using clear_path_all [OF c] by blast
  have "inj_on (\<lambda>s. snd (f s)) {..<n}"
  proof (rule inj_onI)
    fix a b assume ab: "a \<in> {..<n}" "b \<in> {..<n}" "snd (f a) = snd (f b)"
    define t where "t = snd (f a)"
    then have t: "snd (f a) = t" "snd (f b) = t" using ab(3) by simp_all
    obtain i where i: "i < n" "a = (home_slot n t + i) mod n" using reach_slot [of a n t] ab(1) by auto
    obtain j where j: "j < n" "b = (home_slot n t + j) mod n" using reach_slot [of b n t] ab(2) by auto
    have path: "clear_path n f t k" if "k < n" "snd (f ((home_slot n t + k) mod n)) = t" for k
      using assms(1) that occ [of "(home_slot n t + k) mod n"] unfolding index_of_def by simp
    have "clear_path n f t i" "clear_path n f t j" using path [of i] path [of j] i j t by simp_all
    then have "\<not> i < j" "\<not> j < i" using i(2) j(2) t unfolding clear_path_def by metis+
    then show "a = b" using i j by simp
  qed
  moreover have "(\<lambda>s. snd (f s)) ` {..<n} \<subseteq> dom m" using index_of_slotD [OF assms(1)] occ by auto
  ultimately have "card {..<n} \<le> card (dom m)" by (rule card_inj_on_le [OF _ _ assms(3)])
  then show False using assms(2) by simp
qed

lemma get_probes_index:
  assumes "sized d" "\<forall>n. io n" "index_of m (spill_capacity d) (slot_at d)"
  shows "clear_path (spill_capacity d) (slot_at d) t k \<Longrightarrow> k \<le> spill_capacity d \<Longrightarrow>
    get_probes io t (initial_slot d t) [k..<spill_capacity d] d = Inr (m t)"
proof (induction "spill_capacity d - k" arbitrary: k)
  case 0
  then have "clear_path (spill_capacity d) (slot_at d) t (spill_capacity d)" by simp
  then have "m t = None"
    using index_of_SomeD [OF assms(3), of t] clear_path_all by (cases "m t") fastforce+
  then show ?case using 0 by simp
next
  case (Suc j)
  let ?n = "spill_capacity d" let ?s = "(home_slot ?n t + k) mod ?n"
  have k: "k < ?n" using Suc(2) by simp
  have n: "pow2_size ?n" "0 < ?n" using assms(1) k by (auto simp: sized_def)
  have sl: "(initial_slot d t + k) AND (?n - Suc 0) = ?s" using slot_of_probe [OF n(1)] by (simp add: initial_slot_def)
  have rd: "read_slot io d ?s = Inr (slot_at d ?s)" using read_slot_at [OF assms(1) _ assms(2)] n by simp
  have m: "m t = None" if "fst (slot_at d ?s) = 0" by (rule empty_on_path [OF assms(3) Suc(3) k that])
  have h: "m t = Some (fst (slot_at d ?s))" if "fst (slot_at d ?s) \<noteq> 0" "snd (slot_at d ?s) = t"
    using index_of_slotD [OF assms(3), of ?s] that n by simp
  have IH: "get_probes io t (initial_slot d t) [Suc k..<?n] d = Inr (m t)"
    if "fst (slot_at d ?s) \<noteq> 0" "snd (slot_at d ?s) \<noteq> t"
    by (rule Suc(1)) (use Suc(2,3) that in \<open>simp_all add: clear_path_Suc\<close>)
  have "get_probes io t (initial_slot d t) (k # [Suc k..<?n]) d = Inr (m t)"
    using m h IH by (cases "slot_at d ?s") (auto simp: sl rd Let_def)
  then show ?case using upt_conv_Cons [OF k] by simp
qed

section \<open>Inserting\<close>

lemma index_of_cong: "0 < n \<Longrightarrow> \<forall>s < n. f s = g s \<Longrightarrow> index_of m n f \<Longrightarrow> index_of m n g"
  unfolding index_of_def clear_path_def by simp metis

lemma index_insert:
  assumes "index_of m n f" "m t = None" "outcome \<noteq> 0" "clear_path n f t k" "k < n"
    and s: "s = (home_slot n t + k) mod n" "fst (f s) = 0"
  shows "index_of (m(t \<mapsto> outcome)) n (f(s := (outcome, t)))"
proof -
  let ?g = "f(s := (outcome, t))"
  have sn: "s < n" using assms(5) s(1) by simp
  have keep: "clear_path n ?g u j" if "clear_path n f u j" for u j
    using that s(2) unfolding clear_path_def by (auto split: if_splits)
  have "clear_path n ?g u j" if j: "j < n" "fst (?g ((home_slot n u + j) mod n)) \<noteq> 0" "snd (?g ((home_slot n u + j) mod n)) = u" for u j
  proof (cases "(home_slot n u + j) mod n = s")
    case True
    then have u: "u = t" using j(3) by simp
    have "home_slot n t < n" using sn by (simp add: home_slot_def)
    then have "j = k" using True u s(1) j(1) assms(5) cdist_step [of "home_slot n t" n] by metis
    then show ?thesis using keep assms(4) u by simp
  next
    case False
    then show ?thesis using keep j assms(1) unfolding index_of_def by simp
  qed
  moreover have "(m(t \<mapsto> outcome)) (snd (?g x)) = Some (fst (?g x))" if "x < n" "fst (?g x) \<noteq> 0" for x
    using index_of_slotD [OF assms(1) that(1)] that assms(2) by (cases "x = s") auto
  moreover have "q \<noteq> 0 \<and> (\<exists>x < n. ?g x = (q, u))" if q: "(m(t \<mapsto> outcome)) u = Some q" for u q
  proof (cases "u = t")
    case True
    then show ?thesis using q assms(3) sn by (intro conjI exI [of _ s]) auto
  next
    case False
    then obtain x where "q \<noteq> 0" "x < n" "f x = (q, u)" using index_of_SomeD [OF assms(1), of u q] q by auto
    then show ?thesis using s(2) by (intro conjI exI [of _ x]) auto
  qed
  ultimately show ?thesis unfolding index_of_def by blast
qed

text \<open>What an outcome store does: record the first outcome, accept it again, refuse the other one.\<close>

definition put_spec :: "int \<Rightarrow> byte \<Rightarrow> (int \<rightharpoonup> byte) \<Rightarrow> (log_error, int \<rightharpoonup> byte) result" where
  "put_spec t outcome m =
     (case m t of None \<Rightarrow> Inr (m(t \<mapsto> outcome)) | Some q \<Rightarrow> if q \<noteq> outcome then Inl (BothOutcomes t) else Inr m)"

definition outcome_count :: "byte \<Rightarrow> (int \<rightharpoonup> byte) \<Rightarrow> nat" where
  "outcome_count outcome m = card {t. m t = Some outcome}"

definition disk_rel :: "disk_outcomes \<Rightarrow> (int \<rightharpoonup> byte) \<Rightarrow> bool" where
  "disk_rel d m \<longleftrightarrow> sized d \<and> index_of m (spill_capacity d) (slot_at d) \<and> finite (dom m) \<and> ran m \<subseteq> {1, 2} \<and>
     spill_committed d = outcome_count 1 m \<and> spill_aborted d = outcome_count 2 m"

lemma outcome_count_update:
  "finite (dom m) \<Longrightarrow> m t = None \<Longrightarrow> outcome_count q (m(t \<mapsto> outcome)) = outcome_count q m + (if q = outcome then 1 else 0)"
proof -
  assume m: "finite (dom m)" "m t = None"
  have "{u. (m(t \<mapsto> outcome)) u = Some q} = (if q = outcome then insert t {u. m u = Some q} else {u. m u = Some q})"
    using m(2) by auto
  moreover have "finite {u. m u = Some q}" using m(1) by (rule finite_subset [rotated]) auto
  moreover have "t \<notin> {u. m u = Some q}" using m(2) by simp
  ultimately show ?thesis unfolding outcome_count_def by (cases "q = outcome") (simp_all del: mem_Collect_eq fun_upd_apply)
qed

lemma insert_probes_index:
  assumes "disk_rel d m" "\<forall>n. io n" "in_i64 t" "outcome \<in> {1, 2}" "card (dom m) < spill_capacity d"
  shows "clear_path (spill_capacity d) (slot_at d) t k \<Longrightarrow> k \<le> spill_capacity d \<Longrightarrow>
    (case put_spec t outcome m of
       Inl e \<Rightarrow> insert_probes io t outcome (initial_slot d t) [k..<spill_capacity d] d = Inl e
     | Inr m' \<Rightarrow> \<exists>d'. insert_probes io t outcome (initial_slot d t) [k..<spill_capacity d] d = Inr d' \<and>
         disk_rel d' m' \<and> spill_capacity d' = spill_capacity d)" (is "_ \<Longrightarrow> _ \<Longrightarrow> ?P k")
proof (induction "spill_capacity d - k" arbitrary: k)
  case 0
  then show ?case using not_full assms(1,5) by (auto simp: disk_rel_def)
next
  case (Suc j)
  let ?n = "spill_capacity d" let ?s = "(home_slot ?n t + k) mod ?n"
  let ?ins = "insert_probes io t outcome (initial_slot d t)"
  have r: "sized d" "index_of m ?n (slot_at d)" "finite (dom m)" using assms(1) by (simp_all add: disk_rel_def)
  have k: "k < ?n" using Suc(2) by simp
  have n: "pow2_size ?n" "0 < ?n" using r(1) k by (auto simp: sized_def)
  have sl: "(initial_slot d t + k) AND (?n - Suc 0) = ?s" using slot_of_probe [OF n(1)] by (simp add: initial_slot_def)
  have rd: "read_slot io d ?s = Inr (slot_at d ?s)" using read_slot_at [OF r(1) _ assms(2)] n by simp
  have u: "[k..<?n] = k # [Suc k..<?n]" by (rule upt_conv_Cons [OF k])
  consider (empty) "fst (slot_at d ?s) = 0" | (hit) "fst (slot_at d ?s) \<noteq> 0" "snd (slot_at d ?s) = t"
    | (other) "fst (slot_at d ?s) \<noteq> 0" "snd (slot_at d ?s) \<noteq> t" by blast
  then show ?case
  proof cases
    case empty
    have mt: "m t = None" by (rule empty_on_path [OF r(2) Suc(3) k empty])
    obtain bs where bs: "write_slot io ?s t outcome d = Inr (d\<lparr>spill_bytes := bs\<rparr>)" "length bs = length (spill_bytes d)"
      "\<forall>x < ?n. slot_at (d\<lparr>spill_bytes := bs\<rparr>) x = ((slot_at d)(?s := (outcome, t))) x"
      using write_slot_at [OF r(1) _ assms(2,3), of ?s outcome] n by auto
    define d' where "d' = (if outcome = 1 then d\<lparr>spill_bytes := bs, spill_committed := spill_committed d + 1\<rparr>
        else d\<lparr>spill_bytes := bs, spill_aborted := spill_aborted d + 1\<rparr>)"
    have at: "slot_at d' x = slot_at (d\<lparr>spill_bytes := bs\<rparr>) x" for x by (simp add: d'_def slot_at_def)
    have c: "spill_capacity d' = ?n" by (simp add: d'_def)
    have "index_of (m(t \<mapsto> outcome)) ?n ((slot_at d)(?s := (outcome, t)))"
      by (rule index_insert [OF r(2) mt _ Suc(3) k refl empty]) (use assms(4) in auto)
    then have "index_of (m(t \<mapsto> outcome)) ?n (slot_at d')" by (rule index_of_cong [OF n(2), rotated]) (simp add: bs(3) at)
    moreover have "sized d'" using r(1) bs(2) by (simp add: sized_def d'_def)
    moreover have "ran (m(t \<mapsto> outcome)) \<subseteq> {1, 2}" using assms(1,4) mt by (auto simp: disk_rel_def)
    moreover have "spill_committed d' = outcome_count 1 (m(t \<mapsto> outcome))" "spill_aborted d' = outcome_count 2 (m(t \<mapsto> outcome))"
      using assms(1,4) by (auto simp: outcome_count_update [OF r(3) mt] d'_def disk_rel_def)
    ultimately have "disk_rel d' (m(t \<mapsto> outcome))" using r(3) c by (simp add: disk_rel_def)
    moreover have "?ins (k # [Suc k..<?n]) d = Inr d'"
      using empty by (cases "slot_at d ?s") (simp add: sl rd bs(1) d'_def RECOVERY_OUTCOME_COMMITTED_def Let_def)
    ultimately show ?thesis using c mt unfolding u by (auto simp: put_spec_def)
  next
    case hit
    have "m t = Some (fst (slot_at d ?s))" using index_of_slotD [OF r(2), of ?s] hit n by simp
    moreover have "?ins (k # [Suc k..<?n]) d = (if fst (slot_at d ?s) \<noteq> outcome then Inl (BothOutcomes t) else Inr d)"
      using hit by (cases "slot_at d ?s") (simp add: sl rd Let_def)
    ultimately show ?thesis using assms(1) unfolding u by (simp add: put_spec_def)
  next
    case other
    have "?P (Suc k)" by (rule Suc(1)) (use Suc(2,3) other in \<open>simp_all add: clear_path_Suc\<close>)
    moreover have "?ins (k # [Suc k..<?n]) d = ?ins [Suc k..<?n] d"
      using other by (cases "slot_at d ?s") (simp add: sl rd Let_def)
    ultimately show ?thesis unfolding u by (simp only:)
  qed
qed

section \<open>Outcome stores\<close>

text \<open>
  The contract that replay relies on, for the in-memory map and the disk index alike: \<open>rel d m\<close> says that the store \<open>d\<close>
  holds the outcomes \<open>m\<close>.
\<close>

locale outcome_store =
  fixes rel :: "'d \<Rightarrow> (int \<rightharpoonup> byte) \<Rightarrow> bool"
    and put :: "int \<Rightarrow> byte \<Rightarrow> 'd \<Rightarrow> (log_error, 'd) result"
    and look :: "int \<Rightarrow> 'd \<Rightarrow> (log_error, byte option) result"
    and room :: "'d \<Rightarrow> nat"
  assumes look_rel: "rel d m \<Longrightarrow> look t d = Inr (m t)"
    and put_rel: "rel d m \<Longrightarrow> in_i64 t \<Longrightarrow> outcome \<in> {1, 2} \<Longrightarrow> card (dom m) < room d \<Longrightarrow>
      (case put_spec t outcome m of
         Inl e \<Rightarrow> put t outcome d = Inl e
       | Inr m' \<Rightarrow> \<exists>d'. put t outcome d = Inr d' \<and> rel d' m' \<and> room d' = room d)"
    and rel_finite: "rel d m \<Longrightarrow> finite (dom m)"
begin

lemma put_all:
  "rel d m \<Longrightarrow> \<forall>(t, outcome) \<in> set ms. in_i64 t \<and> outcome \<in> {1, 2} \<Longrightarrow> card (dom m) + length ms \<le> room d \<Longrightarrow>
   (case fold_res (\<lambda>(t, outcome). put_spec t outcome) ms m of
      Inl e \<Rightarrow> fold_res (\<lambda>(t, outcome). put t outcome) ms d = Inl e
    | Inr m' \<Rightarrow> \<exists>d'. fold_res (\<lambda>(t, outcome). put t outcome) ms d = Inr d' \<and> rel d' m')"
proof (induction ms arbitrary: d m)
  case (Cons x ms)
  obtain t outcome where x: "x = (t, outcome)" by (rule prod.exhaust)
  have p: "case put_spec t outcome m of
         Inl e \<Rightarrow> put t outcome d = Inl e
       | Inr m' \<Rightarrow> \<exists>d'. put t outcome d = Inr d' \<and> rel d' m' \<and> room d' = room d"
    using put_rel [OF Cons.prems(1)] Cons.prems(2,3) x by auto
  show ?case
  proof (cases "put_spec t outcome m")
    case (Inl e)
    then show ?thesis using p x by simp
  next
    case (Inr m')
    then obtain d' where d': "put t outcome d = Inr d'" "rel d' m'" "room d' = room d" using p by auto
    have "card (dom m') \<le> Suc (card (dom m))"
      using Inr rel_finite [OF Cons.prems(1)] card_insert_le_m1 [of "Suc (card (dom m))" "dom m" t]
      by (auto simp: put_spec_def split: option.splits if_splits)
    then have c: "card (dom m') + length ms \<le> room d'" using Cons.prems(3) d'(3) by simp
    have e: "fold_res (\<lambda>(t, outcome). put t outcome) (x # ms) d = fold_res (\<lambda>(t, outcome). put t outcome) ms d'"
      "fold_res (\<lambda>(t, outcome). put_spec t outcome) (x # ms) m = fold_res (\<lambda>(t, outcome). put_spec t outcome) ms m'"
      using x Inr d'(1) by simp_all
    show ?thesis unfolding e by (rule Cons.IH [OF d'(2) _ c]) (use Cons.prems(2) in simp)
  qed
qed simp

end

interpretation disk: outcome_store disk_rel "insert_outcome (\<lambda>_. True)" "get_outcome (\<lambda>_. True)" spill_capacity
proof
  fix d m t assume r: "disk_rel d m"
  show "get_outcome (\<lambda>_. True) t d = Inr (m t)"
    using get_probes_index [of d "\<lambda>_. True" m t 0] r by (simp add: get_outcome_def disk_rel_def)
  show "finite (dom m)" using r by (simp add: disk_rel_def)
  fix outcome :: byte assume "in_i64 t" "outcome \<in> {1, 2}" "card (dom m) < spill_capacity d"
  then show "case put_spec t outcome m of
         Inl e \<Rightarrow> insert_outcome (\<lambda>_. True) t outcome d = Inl e
       | Inr m' \<Rightarrow> \<exists>d'. insert_outcome (\<lambda>_. True) t outcome d = Inr d' \<and> disk_rel d' m' \<and> spill_capacity d' = spill_capacity d"
    unfolding insert_outcome_def by (intro insert_probes_index [OF r]) auto
qed

definition memory_insert :: "int \<Rightarrow> byte \<Rightarrow> (int \<times> byte) list \<Rightarrow> (log_error, (int \<times> byte) list) result" where
  "memory_insert txn outcome outcomes =
     (case map_of outcomes txn of
        Some stored \<Rightarrow> if stored \<noteq> outcome then Inl (BothOutcomes txn) else Inr outcomes
      | None \<Rightarrow> Inr ((txn, outcome) # outcomes))"

definition memory_get :: "int \<Rightarrow> (int \<times> byte) list \<Rightarrow> (log_error, byte option) result" where
  "memory_get txn outcomes = Inr (map_of outcomes txn)"

definition memory_rel :: "(int \<times> byte) list \<Rightarrow> (int \<rightharpoonup> byte) \<Rightarrow> bool" where
  "memory_rel outcomes m \<longleftrightarrow> map_of outcomes = m \<and> distinct (map fst outcomes) \<and> ran m \<subseteq> {1, 2}"

interpretation memory: outcome_store memory_rel memory_insert memory_get "\<lambda>_. u64_max"
proof
  fix d m t assume r: "memory_rel d m"
  show "memory_get t d = Inr (m t)" using r by (simp add: memory_get_def memory_rel_def)
  show "finite (dom m)" using r finite_dom_map_of [of d] by (simp add: memory_rel_def)
  fix outcome :: byte assume o: "outcome \<in> {1, 2}"
  show "case put_spec t outcome m of
         Inl e \<Rightarrow> memory_insert t outcome d = Inl e
       | Inr m' \<Rightarrow> \<exists>d'. memory_insert t outcome d = Inr d' \<and> memory_rel d' m' \<and> u64_max = u64_max"
    using r o by (auto simp: put_spec_def memory_insert_def memory_rel_def map_of_eq_None_iff split: option.splits)
qed

datatype recovery_outcomes = Memory "(int \<times> byte) list" | Disk disk_outcomes

fun recovery_get :: "(nat \<Rightarrow> bool) \<Rightarrow> int \<Rightarrow> recovery_outcomes \<Rightarrow> (log_error, byte option) result" where
  "recovery_get io txn (Memory outcomes) = memory_get txn outcomes"
| "recovery_get io txn (Disk d) = get_outcome io txn d"

fun recovery_counts :: "recovery_outcomes \<Rightarrow> nat \<times> nat" where
  "recovery_counts (Memory outcomes) =
     foldl (\<lambda>(c, a) (_, outcome). if outcome = RECOVERY_OUTCOME_COMMITTED then (c + 1, a) else (c, a + 1)) (0, 0) outcomes"
| "recovery_counts (Disk d) = (spill_committed d, spill_aborted d)"

section \<open>The disk index and the map agree\<close>

lemma index_capacity_Inr:
  assumes "index_capacity n = Inr c"
  shows "pow2_size c" "2 * n + 1 \<le> c"
proof -
  have one: "pow2_size 1" "pow2_size 16"
    unfolding pow2_size_def by (rule exI [of _ 0], simp) (rule exI [of _ 4], simp)
  have c: "c = max (next_power_of_two (2 * n + 1)) 16"
    using assms by (auto simp: index_capacity_def checked_mul_u64_def mult.commute split: if_splits option.splits)
  have "2 * n + 1 \<le> next_power_of_two (2 * n + 1) \<and> pow2_size (next_power_of_two (2 * n + 1))"
    unfolding next_power_of_two_def by (rule pow2_above_props [OF _ one(1)]) simp
  then show "pow2_size c" "2 * n + 1 \<le> c" using one(2) unfolding c by (auto simp: max_def)
qed

lemma create_outcomes_rel:
  assumes "create_outcomes b n = Inr d"
  shows "disk_rel d Map.empty" "2 * n < spill_capacity d"
proof -
  obtain c where c: "index_capacity n = Inr c" using assms by (cases "index_capacity n") (auto simp: create_outcomes_def)
  then have d: "d = \<lparr>spill_bytes = replicate (c * 16) 0, spill_capacity = c, spill_committed = 0, spill_aborted = 0\<rparr>" "c * 16 \<le> u64_max"
    using assms by (auto simp: create_outcomes_def checked_mul_u64_def RECOVERY_OUTCOME_SLOT_SIZE_def split: if_splits)
  note i = index_capacity_Inr [OF c]
  have "fst (slot_at d s) = 0" if "s < c" for s using that by (simp add: d(1) slot_at_def)
  then have "index_of Map.empty c (slot_at d)" using i(2) by (simp add: index_of_def)
  moreover have "sized d" using d i by (simp add: sized_def)
  ultimately show "disk_rel d Map.empty" by (simp add: disk_rel_def d(1) outcome_count_def)
  show "2 * n < spill_capacity d" using i(2) d(1) by simp
qed

lemma recovery_counts_memory:
  assumes "memory_rel outcomes m"
  shows "recovery_counts (Memory outcomes) = (outcome_count 1 m, outcome_count 2 m)"
proof -
  have f: "foldl (\<lambda>(c, a) (_, q). if q = RECOVERY_OUTCOME_COMMITTED then (c + 1, a) else (c, a + 1)) (x, y) outcomes =
      (x + length (filter (\<lambda>p. snd p = 1) outcomes), y + length (filter (\<lambda>p. snd p \<noteq> 1) outcomes))" for x y
    by (induction outcomes arbitrary: x y) (auto simp: RECOVERY_OUTCOME_COMMITTED_def split: prod.splits)
  have m: "m = map_of outcomes" "distinct (map fst outcomes)" "ran m \<subseteq> {1, 2}" using assms by (auto simp: memory_rel_def)
  have "filter (\<lambda>p. snd p \<noteq> 1) outcomes = filter (\<lambda>p. snd p = 2) outcomes"
    using m by (intro filter_cong refl) (auto simp: ran_map_of_zip ran_def intro: map_of_is_SomeI)
  moreover have "length (filter (\<lambda>p. snd p = q) outcomes) = outcome_count q m" for q
  proof -
    let ?f = "filter (\<lambda>p. snd p = q) outcomes"
    have d: "distinct (map fst ?f)" using m(2) by (rule distinct_filter_fst)
    have "set (map fst ?f) = {t. m t = Some q}" using m(1,2) by (force intro: map_of_is_SomeI dest: map_of_SomeD)
    then show ?thesis using distinct_card [OF d] by (simp add: outcome_count_def)
  qed
  ultimately show ?thesis using f [of 0 0] by simp
qed

text \<open>
  C13. The spilled outcome index. Recording any sequence of commit and abort markers in a disk index created for
  their number gives the same answers as the in-memory map: it reports the same transaction with two outcomes, or it
  accepts every marker, never fills up, finds every transaction's outcome by probing, and has the same counts.
\<close>

theorem disk_outcomes_equal_memory:
  assumes "create_outcomes True (length ms) = Inr d0" "\<forall>(t, outcome) \<in> set ms. in_i64 t \<and> outcome \<in> {1, 2}"
  shows "case fold_res (\<lambda>(t, outcome). memory_insert t outcome) ms [] of
      Inl e \<Rightarrow> fold_res (\<lambda>(t, outcome). insert_outcome (\<lambda>_. True) t outcome) ms d0 = Inl e
    | Inr outcomes \<Rightarrow> \<exists>d. fold_res (\<lambda>(t, outcome). insert_outcome (\<lambda>_. True) t outcome) ms d0 = Inr d \<and>
        recovery_counts (Disk d) = recovery_counts (Memory outcomes) \<and>
        (\<forall>t. recovery_get (\<lambda>_. True) t (Disk d) = recovery_get (\<lambda>_. True) t (Memory outcomes))"
proof -
  note c = create_outcomes_rel [OF assms(1)]
  have cap: "spill_capacity d0 \<le> u64_max" using c(1) by (simp add: disk_rel_def sized_def)
  have "memory_rel [] Map.empty" by (simp add: memory_rel_def)
  from memory.put_all [OF this assms(2)] disk.put_all [OF c(1) assms(2)]
  have mp: "case fold_res (\<lambda>(t, outcome). put_spec t outcome) ms Map.empty of
      Inl e \<Rightarrow> fold_res (\<lambda>(t, outcome). memory_insert t outcome) ms [] = Inl e
    | Inr m' \<Rightarrow> \<exists>d'. fold_res (\<lambda>(t, outcome). memory_insert t outcome) ms [] = Inr d' \<and> memory_rel d' m'"
    and dp: "case fold_res (\<lambda>(t, outcome). put_spec t outcome) ms Map.empty of
      Inl e \<Rightarrow> fold_res (\<lambda>(t, outcome). insert_outcome (\<lambda>_. True) t outcome) ms d0 = Inl e
    | Inr m' \<Rightarrow> \<exists>d'. fold_res (\<lambda>(t, outcome). insert_outcome (\<lambda>_. True) t outcome) ms d0 = Inr d' \<and> disk_rel d' m'"
    using c(2) cap by simp_all
  show ?thesis
  proof (cases "fold_res (\<lambda>(t, outcome). put_spec t outcome) ms Map.empty")
    case (Inl e)
    then show ?thesis using mp dp by simp
  next
    case (Inr m)
    then obtain xs d where r: "fold_res (\<lambda>(t, outcome). memory_insert t outcome) ms [] = Inr xs" "memory_rel xs m"
        "fold_res (\<lambda>(t, outcome). insert_outcome (\<lambda>_. True) t outcome) ms d0 = Inr d" "disk_rel d m"
      using mp dp by auto
    have "recovery_counts (Disk d) = recovery_counts (Memory xs)"
      using r(4) recovery_counts_memory [OF r(2)] by (simp add: disk_rel_def)
    moreover have "recovery_get (\<lambda>_. True) t (Disk d) = recovery_get (\<lambda>_. True) t (Memory xs)" for t
      using disk.look_rel [OF r(4)] memory.look_rel [OF r(2)] by simp
    ultimately show ?thesis using r by simp
  qed
qed

theorem disk_outcomes_equal_memory_witness:
  "\<exists>d0 d. create_outcomes True 3 = Inr d0 \<and> spill_capacity d0 = 16 \<and>
     fold_res (\<lambda>(t, outcome). insert_outcome (\<lambda>_. True) t outcome) [(7, 1), (-2, 2), (7, 1)] d0 = Inr d \<and>
     recovery_counts (Disk d) = (1, 1) \<and> get_outcome (\<lambda>_. True) (-2) d = Inr (Some 2) \<and> get_outcome (\<lambda>_. True) 5 d = Inr None"
proof -
  let ?ms = "[(7, 1), (-2, 2), (7, 1)] :: (int \<times> byte) list"
  have "next_power_of_two 7 = 8" unfolding next_power_of_two_def by (simp add: pow2_above.simps)
  then obtain d0 where d0: "create_outcomes True 3 = Inr d0" "spill_capacity d0 = 16"
    by (simp add: create_outcomes_def index_capacity_def checked_mul_u64_def checked_add_u64_def RECOVERY_OUTCOME_SLOT_SIZE_def)
  have m: "fold_res (\<lambda>(t, outcome). memory_insert t outcome) ?ms [] = Inr [(-2, 2), (7, 1)]"
    by (simp add: memory_insert_def)
  have "\<exists>d. fold_res (\<lambda>(t, outcome). insert_outcome (\<lambda>_. True) t outcome) ?ms d0 = Inr d \<and>
      recovery_counts (Disk d) = recovery_counts (Memory [(-2, 2), (7, 1)]) \<and>
      (\<forall>t. recovery_get (\<lambda>_. True) t (Disk d) = recovery_get (\<lambda>_. True) t (Memory [(-2, 2), (7, 1)]))"
  proof -
    have "length ?ms = 3" "\<forall>(t, outcome) \<in> set ?ms. in_i64 t \<and> outcome \<in> {1, 2}" by simp_all
    then show ?thesis using disk_outcomes_equal_memory [of ?ms d0, unfolded m sum.case] d0(1) by (simp only:)
  qed
  then obtain d where d: "fold_res (\<lambda>(t, outcome). insert_outcome (\<lambda>_. True) t outcome) ?ms d0 = Inr d"
      "recovery_counts (Disk d) = recovery_counts (Memory [(-2, 2), (7, 1)])"
      "\<forall>t. recovery_get (\<lambda>_. True) t (Disk d) = recovery_get (\<lambda>_. True) t (Memory [(-2, 2), (7, 1)])" by blast
  have "recovery_counts (Disk d) = (1, 1)" using d(2) by (simp add: RECOVERY_OUTCOME_COMMITTED_def)
  moreover have "get_outcome (\<lambda>_. True) (-2) d = Inr (Some 2)" "get_outcome (\<lambda>_. True) 5 d = Inr None"
    using d(3) [rule_format, of "-2"] d(3) [rule_format, of 5] by (simp_all add: memory_get_def)
  ultimately show ?thesis using d0 d(1) by blast
qed

end
