(* ===== verification/Wal_Recovery.thy ===== *)
theory Wal_Recovery
  imports Wal_Checkpoint Wal_Outcomes
begin

text \<open>
  Two-phase recovery of the log, from \<open>wal_manager/replay.rs\<close>. Phase one scans the retained generations for commit and
  abort markers, in memory up to a limit and then in the disk index of \<open>Wal_Outcomes\<close>; phase two reads the
  generations again and gives the entries of committed transactions to a callback. The callback and the
  observer of uncommitted transactions are arguments that change a client state and may fail. The memory limit is an
  argument because test builds use a smaller one.
\<close>

section \<open>Reading the generations\<close>

text \<open>\<open>while let Some(entry) = reader.next_entry()?\<close> with a body that changes the caller's state before it may fail.\<close>

function each_entry ::
  "(byte list \<Rightarrow> nat) \<Rightarrow> (byte list \<Rightarrow> byte list option) \<Rightarrow> (wal_entry \<Rightarrow> 's \<Rightarrow> (log_error, unit) result \<times> 's) \<Rightarrow>
   wal_reader \<Rightarrow> 's \<Rightarrow> (log_error, unit) result \<times> 's" where
  "each_entry crc decompress body r s =
     (case next_entry crc decompress r of
        Inl e \<Rightarrow> (Inl (RecordError e), s)
      | Inr None \<Rightarrow> (Inr (), s)
      | Inr (Some (e, r')) \<Rightarrow>
          (case body e s of
             (Inl err, s') \<Rightarrow> (Inl err, s')
           | (Inr _, s') \<Rightarrow> each_entry crc decompress body r' s'))"
  by pat_completeness auto
termination
  by (relation "measure (\<lambda>(crc, decompress, body, r, s). length (rd_rest r))") (auto dest: next_entry_shrinks)

declare each_entry.simps [simp del]

fun each_generation ::
  "(byte list \<Rightarrow> nat) \<Rightarrow> (byte list \<Rightarrow> byte list option) \<Rightarrow> (string \<times> byte list) list \<Rightarrow>
   (wal_entry \<Rightarrow> 's \<Rightarrow> (log_error, unit) result \<times> 's) \<Rightarrow> wal_generation list \<Rightarrow> 's \<Rightarrow> (log_error, unit) result \<times> 's" where
  "each_generation crc decompress files body [] s = (Inr (), s)"
| "each_generation crc decompress files body (g # gs) s =
     (case map_of files (gen_name g) of
        None \<Rightarrow> (Inl (OpenFailed (gen_name g)), s)
      | Some bs \<Rightarrow>
          (case each_entry crc decompress body (reader_open bs) s of
             (Inl err, s') \<Rightarrow> (Inl err, s')
           | (Inr _, s') \<Rightarrow> each_generation crc decompress files body gs s'))"

section \<open>Phase one\<close>

definition marker_outcome :: "wal_entry \<Rightarrow> byte option" where
  "marker_outcome e =
     (if is_commit_marker e then Some RECOVERY_OUTCOME_COMMITTED
      else if is_abort_marker e then Some RECOVERY_OUTCOME_ABORTED
      else None)"

record analysis =
  an_wal :: wal
  memory_outcomes :: "(int \<times> byte) list"
  outcome_markers :: nat
  needs_spill :: bool
  an_last_lsn :: nat
  max_transaction :: int

definition note_outcome :: "nat \<Rightarrow> int \<Rightarrow> byte \<Rightarrow> analysis \<Rightarrow> (log_error, unit) result \<times> analysis" where
  "note_outcome limit txn outcome a =
     (case memory_insert txn outcome (memory_outcomes a) of
        Inl err \<Rightarrow> (Inl err, a)
      | Inr outcomes \<Rightarrow>
          if length outcomes > limit then (Inr (), a\<lparr>needs_spill := True, memory_outcomes := []\<rparr>)
          else (Inr (), a\<lparr>memory_outcomes := outcomes\<rparr>))"

definition analysis_step :: "nat \<Rightarrow> nat \<Rightarrow> wal_entry \<Rightarrow> analysis \<Rightarrow> (log_error, unit) result \<times> analysis" where
  "analysis_step limit from_lsn e a =
     (if txn_id e = i64_max then (Inl TransactionIdExhausted, a)
      else let a1 = (if txn_id e > max_transaction a then a\<lparr>max_transaction := txn_id e\<rparr> else a)
      in case observe_persisted_timestamp (timestamp e) (an_wal a1) of
        (False, w) \<Rightarrow> (Inl TimestampExhausted, a1\<lparr>an_wal := w\<rparr>)
      | (True, w) \<Rightarrow>
          let a2 = a1\<lparr>an_wal := w\<rparr> in
          if lsn e \<le> from_lsn then (Inr (), a2)
          else let a3 = a2\<lparr>an_last_lsn := max (an_last_lsn a2) (lsn e)\<rparr>
          in case marker_outcome e of
            None \<Rightarrow> (Inr (), a3)
          | Some outcome \<Rightarrow>
              (case checked_add_u64 (outcome_markers a3) 1 of
                 None \<Rightarrow> (Inl MarkerCountOverflow, a3)
               | Some n \<Rightarrow>
                   let a4 = a3\<lparr>outcome_markers := n\<rparr> in
                   if needs_spill a4 then (Inr (), a4) else note_outcome limit (txn_id e) outcome a4))"

definition scan_step ::
  "nat \<Rightarrow> (int \<Rightarrow> byte \<Rightarrow> 's \<Rightarrow> (log_error, 's) result) \<Rightarrow> wal_entry \<Rightarrow> 's \<Rightarrow> (log_error, unit) result \<times> 's" where
  "scan_step from_lsn callback e s =
     (if lsn e \<le> from_lsn then (Inr (), s)
      else case marker_outcome e of
        None \<Rightarrow> (Inr (), s)
      | Some outcome \<Rightarrow> (case callback (txn_id e) outcome s of Inl err \<Rightarrow> (Inl err, s) | Inr s' \<Rightarrow> (Inr (), s')))"

text \<open>The answers of the operating system for the spill file: whether it can be created, and which offsets it can access.\<close>

record spill_io =
  spill_created :: bool
  spill_access :: "nat \<Rightarrow> bool"

definition build_outcomes ::
  "(byte list \<Rightarrow> nat) \<Rightarrow> (byte list \<Rightarrow> byte list option) \<Rightarrow> spill_io \<Rightarrow> (string \<times> byte list) list \<Rightarrow> nat \<Rightarrow>
   wal_generation list \<Rightarrow> analysis \<Rightarrow> (log_error, recovery_outcomes) result" where
  "build_outcomes crc decompress sio files from_lsn gens a =
     (if needs_spill a then
        rbind (create_outcomes (spill_created sio) (outcome_markers a)) (\<lambda>disk.
          case each_generation crc decompress files (scan_step from_lsn (insert_outcome (spill_access sio))) gens disk of
            (Inl err, _) \<Rightarrow> Inl err
          | (Inr _, disk') \<Rightarrow> Inr (Disk disk'))
      else Inr (Memory (memory_outcomes a)))"

section \<open>Phase two\<close>

record 'c redo =
  redo_client :: 'c
  applied_count :: nat
  skipped_count :: nat

definition redo_step ::
  "(int \<Rightarrow> (log_error, byte option) result) \<Rightarrow> nat \<Rightarrow> (wal_entry \<Rightarrow> 'c \<Rightarrow> (log_error, unit) result \<times> 'c) \<Rightarrow>
   (int \<Rightarrow> 'c \<Rightarrow> (log_error, unit) result \<times> 'c) \<Rightarrow> wal_entry \<Rightarrow> 'c redo \<Rightarrow> (log_error, unit) result \<times> 'c redo" where
  "redo_step look from_lsn callback observe_uncommitted e s =
     (if lsn e \<le> from_lsn then (Inr (), s)
      else if is_abort_marker e then
        (case observe_uncommitted (txn_id e) (redo_client s) of (r, c) \<Rightarrow> (r, s\<lparr>redo_client := c\<rparr>))
      else if is_commit_marker e then
        (case look (txn_id e) of
           Inl err \<Rightarrow> (Inl err, s)
         | Inr outcome \<Rightarrow>
             if outcome = Some RECOVERY_OUTCOME_COMMITTED
             then (case callback e (redo_client s) of (r, c) \<Rightarrow> (r, s\<lparr>redo_client := c\<rparr>))
             else (Inr (), s))
      else
        (case look (txn_id e) of
           Inl err \<Rightarrow> (Inl err, s)
         | Inr outcome \<Rightarrow>
             if outcome = Some RECOVERY_OUTCOME_COMMITTED then
               (case callback e (redo_client s) of
                  (Inl err, c) \<Rightarrow> (Inl err, s\<lparr>redo_client := c\<rparr>)
                | (Inr _, c) \<Rightarrow> (Inr (), s\<lparr>redo_client := c, applied_count := applied_count s + 1\<rparr>))
             else
               (case observe_uncommitted (txn_id e) (redo_client s) of
                  (Inl err, c) \<Rightarrow> (Inl err, s\<lparr>redo_client := c\<rparr>)
                | (Inr _, c) \<Rightarrow> (Inr (), s\<lparr>redo_client := c, skipped_count := skipped_count s + 1\<rparr>))))"

record recovery_info =
  info_last_lsn :: nat
  committed_transactions :: nat
  aborted_transactions :: nat
  applied_entries :: nat
  skipped_entries :: nat
  max_transaction_id :: int

definition replay_two_phase_with_outcome_observer ::
  "(byte list \<Rightarrow> nat) \<Rightarrow> (byte list \<Rightarrow> byte list option) \<Rightarrow> nat \<Rightarrow> wal_io \<Rightarrow> spill_io \<Rightarrow> nat \<Rightarrow>
   (wal_entry \<Rightarrow> 'c \<Rightarrow> (log_error, unit) result \<times> 'c) \<Rightarrow> (int \<Rightarrow> 'c \<Rightarrow> (log_error, unit) result \<times> 'c) \<Rightarrow> wal \<Rightarrow> 'c \<Rightarrow>
   (log_error, recovery_info) result \<times> wal \<times> 'c" where
  "replay_two_phase_with_outcome_observer crc decompress limit io sio requested callback observe_uncommitted w c =
     (case flush io w of
        (Inl err, w1) \<Rightarrow> (Inl err, w1, c)
      | (Inr _, w1) \<Rightarrow>
        let from_lsn = max requested (replay_floor_lsn w1); files = dir_files (wal_dir w1) in
        case collect_validated_generations crc decompress (wal_dir w1) (replay_floor_generation w1) (replay_floor_lsn w1) of
          Inl err \<Rightarrow> (Inl err, w1, c)
        | Inr gens \<Rightarrow>
        case validate_required_generation_suffix gens from_lsn of
          Inl err \<Rightarrow> (Inl err, w1, c)
        | Inr _ \<Rightarrow>
        case each_generation crc decompress files (analysis_step limit from_lsn) gens
               \<lparr>an_wal = w1, memory_outcomes = [], outcome_markers = 0, needs_spill = False, an_last_lsn = from_lsn,
                max_transaction = transaction_high_water w1\<rparr> of
          (Inl err, a) \<Rightarrow> (Inl err, an_wal a, c)
        | (Inr _, a) \<Rightarrow>
        let w2 = (an_wal a)\<lparr>transaction_high_water := max (transaction_high_water (an_wal a)) (max_transaction a)\<rparr> in
        case build_outcomes crc decompress sio files from_lsn gens a of
          Inl err \<Rightarrow> (Inl err, w2, c)
        | Inr outcomes \<Rightarrow>
        case each_generation crc decompress files
               (redo_step (\<lambda>txn. recovery_get (spill_access sio) txn outcomes) from_lsn callback observe_uncommitted) gens
               \<lparr>redo_client = c, applied_count = 0, skipped_count = 0\<rparr> of
          (Inl err, s) \<Rightarrow> (Inl err, w2, redo_client s)
        | (Inr _, s) \<Rightarrow>
            (Inr \<lparr>info_last_lsn = an_last_lsn a, committed_transactions = fst (recovery_counts outcomes),
                  aborted_transactions = snd (recovery_counts outcomes), applied_entries = applied_count s,
                  skipped_entries = skipped_count s, max_transaction_id = max_transaction a\<rparr>,
             if an_last_lsn a > current_lsn w2 then w2\<lparr>current_lsn := an_last_lsn a\<rparr> else w2, redo_client s))"

definition replay_two_phase ::
  "(byte list \<Rightarrow> nat) \<Rightarrow> (byte list \<Rightarrow> byte list option) \<Rightarrow> nat \<Rightarrow> wal_io \<Rightarrow> spill_io \<Rightarrow> nat \<Rightarrow>
   (wal_entry \<Rightarrow> 'c \<Rightarrow> (log_error, unit) result \<times> 'c) \<Rightarrow> wal \<Rightarrow> 'c \<Rightarrow> (log_error, recovery_info) result \<times> wal \<times> 'c" where
  "replay_two_phase crc decompress limit io sio requested callback w c =
     replay_two_phase_with_outcome_observer crc decompress limit io sio requested callback (\<lambda>_ c. (Inr (), c)) w c"

section \<open>Reading a log of records\<close>

primrec run_entries ::
  "(wal_entry \<Rightarrow> 's \<Rightarrow> (log_error, unit) result \<times> 's) \<Rightarrow> wal_entry list \<Rightarrow> 's \<Rightarrow> (log_error, unit) result \<times> 's" where
  "run_entries body [] s = (Inr (), s)"
| "run_entries body (e # es) s = (case body e s of (Inl err, s') \<Rightarrow> (Inl err, s') | (Inr _, s') \<Rightarrow> run_entries body es s')"

lemma run_entries_append:
  "run_entries body (xs @ ys) s = (case run_entries body xs s of (Inl err, s') \<Rightarrow> (Inl err, s') | (Inr _, s') \<Rightarrow> run_entries body ys s')"
  by (induction xs arbitrary: s) (auto split: prod.splits sum.splits)

lemma each_entry_log:
  assumes "crc_ok crc" "lz4_ok compress decompress"
  shows "chained p es \<Longrightarrow> \<forall>e \<in> set es. writable compress e \<Longrightarrow> previous_record_lsn r = None \<or> previous_record_lsn r = Some p \<Longrightarrow>
    rd_rest r = log_bytes crc compress es \<Longrightarrow> rd_offset r + length (rd_rest r) \<le> u64_max \<Longrightarrow>
    each_entry crc decompress body r s = run_entries body (map (stored_entry compress) es) s"
proof (induction es arbitrary: p r s)
  case Nil
  then show ?case by (simp add: each_entry.simps [of _ _ _ r] next_entry_def)
next
  case (Cons e es)
  let ?b = "record_bytes crc compress e"
  let ?r = "r\<lparr>rd_rest := log_bytes crc compress es, rd_offset := rd_offset r + length ?b,
             previous_record_lsn := Some (lsn e)\<rparr>"
  have n: "next_entry crc decompress r = Inr (Some (stored_entry compress e, ?r))"
    by (rule next_entry_record [OF _ assms]) (use Cons.prems in auto)
  have IH: "each_entry crc decompress body ?r s' = run_entries body (map (stored_entry compress) es) s'" for s'
    by (rule Cons.IH [of "lsn e"]) (use Cons.prems in auto)
  show ?case unfolding each_entry.simps [of _ _ _ r] n by (simp add: IH split: prod.splits sum.splits)
qed

lemma each_generation_logs:
  assumes "crc_ok crc" "lz4_ok compress decompress"
  shows "chained p (concat logs) \<Longrightarrow> \<forall>es \<in> set logs. log_ok crc compress es \<Longrightarrow>
    \<forall>i < length logs. map_of files (canonical_filename (g + i)) = Some (log_bytes crc compress (logs ! i)) \<Longrightarrow>
    each_generation crc decompress files body (generations_of crc compress g p logs) s =
      run_entries body (map (stored_entry compress) (concat logs)) s"
proof (induction logs arbitrary: g p s)
  case (Cons es logs)
  have f: "map_of files (canonical_filename g) = Some (log_bytes crc compress es)" using Cons.prems(3) by force
  have "map_of files (canonical_filename (Suc g + i)) = Some (log_bytes crc compress (logs ! i))" if "i < length logs" for i
    using Cons.prems(3) [rule_format, of "Suc i"] that by simp
  then have IH: "each_generation crc decompress files body (generations_of crc compress (Suc g) (last_lsn p es) logs) s' =
      run_entries body (map (stored_entry compress) (concat logs)) s'" for s'
    by (intro Cons.IH) (use Cons.prems in simp_all)
  have "each_entry crc decompress body (reader_open (log_bytes crc compress es)) s =
      run_entries body (map (stored_entry compress) es) s"
    by (rule each_entry_log [OF assms, of p]) (use Cons.prems in \<open>simp_all add: reader_open_def log_ok_def\<close>)
  then show ?case using f IH by (simp add: run_entries_append split: prod.splits sum.splits)
qed simp

lemma covering_suffix:
  "logs \<noteq> [] \<Longrightarrow> p \<le> from_lsn \<Longrightarrow> from_lsn \<le> last_lsn p (concat logs) \<Longrightarrow>
   \<exists>first rest. dropWhile (\<lambda>g. \<not> from_lsn \<le> gen_end_lsn g) (generations_of crc compress g p logs) = first # rest \<and>
     gen_start_lsn first \<le> from_lsn \<and> connected_generations (first # rest) = Inr ()"
proof (induction logs arbitrary: g p)
  case (Cons es logs)
  show ?case
  proof (cases "from_lsn \<le> last_lsn p es")
    case True
    then show ?thesis using Cons.prems(2) connected_generations_of [of crc compress g p "es # logs"] by simp
  next
    case False
    then have "logs \<noteq> []" using Cons.prems(3) by auto
    then show ?thesis using Cons.IH [of "last_lsn p es" "Suc g"] Cons.prems False by simp
  qed
qed simp

text \<open>What a replay of a log reads: the entries of the generations from the floor on.\<close>

lemma replay_reads:
  assumes "wal_inv crc compress p ls es w" "crc_ok crc" "lz4_ok compress decompress" "buffer w = []"
  obtains logs q old where "concat ls @ es = old @ concat logs" "\<forall>e \<in> set old. lsn e \<le> q" "replay_floor_lsn w = q" "q \<le> current_lsn w"
    "chained q (concat logs)" "last_lsn q (concat logs) = current_lsn w" "\<forall>l \<in> set logs. log_ok crc compress l" "logs \<noteq> []"
    "\<forall>i < length logs. map_of (dir_files (wal_dir w)) (canonical_filename (replay_floor_generation w + i)) = Some (log_bytes crc compress (logs ! i))"
    "collect_validated_generations crc decompress (wal_dir w) (replay_floor_generation w) q =
       Inr (generations_of crc compress (replay_floor_generation w) q logs)"
proof -
  note i = assms(1) [unfolded wal_inv_def] and d = wal_invD [OF assms(1)]
  from i obtain j where j: "j \<le> length ls" "replay_floor w = (first_generation w + j, last_lsn p (concat (take j ls)))"
    unfolding floor_ok_def by blast
  from i obtain orphan where o: "orphan \<in> {[], [[]]}"
    "dir_files_from (first_generation w) (map (log_bytes crc compress) ls @ file_bytes w # orphan) (wal_dir w)" by blast
  define q logs where "q = last_lsn p (concat (take j ls))" and "logs = drop j ls @ es # (if orphan = [] then [] else [[]])"
  have spl: "concat ls = concat (take j ls) @ concat (drop j ls)" by (metis append_take_drop_id concat_append)
  have c: "concat logs = concat (drop j ls) @ es" by (simp add: logs_def)
  have ch: "chained p (concat (take j ls) @ concat logs)" "last_lsn p (concat (take j ls) @ concat logs) = current_lsn w"
    using i spl c by simp_all
  have fb: "file_bytes w = log_bytes crc compress es" using i assms(4) by simp
  have dir: "dir_files_from (first_generation w + j) (map (log_bytes crc compress) logs @ []) (wal_dir w)"
    using dir_files_from_drop [OF o(2), of j] o(1) j(1) fb by (auto simp: logs_def drop_map)
  have lo: "\<forall>l \<in> set logs. log_ok crc compress l" using i by (auto simp: logs_def dest: in_set_dropD)
  have ch': "chained q (concat logs)" "last_lsn q (concat logs) = current_lsn w" using ch by (simp_all add: q_def)
  have fl: "replay_floor_generation w = first_generation w + j" "replay_floor_lsn w = q"
    by (simp_all add: replay_floor_generation_def replay_floor_lsn_def j(2) q_def)
  show thesis
  proof (rule that)
    show "concat ls @ es = concat (take j ls) @ concat logs" using spl c by simp
    show "\<forall>e \<in> set (concat (take j ls)). lsn e \<le> q" using ch(1) chained_le [of p "concat (take j ls)"] by (simp add: q_def)
    show "q \<le> current_lsn w" using ch' chained_le [of q "concat logs"] by simp
    show "collect_validated_generations crc decompress (wal_dir w) (replay_floor_generation w) q =
       Inr (generations_of crc compress (replay_floor_generation w) q logs)"
      using collect_generations [OF assms(2,3) ch'(1) lo dir] fl by simp
    show "\<forall>i < length logs. map_of (dir_files (wal_dir w)) (canonical_filename (replay_floor_generation w + i)) = Some (log_bytes crc compress (logs ! i))"
      using dir fl by (auto simp: dir_files_from_def)
  qed (use fl ch' lo in \<open>simp_all add: logs_def\<close>)
qed

section \<open>The analysis is exact\<close>

definition markers :: "nat \<Rightarrow> wal_entry list \<Rightarrow> (int \<times> byte) list" where
  "markers from_lsn es =
     List.map_filter (\<lambda>e. if lsn e \<le> from_lsn then None else map_option (Pair (txn_id e)) (marker_outcome e)) es"

abbreviation record_all :: "(int \<times> byte) list \<Rightarrow> (int \<rightharpoonup> byte) \<Rightarrow> (log_error, int \<rightharpoonup> byte) result" where
  "record_all \<equiv> fold_res (\<lambda>(t, outcome). put_spec t outcome)"

definition seen :: "nat \<Rightarrow> wal_entry \<Rightarrow> analysis \<Rightarrow> analysis" where
  "seen from_lsn e a =
     a\<lparr>max_transaction := max (max_transaction a) (txn_id e),
       an_wal := snd (observe_persisted_timestamp (timestamp e) (an_wal a)),
       an_last_lsn := (if lsn e \<le> from_lsn then an_last_lsn a else max (an_last_lsn a) (lsn e))\<rparr>"

lemma markers_Cons:
  "markers from_lsn (e # es) =
     (if lsn e \<le> from_lsn then [] else case marker_outcome e of None \<Rightarrow> [] | Some q \<Rightarrow> [(txn_id e, q)]) @ markers from_lsn es"
  by (simp add: markers_def map_filter_simps split: option.splits)

lemma markers_Nil [simp]: "markers from_lsn [] = []"
  by (simp add: markers_def map_filter_simps)

lemma analysis_step_seen:
  assumes "admissible e" "outcome_markers a < u64_max"
  shows "analysis_step limit from_lsn e a =
    (case markers from_lsn [e] of
       [] \<Rightarrow> (Inr (), seen from_lsn e a)
     | (t, q) # _ \<Rightarrow>
         let b = (seen from_lsn e a)\<lparr>outcome_markers := outcome_markers a + 1\<rparr> in
         if needs_spill a then (Inr (), b) else note_outcome limit t q b)"
proof -
  obtain ok w where o: "observe_persisted_timestamp (timestamp e) (an_wal a) = (ok, w)" by (rule prod.exhaust)
  have "ok" using assms(1) o by (auto simp: admissible_def observe_persisted_timestamp_def split: if_splits)
  then have s: "observe_persisted_timestamp (timestamp e) (an_wal a) = (True, w)" using o by simp
  have m: "max (max_transaction a) (txn_id e) = (if txn_id e > max_transaction a then txn_id e else max_transaction a)" by simp
  have c: "checked_add_u64 (outcome_markers a) 1 = Some (outcome_markers a + 1)" using assms(2) by simp
  show ?thesis
    using assms(1) s c
    by (auto simp: analysis_step_def admissible_def seen_def markers_Cons m Let_def split: option.splits simp del: checked_add_u64_Some)
qed

lemma seen_fields [simp]:
  "memory_outcomes (seen from_lsn e a) = memory_outcomes a" "needs_spill (seen from_lsn e a) = needs_spill a"
  "outcome_markers (seen from_lsn e a) = outcome_markers a"
  by (simp_all add: seen_def)

lemma marker_outcome_values: "marker_outcome e = Some q \<Longrightarrow> q \<in> {1, 2}"
  by (auto simp: marker_outcome_def RECOVERY_OUTCOME_COMMITTED_def RECOVERY_OUTCOME_ABORTED_def split: if_splits)

definition timestamp_only :: "wal \<Rightarrow> wal \<Rightarrow> bool" where
  "timestamp_only w w' \<longleftrightarrow> w' = w\<lparr>last_timestamp := last_timestamp w'\<rparr>"

lemma timestamp_only_refl [simp]: "timestamp_only w w"
  by (simp add: timestamp_only_def)

lemma timestamp_only_trans: "timestamp_only w w1 \<Longrightarrow> timestamp_only w1 w2 \<Longrightarrow> timestamp_only w w2"
proof -
  assume a: "timestamp_only w w1" "timestamp_only w1 w2"
  have "w2 = w1\<lparr>last_timestamp := last_timestamp w2\<rparr>" using a(2) unfolding timestamp_only_def .
  also have "\<dots> = w\<lparr>last_timestamp := last_timestamp w2\<rparr>"
    by (subst a(1) [unfolded timestamp_only_def]) simp
  finally show ?thesis unfolding timestamp_only_def .
qed

lemma observe_timestamp_only: "timestamp_only w (snd (observe_persisted_timestamp t w))"
  by (auto simp: timestamp_only_def observe_persisted_timestamp_def)


lemma note_outcome_cases:
  assumes "memory_rel (memory_outcomes a) m" "q \<in> {1, 2}"
  shows "(\<exists>err. put_spec t q m = Inl err \<and> note_outcome limit t q a = (Inl err, a)) \<or>
    (\<exists>m' xs. put_spec t q m = Inr m' \<and> memory_rel xs m' \<and>
       note_outcome limit t q a = (Inr (), if length xs > limit then a\<lparr>needs_spill := True, memory_outcomes := []\<rparr> else a\<lparr>memory_outcomes := xs\<rparr>))"
proof (cases "m t")
  case None
  let ?xs = "(t, q) # memory_outcomes a"
  have m: "map_of (memory_outcomes a) t = None" "put_spec t q m = Inr (m(t \<mapsto> q))"
    using None assms(1) by (simp_all add: put_spec_def memory_rel_def)
  have "memory_rel ?xs (m(t \<mapsto> q))" using assms None by (auto simp: memory_rel_def map_of_eq_None_iff)
  moreover have "note_outcome limit t q a =
      (Inr (), if length ?xs > limit then a\<lparr>needs_spill := True, memory_outcomes := []\<rparr> else a\<lparr>memory_outcomes := ?xs\<rparr>)"
    unfolding note_outcome_def memory_insert_def m(1) option.case sum.case by simp
  ultimately show ?thesis using m(2) by blast
next
  case (Some stored)
  then have m: "map_of (memory_outcomes a) t = Some stored" using assms(1) by (simp add: memory_rel_def)
  show ?thesis
  proof (cases "stored = q")
    case True
    have "note_outcome limit t q a = (Inr (), if length (memory_outcomes a) > limit
        then a\<lparr>needs_spill := True, memory_outcomes := []\<rparr> else a\<lparr>memory_outcomes := memory_outcomes a\<rparr>)"
      unfolding note_outcome_def memory_insert_def m option.case using True by simp
    then show ?thesis using Some True assms(1) by (auto simp: put_spec_def)
  next
    case False
    then show ?thesis using Some m by (simp add: put_spec_def note_outcome_def memory_insert_def)
  qed
qed

text \<open>
  While no spill is needed, the map in memory holds the outcomes of the markers read so far, and a conflict stops the
  scan where it first appears; after that only the number of markers matters.
\<close>

lemma analysis_run:
  "\<forall>e \<in> set es. admissible e \<Longrightarrow> outcome_markers a + length es \<le> u64_max \<Longrightarrow>
   needs_spill a \<or> memory_rel (memory_outcomes a) m \<Longrightarrow> run_entries (analysis_step limit from_lsn) es a = (r, a') \<Longrightarrow>
   timestamp_only (an_wal a) (an_wal a') \<and>
   (case r of
      Inl err \<Rightarrow> \<not> needs_spill a \<and> record_all (markers from_lsn es) m = Inl err
    | Inr _ \<Rightarrow> outcome_markers a' = outcome_markers a + length (markers from_lsn es) \<and>
        an_last_lsn a' = fold max (map lsn (filter (\<lambda>e. from_lsn < lsn e) es)) (an_last_lsn a) \<and>
        max_transaction a' = fold max (map txn_id es) (max_transaction a) \<and>
        (needs_spill a' \<or>
         \<not> needs_spill a \<and> (\<exists>m'. record_all (markers from_lsn es) m = Inr m' \<and> memory_rel (memory_outcomes a') m')))"
proof (induction es arbitrary: a m)
  case Nil
  then show ?case by auto
next
  case (Cons e es)
  let ?s = "seen from_lsn e a"
  have ts: "timestamp_only (an_wal a) (an_wal ?s)" using observe_timestamp_only by (simp add: seen_def)
  note ts = ts timestamp_only_trans [OF ts]
  have sl: "an_last_lsn ?s = fold max (map lsn (filter (\<lambda>e. from_lsn < lsn e) [e])) (an_last_lsn a)"
    "max_transaction ?s = max (txn_id e) (max_transaction a)" by (simp_all add: seen_def max.commute)
  have step: "analysis_step limit from_lsn e a = (case markers from_lsn [e] of [] \<Rightarrow> (Inr (), ?s)
     | (t, q) # _ \<Rightarrow> let b = ?s\<lparr>outcome_markers := outcome_markers a + 1\<rparr> in
         if needs_spill a then (Inr (), b) else note_outcome limit t q b)"
    by (rule analysis_step_seen) (use Cons.prems(1,2) in auto)
  have adm: "\<forall>e \<in> set es. admissible e" using Cons.prems(1) by simp
  have mk: "markers from_lsn (e # es) = markers from_lsn [e] @ markers from_lsn es" by (simp add: markers_Cons)
  show ?case
  proof (cases "markers from_lsn [e]")
    case Nil
    then have s: "analysis_step limit from_lsn e a = (Inr (), ?s)" using step by simp
    then have "run_entries (analysis_step limit from_lsn) es ?s = (r, a')" using Cons.prems(4) by simp
    from Cons.IH [OF adm _ _ this, of m] Cons.prems(2,3)
    show ?thesis using ts sl mk Nil by (auto split: sum.splits)
  next
    case x: (Cons x xs)
    then obtain q where q: "markers from_lsn [e] = [(txn_id e, q)]" "q \<in> {1, 2}" "from_lsn < lsn e"
      using marker_outcome_values [of e] by (auto simp: markers_Cons split: if_splits option.splits)
    let ?b = "?s\<lparr>outcome_markers := outcome_markers a + 1\<rparr>"
    have rest: "timestamp_only (an_wal a) (an_wal a') \<and>
       (case r of
          Inl err \<Rightarrow> \<not> needs_spill c \<and> record_all (markers from_lsn es) m' = Inl err
        | Inr _ \<Rightarrow> outcome_markers a' = outcome_markers a + length (markers from_lsn (e # es)) \<and>
            an_last_lsn a' = fold max (map lsn (filter (\<lambda>e. from_lsn < lsn e) (e # es))) (an_last_lsn a) \<and>
            max_transaction a' = fold max (map txn_id (e # es)) (max_transaction a) \<and>
            (needs_spill a' \<or>
             \<not> needs_spill c \<and> (\<exists>m''. record_all (markers from_lsn es) m' = Inr m'' \<and> memory_rel (memory_outcomes a') m'')))"
      if c: "an_wal c = an_wal ?s" "outcome_markers c = outcome_markers a + 1" "an_last_lsn c = an_last_lsn ?s"
        "max_transaction c = max_transaction ?s" "needs_spill c \<or> memory_rel (memory_outcomes c) m'"
        "analysis_step limit from_lsn e a = (Inr (), c)" for c m'
    proof -
      have "run_entries (analysis_step limit from_lsn) es c = (r, a')" using Cons.prems(4) c(6) by simp
      from Cons.IH [OF adm _ c(5) this] Cons.prems(2) c(2)
      show ?thesis unfolding mk q(1) using ts sl c q(3) by (cases r) (auto simp: max.commute)
    qed
    show ?thesis
    proof (cases "needs_spill a")
      case True
      then have "analysis_step limit from_lsn e a = (Inr (), ?b)" using step q(1) by simp
      from rest [OF _ _ _ _ _ this, of m] True show ?thesis by (cases r) simp_all
    next
      case False
      then have st: "analysis_step limit from_lsn e a = note_outcome limit (txn_id e) q ?b" using step q(1) by simp
      have mr: "memory_rel (memory_outcomes ?b) m" using Cons.prems(3) False by simp
      from note_outcome_cases [OF mr q(2), of "txn_id e" limit] show ?thesis
      proof (elim disjE exE conjE)
        fix err assume "put_spec (txn_id e) q m = Inl err" "note_outcome limit (txn_id e) q ?b = (Inl err, ?b)"
        then show ?thesis using Cons.prems(4) st False ts unfolding mk q(1) by auto
      next
        fix m' xs assume n: "put_spec (txn_id e) q m = Inr m'" "memory_rel xs m'"
          "note_outcome limit (txn_id e) q ?b =
             (Inr (), if limit < length xs then ?b\<lparr>needs_spill := True, memory_outcomes := []\<rparr> else ?b\<lparr>memory_outcomes := xs\<rparr>)"
        have ra: "record_all (markers from_lsn (e # es)) m = record_all (markers from_lsn es) m'" unfolding mk q(1) using n(1) by simp
        show ?thesis
        proof (cases "limit < length xs")
          case True
          then have "analysis_step limit from_lsn e a = (Inr (), ?b\<lparr>needs_spill := True, memory_outcomes := []\<rparr>)" using st n(3) by simp
          from rest [OF _ _ _ _ _ this, of m'] show ?thesis unfolding ra by (cases r) simp_all
        next
          case False
          then have "analysis_step limit from_lsn e a = (Inr (), ?b\<lparr>memory_outcomes := xs\<rparr>)" using st n(3) by simp
          from rest [OF _ _ _ _ _ this, of m'] n(2) \<open>\<not> needs_spill a\<close> show ?thesis unfolding ra by (cases r) simp_all
        qed
      qed
    qed
  qed
qed

section \<open>Outcomes of the markers\<close>

lemma markers_mem:
  "(t, q) \<in> set (markers from_lsn es) \<longleftrightarrow> (\<exists>e \<in> set es. from_lsn < lsn e \<and> txn_id e = t \<and> marker_outcome e = Some q)"
  by (induction es) (auto simp: markers_Cons split: option.splits)

lemma markers_values: "(t, q) \<in> set (markers from_lsn es) \<Longrightarrow> q \<in> {1, 2}"
  using marker_outcome_values by (auto simp: markers_mem)

lemma length_markers: "length (markers from_lsn es) \<le> length es"
  by (induction es) (auto simp: markers_Cons split: option.splits)

lemma record_all_mono: "record_all ms m = Inr m' \<Longrightarrow> m t = Some q \<Longrightarrow> m' t = Some q"
proof (induction ms arbitrary: m)
  case (Cons x ms)
  obtain u r where x: "x = (u, r)" by (rule prod.exhaust)
  from Cons.prems(1) obtain m1 where m1: "put_spec u r m = Inr m1" "record_all ms m1 = Inr m'" by (auto simp: x)
  have "m1 t = Some q" using m1(1) Cons.prems(2) by (auto simp: put_spec_def split: option.splits if_splits)
  then show ?case by (rule Cons.IH [OF m1(2)])
qed simp

lemma record_all_keeps:
  "record_all ms m = Inr m' \<Longrightarrow> (m t = Some q \<longrightarrow> m' t = Some q) \<and> ((t, q) \<in> set ms \<longrightarrow> m' t = Some q) \<and>
     (m' t = Some q \<longrightarrow> m t = Some q \<or> (t, q) \<in> set ms)"
proof (induction ms arbitrary: m)
  case (Cons x ms)
  obtain u r where x: "x = (u, r)" by (rule prod.exhaust)
  from Cons.prems obtain m1 where m1: "put_spec u r m = Inr m1" "record_all ms m1 = Inr m'" by (auto simp: x)
  have k: "m t = Some q \<longrightarrow> m1 t = Some q" "m1 u = Some r" "m1 t = Some q \<longrightarrow> m t = Some q \<or> (t, q) = (u, r)"
    using m1(1) by (auto simp: put_spec_def split: option.splits if_splits)
  have "m' u = Some r" using record_all_mono [OF m1(2)] k(2) by blast
  then show ?case using Cons.IH [OF m1(2)] k unfolding x list.set insert_iff prod.inject by blast
qed simp

lemma record_all_empty:
  assumes "record_all ms Map.empty = Inr m"
  shows "m t = Some q \<longleftrightarrow> (t, q) \<in> set ms"
  using record_all_keeps [OF assms, where t = t and q = q] by auto

lemma record_all_Inl:
  "record_all ms m = Inl err \<Longrightarrow> \<exists>t q r. err = BothOutcomes t \<and> q \<noteq> r \<and> (t, q) \<in> set ms \<and> (m t = Some r \<or> (t, r) \<in> set ms)"
proof (induction ms arbitrary: m)
  case (Cons x ms)
  obtain u r where x: "x = (u, r)" by (rule prod.exhaust)
  show ?case
  proof (cases "put_spec u r m")
    case (Inl e)
    then obtain q where "e = BothOutcomes u" "m u = Some q" "q \<noteq> r" by (auto simp: put_spec_def split: option.splits if_splits)
    then show ?thesis using Cons.prems Inl by (intro exI [of _ u] exI [of _ r] exI [of _ q]) (auto simp: x)
  next
    case (Inr m1)
    then have "m1 t = Some q \<longrightarrow> m t = Some q \<or> (t, q) = (u, r)" for t q
      by (auto simp: put_spec_def split: option.splits if_splits)
    moreover obtain t q s where "err = BothOutcomes t" "q \<noteq> s" "(t, q) \<in> set ms" "m1 t = Some s \<or> (t, s) \<in> set ms"
      using Cons.IH [of m1] Cons.prems Inr by (auto simp: x)
    ultimately show ?thesis unfolding x by (metis list.set_intros(1,2))
  qed
qed simp

text \<open>No transaction has both outcomes among the entries.\<close>

definition consistent_outcomes :: "wal_entry list \<Rightarrow> bool" where
  "consistent_outcomes es \<longleftrightarrow> (\<forall>e \<in> set es. \<forall>f \<in> set es. txn_id e = txn_id f \<longrightarrow>
     marker_outcome e = None \<or> marker_outcome f = None \<or> marker_outcome e = marker_outcome f)"

lemma record_all_consistent:
  "(\<exists>m. record_all (markers from_lsn es) Map.empty = Inr m) \<longleftrightarrow> consistent_outcomes (filter (\<lambda>e. from_lsn < lsn e) es)"
proof
  assume "\<exists>m. record_all (markers from_lsn es) Map.empty = Inr m"
  then obtain m where m: "record_all (markers from_lsn es) Map.empty = Inr m" by blast
  have "m (txn_id e) = Some q" if "e \<in> set es" "from_lsn < lsn e" "marker_outcome e = Some q" for e q
    using record_all_empty [OF m, of "txn_id e" q] that by (auto simp: markers_mem)
  then show "consistent_outcomes (filter (\<lambda>e. from_lsn < lsn e) es)"
    unfolding consistent_outcomes_def by simp (metis not_Some_eq option.inject)
next
  assume c: "consistent_outcomes (filter (\<lambda>e. from_lsn < lsn e) es)"
  show "\<exists>m. record_all (markers from_lsn es) Map.empty = Inr m"
  proof (cases "record_all (markers from_lsn es) Map.empty")
    case (Inl err)
    then obtain t q r where "q \<noteq> r" "(t, q) \<in> set (markers from_lsn es)" "(t, r) \<in> set (markers from_lsn es)"
      using record_all_Inl [OF Inl] by auto
    then show ?thesis using c by (fastforce simp: markers_mem consistent_outcomes_def)
  qed blast
qed

section \<open>Spilling and redoing\<close>

lemma scan_run:
  "case fold_res (\<lambda>(t, q). f t q) (markers from_lsn es) s of
     Inl err \<Rightarrow> \<exists>s'. run_entries (scan_step from_lsn f) es s = (Inl err, s')
   | Inr s' \<Rightarrow> run_entries (scan_step from_lsn f) es s = (Inr (), s')"
proof (induction es arbitrary: s)
  case (Cons e es)
  show ?case
  proof (cases "markers from_lsn [e]")
    case Nil
    then have "run_entries (scan_step from_lsn f) (e # es) s = run_entries (scan_step from_lsn f) es s"
      "markers from_lsn (e # es) = markers from_lsn es"
      by (auto simp: markers_Cons scan_step_def split: if_splits option.splits)
    then show ?thesis using Cons.IH [of s] by (simp only:)
  next
    case x: (Cons x xs)
    then obtain q where q: "markers from_lsn (e # es) = (txn_id e, q) # markers from_lsn es" "from_lsn < lsn e" "marker_outcome e = Some q"
      by (auto simp: markers_Cons split: if_splits option.splits)
    show ?thesis
    proof (cases "f (txn_id e) q s")
      case (Inl err)
      then show ?thesis using q by (simp add: scan_step_def)
    next
      case (Inr s')
      then have "run_entries (scan_step from_lsn f) (e # es) s = run_entries (scan_step from_lsn f) es s'"
        "fold_res (\<lambda>(t, q). f t q) (markers from_lsn (e # es)) s = fold_res (\<lambda>(t, q). f t q) (markers from_lsn es) s'"
        using q by (simp_all add: scan_step_def)
      then show ?thesis using Cons.IH [of s'] by (simp only:)
    qed
  qed
qed simp

definition redo_entry ::
  "(int \<Rightarrow> bool) \<Rightarrow> (wal_entry \<Rightarrow> 'c \<Rightarrow> (log_error, unit) result \<times> 'c) \<Rightarrow> (int \<Rightarrow> 'c \<Rightarrow> (log_error, unit) result \<times> 'c) \<Rightarrow>
   wal_entry \<Rightarrow> 'c \<Rightarrow> (log_error, unit) result \<times> 'c" where
  "redo_entry committed callback observe e c =
     (if is_abort_marker e then observe (txn_id e) c
      else if committed (txn_id e) then callback e c
      else if is_commit_marker e then (Inr (), c)
      else observe (txn_id e) c)"

definition is_data :: "wal_entry \<Rightarrow> bool" where
  "is_data e \<longleftrightarrow> \<not> is_abort_marker e \<and> \<not> is_commit_marker e"

lemma redo_step_entry:
  assumes "\<And>t. look t = Inr (m t)" "redo_entry (\<lambda>t. m t = Some 1) cb ob e (redo_client s) = (r, c)" "from_lsn < lsn e"
  shows "\<exists>s'. redo_step look from_lsn cb ob e s = (r, s') \<and> redo_client s' = c \<and>
    (\<forall>u. r = Inr u \<longrightarrow> applied_count s' = applied_count s + (if is_data e \<and> m (txn_id e) = Some 1 then 1 else 0) \<and>
       skipped_count s' = skipped_count s + (if is_data e \<and> \<not> m (txn_id e) = Some 1 then 1 else 0))"
proof -
  have f: "\<not> lsn e \<le> from_lsn" using assms(3) by simp
  consider "is_abort_marker e" | "\<not> is_abort_marker e" "is_commit_marker e" | "is_data e" by (auto simp: is_data_def)
  then show ?thesis
  proof cases
    case 1
    then show ?thesis using assms(2) f by (simp add: redo_entry_def redo_step_def is_data_def)
  next
    case 2
    then show ?thesis using assms(2) f
      by (simp add: redo_entry_def redo_step_def is_data_def assms(1) RECOVERY_OUTCOME_COMMITTED_def split: if_splits)
  next
    case 3
    then have n: "\<not> is_abort_marker e" "\<not> is_commit_marker e" by (simp_all add: is_data_def)
    show ?thesis
    proof (cases "m (txn_id e) = Some 1")
      case True
      then have "cb e (redo_client s) = (r, c)" using assms(2) n by (simp add: redo_entry_def)
      then show ?thesis using n f True 3 by (cases r) (simp_all add: redo_step_def assms(1) RECOVERY_OUTCOME_COMMITTED_def)
    next
      case False
      then have "ob (txn_id e) (redo_client s) = (r, c)" using assms(2) n by (simp add: redo_entry_def)
      then show ?thesis using n f False 3 by (cases r) (simp_all add: redo_step_def assms(1) RECOVERY_OUTCOME_COMMITTED_def)
    qed
  qed
qed

lemma redo_run:
  fixes m :: "int \<rightharpoonup> byte"
  defines "com \<equiv> \<lambda>t. m t = Some 1"
  assumes look: "\<And>t. look t = Inr (m t)"
  shows "run_entries (redo_entry com cb ob) (filter (\<lambda>e. from_lsn < lsn e) es) (redo_client s) = (r, c) \<Longrightarrow>
    \<exists>s'. run_entries (redo_step look from_lsn cb ob) es s = (r, s') \<and> redo_client s' = c \<and>
      (\<forall>u. r = Inr u \<longrightarrow>
        applied_count s' = applied_count s + length (filter (\<lambda>e. from_lsn < lsn e \<and> is_data e \<and> com (txn_id e)) es) \<and>
        skipped_count s' = skipped_count s + length (filter (\<lambda>e. from_lsn < lsn e \<and> is_data e \<and> \<not> com (txn_id e)) es))"
proof (induction es arbitrary: s)
  case (Cons e es)
  show ?case
  proof (cases "lsn e \<le> from_lsn")
    case True
    then show ?thesis using Cons by (simp add: redo_step_def)
  next
    case False
    then have lt: "from_lsn < lsn e" by simp
    obtain r1 c1 where r1: "redo_entry com cb ob e (redo_client s) = (r1, c1)" by (rule prod.exhaust)
    obtain s1 where s1: "redo_step look from_lsn cb ob e s = (r1, s1)" "redo_client s1 = c1"
      "\<forall>u. r1 = Inr u \<longrightarrow> applied_count s1 = applied_count s + (if is_data e \<and> com (txn_id e) then 1 else 0) \<and>
           skipped_count s1 = skipped_count s + (if is_data e \<and> \<not> com (txn_id e) then 1 else 0)"
      using redo_step_entry [OF look r1 [unfolded com_def] lt] unfolding com_def by blast
    show ?thesis
    proof (cases r1)
      case (Inl err)
      then have "r = Inl err" "c = c1" using Cons.prems r1 lt by simp_all
      then show ?thesis using s1 Inl by simp
    next
      case (Inr u)
      then have "run_entries (redo_entry com cb ob) (filter (\<lambda>e. from_lsn < lsn e) es) (redo_client s1) = (r, c)"
        using Cons.prems r1 s1(2) lt by simp
      from Cons.IH [OF this] obtain s' where s': "run_entries (redo_step look from_lsn cb ob) es s1 = (r, s')" "redo_client s' = c"
        "\<forall>u. r = Inr u \<longrightarrow>
        applied_count s' = applied_count s1 + length (filter (\<lambda>e. from_lsn < lsn e \<and> is_data e \<and> com (txn_id e)) es) \<and>
        skipped_count s' = skipped_count s1 + length (filter (\<lambda>e. from_lsn < lsn e \<and> is_data e \<and> \<not> com (txn_id e)) es)" by blast
      have "run_entries (redo_step look from_lsn cb ob) (e # es) s = (r, s')" using s1(1) s'(1) Inr by simp
      then show ?thesis using s1(3) s'(2,3) Inr lt by (intro exI [of _ s']) (simp add: ac_simps)
    qed
  qed
qed simp

section \<open>Replay\<close>

lemma timestamp_only_fields:
  assumes "timestamp_only w w'"
  shows "transaction_high_water w' = transaction_high_water w" "current_lsn w' = current_lsn w"
  by (subst assms [unfolded timestamp_only_def], simp)+

lemma create_outcomes_small:
  assumes "n < 2 ^ 58"
  shows "\<exists>d. create_outcomes True n = Inr d"
proof -
  have "pow2_above p m \<le> max p (2 * m)" if "0 < p" for p m :: nat
    using that by (induction p m rule: pow2_above.induct) (subst pow2_above.simps, auto)
  from this [of 1 "2 * n + 1"] have "next_power_of_two (2 * n + 1) < 2 ^ 60" using assms by (simp add: next_power_of_two_def)
  moreover from this have "max (next_power_of_two (2 * n + 1)) 16 * 16 \<le> u64_max" by (simp add: max_def)
  ultimately show ?thesis using assms
    by (simp add: create_outcomes_def index_capacity_def checked_mul_u64_def checked_add_u64_def RECOVERY_OUTCOME_SLOT_SIZE_def mult.commute)
qed

definition spill_works :: "spill_io \<Rightarrow> bool" where
  "spill_works sio \<longleftrightarrow> spill_created sio \<and> spill_access sio = (\<lambda>_. True)"

lemma build_outcomes_exact:
  assumes "\<And>body s. each_generation crc decompress files (body :: wal_entry \<Rightarrow> disk_outcomes \<Rightarrow> (log_error, unit) result \<times> disk_outcomes) gens s =
      run_entries body es s"
    and "spill_works sio" "\<forall>e \<in> set es. in_i64 (txn_id e)" "length es < 2 ^ 58" "outcome_markers a = length (markers from_lsn es)"
    and "needs_spill a \<or> (\<exists>m. record_all (markers from_lsn es) Map.empty = Inr m \<and> memory_rel (memory_outcomes a) m)"
  shows "case record_all (markers from_lsn es) Map.empty of
      Inl err \<Rightarrow> build_outcomes crc decompress sio files from_lsn gens a = Inl err
    | Inr m \<Rightarrow> \<exists>outcomes. build_outcomes crc decompress sio files from_lsn gens a = Inr outcomes \<and>
        (\<forall>t. recovery_get (spill_access sio) t outcomes = Inr (m t)) \<and>
        recovery_counts outcomes = (outcome_count 1 m, outcome_count 2 m)"
proof (cases "needs_spill a")
  case False
  then obtain m where m: "record_all (markers from_lsn es) Map.empty = Inr m" "memory_rel (memory_outcomes a) m"
    using assms(6) by blast
  then show ?thesis
    using False recovery_counts_memory [OF m(2)] memory.look_rel [OF m(2)] by (simp add: build_outcomes_def)
next
  case True
  let ?ms = "markers from_lsn es" let ?ins = "insert_outcome (\<lambda>_. True)"
  have sp: "spill_created sio" "spill_access sio = (\<lambda>_. True)" using assms(2) by (simp_all add: spill_works_def)
  obtain d0 where d0: "create_outcomes True (length ?ms) = Inr d0"
    using create_outcomes_small [of "length ?ms"] length_markers [of from_lsn es] assms(4) by auto
  note c = create_outcomes_rel [OF d0]
  have v: "\<forall>(t, q) \<in> set ?ms. in_i64 t \<and> q \<in> {1, 2}" using assms(3) by (auto simp: markers_mem dest!: marker_outcome_values)
  have b: "build_outcomes crc decompress sio files from_lsn gens a =
      (case run_entries (scan_step from_lsn ?ins) es d0 of (Inl err, _) \<Rightarrow> Inl err | (Inr _, disk) \<Rightarrow> Inr (Disk disk))"
    using True d0 sp by (simp add: build_outcomes_def assms(1,5))
  have p: "case record_all ?ms Map.empty of
      Inl e \<Rightarrow> fold_res (\<lambda>(t, q). ?ins t q) ?ms d0 = Inl e
    | Inr m \<Rightarrow> \<exists>d. fold_res (\<lambda>(t, q). ?ins t q) ?ms d0 = Inr d \<and> disk_rel d m"
    by (rule disk.put_all [OF c(1) v]) (use c(2) in simp)
  show ?thesis
  proof (cases "record_all ?ms Map.empty")
    case (Inl err)
    then show ?thesis using p b scan_run [where f = ?ins and from_lsn = from_lsn and es = es and s = d0] by auto
  next
    case (Inr m)
    then obtain d where d: "fold_res (\<lambda>(t, q). ?ins t q) ?ms d0 = Inr d" "disk_rel d m" using p by auto
    then have "build_outcomes crc decompress sio files from_lsn gens a = Inr (Disk d)"
      using b scan_run [where f = ?ins and from_lsn = from_lsn and es = es and s = d0] by simp
    moreover have "recovery_counts (Disk d) = (outcome_count 1 m, outcome_count 2 m)" using d(2) by (simp add: disk_rel_def)
    ultimately show ?thesis using Inr disk.look_rel [OF d(2)] sp(2) by simp
  qed
qed

lemma fold_max_lsn:
  assumes "chained q es" "q \<le> from_lsn" "from_lsn \<le> last_lsn q es"
  shows "fold max (map lsn (filter (\<lambda>e. from_lsn < lsn e) es)) from_lsn = last_lsn q es"
proof -
  have le: "\<forall>e \<in> set es. lsn e \<le> last_lsn q es" using chained_le [OF assms(1)] by blast
  have f: "fold max xs k = Max (insert k (set xs))" for xs and k :: nat
    using Max.set_eq_fold [of k xs] by simp
  have mem: "es = [] \<or> (\<exists>e \<in> set es. lsn e = last_lsn q es)"
    using assms(1) by (induction es arbitrary: q) force+
  show ?thesis
  proof (cases "from_lsn = last_lsn q es")
    case True
    then have "filter (\<lambda>e. from_lsn < lsn e) es = []" using le by (auto simp: filter_empty_conv not_less)
    then show ?thesis using True by simp
  next
    case False
    then obtain e where e: "e \<in> set es" "lsn e = last_lsn q es" using mem assms by (cases es) auto
    then show ?thesis unfolding f by (intro Max_eqI) (use le e False assms(3) in \<open>auto intro: rev_image_eqI [of e]\<close>)
  qed
qed

lemma fold_max_ge: "x \<in> set xs \<Longrightarrow> x \<le> fold max xs k" for x k :: int
  using Max.set_eq_fold [of k xs] Max_ge [of "set (k # xs)" x] by simp

text \<open>The entries that a replay gives to its client, as the log stores them.\<close>

definition replayed :: "(byte list \<Rightarrow> byte list) \<Rightarrow> nat \<Rightarrow> wal_entry list \<Rightarrow> wal_entry list" where
  "replayed compress from_lsn es = map (stored_entry compress) (filter (\<lambda>e. from_lsn < lsn e) es)"

definition committed_in :: "wal_entry list \<Rightarrow> int \<Rightarrow> bool" where
  "committed_in es t \<longleftrightarrow> (\<exists>e \<in> set es. txn_id e = t \<and> is_commit_marker e)"

lemma filter_stored:
  "filter (\<lambda>e. k < lsn e \<and> P e) (map (stored_entry compress) es) = filter P (replayed compress k es)"
  by (simp add: replayed_def filter_map filter_filter comp_def conj_commute)

lemma markers_filter: "markers from_lsn es = markers 0 (filter (\<lambda>e. from_lsn < lsn e) es)"
  by (induction es) (auto simp: markers_Cons)

lemma replay_phases:
  assumes "flush io w = (Inr (), w1)" "buffer w1 = []" "wal_inv crc compress p ls es w1" "crc_ok crc" "lz4_ok compress decompress"
    and "from_lsn = max requested (replay_floor_lsn w1)" "from_lsn \<le> current_lsn w1"
  obtains gens kept where "replayed compress from_lsn kept = replayed compress from_lsn (concat ls @ es)" "set kept \<subseteq> set (concat ls @ es)"
    "length kept \<le> length (concat ls @ es)"
    "fold max (map lsn (filter (\<lambda>e. from_lsn < lsn e) kept)) from_lsn = current_lsn w1"
    "\<And>body (s :: analysis). each_generation crc decompress (dir_files (wal_dir w1)) body gens s = run_entries body (map (stored_entry compress) kept) s"
    "\<And>body (s :: disk_outcomes). each_generation crc decompress (dir_files (wal_dir w1)) body gens s = run_entries body (map (stored_entry compress) kept) s"
    "\<And>body (s :: 'c redo). each_generation crc decompress (dir_files (wal_dir w1)) body gens s = run_entries body (map (stored_entry compress) kept) s"
    "collect_validated_generations crc decompress (wal_dir w1) (replay_floor_generation w1) (replay_floor_lsn w1) = Inr gens"
    "validate_required_generation_suffix gens from_lsn = Inr ()"
proof (rule replay_reads [OF assms(3-5,2)])
  fix logs q old
  assume o: "concat ls @ es = old @ concat logs" "\<forall>e \<in> set old. lsn e \<le> q" "replay_floor_lsn w1 = q" "q \<le> current_lsn w1"
    "chained q (concat logs)" "last_lsn q (concat logs) = current_lsn w1" "\<forall>l \<in> set logs. log_ok crc compress l" "logs \<noteq> []"
    "\<forall>i < length logs. map_of (dir_files (wal_dir w1)) (canonical_filename (replay_floor_generation w1 + i)) = Some (log_bytes crc compress (logs ! i))"
    "collect_validated_generations crc decompress (wal_dir w1) (replay_floor_generation w1) q =
       Inr (generations_of crc compress (replay_floor_generation w1) q logs)"
  let ?gens = "generations_of crc compress (replay_floor_generation w1) q logs"
  have q: "q \<le> from_lsn" "from_lsn \<le> last_lsn q (concat logs)" using o(3,6) assms(6,7) by auto
  have "filter (\<lambda>e. from_lsn < lsn e) old = []" using o(2) q(1) by (auto simp: filter_empty_conv)
  then have r: "replayed compress from_lsn (concat logs) = replayed compress from_lsn (concat ls @ es)"
    by (simp add: replayed_def o(1))
  have v: "validate_required_generation_suffix ?gens from_lsn = Inr ()"
    using covering_suffix [OF o(8) q, of crc compress "replay_floor_generation w1"]
    by (auto simp: validate_required_generation_suffix_def)
  have sub: "set (concat logs) \<subseteq> set (concat ls @ es)" "length (concat logs) \<le> length (concat ls @ es)" unfolding o(1) by auto
  have c: "collect_validated_generations crc decompress (wal_dir w1) (replay_floor_generation w1) (replay_floor_lsn w1) = Inr ?gens"
    using o(3,10) by simp
  show thesis
    by (rule that [OF r sub _ each_generation_logs [OF assms(4,5) o(5,7,9)] each_generation_logs [OF assms(4,5) o(5,7,9)]
          each_generation_logs [OF assms(4,5) o(5,7,9)] c v]) (use fold_max_lsn [OF o(5) q] o(6) in simp)
qed

lemma replay_exact:
  fixes c :: 'c
  assumes "wal_inv crc compress p ls es w" "crc_ok crc" "lz4_ok compress decompress" "spill_works sio"
    and "flush io w = (Inr (), w1)" "requested \<le> current_lsn w"
    and "length (concat ls @ es) < 2 ^ 58"
  defines "from_lsn \<equiv> max requested (replay_floor_lsn w)"
  defines "L \<equiv> replayed compress from_lsn (concat ls @ es)"
  shows "case record_all (markers 0 L) Map.empty of
      Inl err \<Rightarrow> \<exists>w'. replay_two_phase_with_outcome_observer crc decompress limit io sio requested cb ob w c = (Inl err, w', c)
    | Inr m \<Rightarrow> (case run_entries (redo_entry (\<lambda>t. m t = Some 1) cb ob) L c of
          (Inl err, c') \<Rightarrow> \<exists>w'. replay_two_phase_with_outcome_observer crc decompress limit io sio requested cb ob w c = (Inl err, w', c')
        | (Inr _, c') \<Rightarrow> \<exists>w' k. replay_two_phase_with_outcome_observer crc decompress limit io sio requested cb ob w c =
            (Inr \<lparr>info_last_lsn = current_lsn w, committed_transactions = outcome_count 1 m, aborted_transactions = outcome_count 2 m,
                  applied_entries = length (filter (\<lambda>e. is_data e \<and> m (txn_id e) = Some 1) L),
                  skipped_entries = length (filter (\<lambda>e. is_data e \<and> m (txn_id e) \<noteq> Some 1) L),
                  max_transaction_id = k\<rparr>, w', c') \<and> (\<forall>e \<in> set L. txn_id e \<le> k))"
proof -
  let ?R = "replay_two_phase_with_outcome_observer crc decompress limit io sio requested cb ob w c"
  have fl: "ext crc compress p ls es w ls es w1" "buffer w1 = []"
    using assms(5) flush_ext [OF assms(1)] unfolding flush_def by (auto elim!: when_running_cases simp: when_running_def split: sum.splits)
  have i1: "wal_inv crc compress p ls es w1" "replay_floor_lsn w1 = replay_floor_lsn w"
    using fl(1) by (simp_all add: ext_def replay_floor_lsn_def)
  have cl: "current_lsn w1 = current_lsn w" using i1(1) assms(1) unfolding wal_inv_def by (metis (no_types))
  have q: "replay_floor_lsn w \<le> current_lsn w"
    by (rule replay_reads [OF i1(1) assms(2,3) fl(2)]) (simp add: i1(2) cl)
  have fr: "from_lsn = max requested (replay_floor_lsn w1)" "from_lsn \<le> current_lsn w1"
    using assms(6) q by (simp_all add: from_lsn_def i1(2) cl)
  obtain gens kept where k: "replayed compress from_lsn kept = replayed compress from_lsn (concat ls @ es)" "set kept \<subseteq> set (concat ls @ es)"
    "length kept \<le> length (concat ls @ es)" "fold max (map lsn (filter (\<lambda>e. from_lsn < lsn e) kept)) from_lsn = current_lsn w1"
    and eg: "\<And>body (s :: analysis). each_generation crc decompress (dir_files (wal_dir w1)) body gens s = run_entries body (map (stored_entry compress) kept) s"
    "\<And>body (s :: disk_outcomes). each_generation crc decompress (dir_files (wal_dir w1)) body gens s = run_entries body (map (stored_entry compress) kept) s"
    "\<And>body (s :: 'c redo). each_generation crc decompress (dir_files (wal_dir w1)) body gens s = run_entries body (map (stored_entry compress) kept) s"
    and g: "collect_validated_generations crc decompress (wal_dir w1) (replay_floor_generation w1) (replay_floor_lsn w1) = Inr gens"
    "validate_required_generation_suffix gens from_lsn = Inr ()"
    by (rule replay_phases [OF assms(5) fl(2) i1(1) assms(2,3) fr, where 'c = 'c]) (rule that, assumption+)
  let ?E = "map (stored_entry compress) kept"
  have L: "L = filter (\<lambda>e. from_lsn < lsn e) ?E" unfolding L_def k(1) [symmetric] by (simp add: replayed_def filter_map comp_def)
  have mk: "markers 0 L = markers from_lsn ?E" unfolding L by (rule markers_filter [symmetric])
  let ?a = "\<lparr>an_wal = w1, memory_outcomes = [], outcome_markers = 0, needs_spill = False, an_last_lsn = from_lsn,
                max_transaction = transaction_high_water w1\<rparr>"
  obtain r a where an: "run_entries (analysis_step limit from_lsn) ?E ?a = (r, a)" by (rule prod.exhaust)
  have adm: "\<forall>e \<in> set ?E. admissible e"
    using assms(1) k(2) unfolding wal_inv_def log_ok_def by (fastforce simp: admissible_def)
  have i64: "\<forall>e \<in> set ?E. in_i64 (txn_id e)"
    using assms(1) k(2) unfolding wal_inv_def log_ok_def writable_def entry_ok_def by fastforce
  have len: "length ?E < 2 ^ 58" using k(3) assms(7) by simp
  have mr: "memory_rel (memory_outcomes ?a) Map.empty" by (simp add: memory_rel_def)
  have A: "timestamp_only (an_wal ?a) (an_wal a)"
    "case r of Inl err \<Rightarrow> record_all (markers from_lsn ?E) Map.empty = Inl err
     | Inr _ \<Rightarrow> outcome_markers a = length (markers from_lsn ?E) \<and> an_last_lsn a = current_lsn w \<and>
         max_transaction a = fold max (map txn_id ?E) (transaction_high_water w1) \<and>
         (needs_spill a \<or> (\<exists>m. record_all (markers from_lsn ?E) Map.empty = Inr m \<and> memory_rel (memory_outcomes a) m))"
    using analysis_run [OF adm _ _ an, of Map.empty] mr len k(4) cl
    by (auto simp: filter_map comp_def split: sum.splits)
  show ?thesis
  proof (cases r)
    case (Inl err)
    have "?R = (Inl err, an_wal a, c)"
      unfolding replay_two_phase_with_outcome_observer_def assms(5) Let_def
      using an Inl by (simp add: g eg fr(1) [symmetric])
    then show ?thesis using A(2) Inl unfolding mk by simp
  next
    case (Inr u)
    let ?w2 = "(an_wal a)\<lparr>transaction_high_water := max (transaction_high_water (an_wal a)) (max_transaction a)\<rparr>"
    let ?b = "build_outcomes crc decompress sio (dir_files (wal_dir w1)) from_lsn gens a"
    let ?s = "\<lparr>redo_client = c, applied_count = 0, skipped_count = 0\<rparr>"
    have R: "?R = (case ?b of Inl err \<Rightarrow> (Inl err, ?w2, c) | Inr outcomes \<Rightarrow>
        (case run_entries (redo_step (\<lambda>t. recovery_get (spill_access sio) t outcomes) from_lsn cb ob) ?E ?s of
           (Inl err, s) \<Rightarrow> (Inl err, ?w2, redo_client s)
         | (Inr _, s) \<Rightarrow> (Inr \<lparr>info_last_lsn = an_last_lsn a, committed_transactions = fst (recovery_counts outcomes),
                  aborted_transactions = snd (recovery_counts outcomes), applied_entries = applied_count s,
                  skipped_entries = skipped_count s, max_transaction_id = max_transaction a\<rparr>,
             if an_last_lsn a > current_lsn ?w2 then ?w2\<lparr>current_lsn := an_last_lsn a\<rparr> else ?w2, redo_client s)))"
      unfolding replay_two_phase_with_outcome_observer_def assms(5) Let_def fr(1) [symmetric] prod.case sum.case g eg an Inr
      by (rule refl)
    note A' = A(2) [unfolded Inr sum.case]
    have B: "case record_all (markers from_lsn ?E) Map.empty of Inl err \<Rightarrow> ?b = Inl err
      | Inr m \<Rightarrow> \<exists>outcomes. ?b = Inr outcomes \<and> (\<forall>t. recovery_get (spill_access sio) t outcomes = Inr (m t)) \<and>
          recovery_counts outcomes = (outcome_count 1 m, outcome_count 2 m)"
      by (rule build_outcomes_exact [OF eg(2) assms(4) i64 len]) (use A' in auto)
    show ?thesis
    proof (cases "record_all (markers from_lsn ?E) Map.empty")
      case (Inl err)
      then show ?thesis using B R unfolding mk by simp
    next
      case (Inr m)
      then obtain outcomes where o: "?b = Inr outcomes" "\<And>t. recovery_get (spill_access sio) t outcomes = Inr (m t)"
          "recovery_counts outcomes = (outcome_count 1 m, outcome_count 2 m)" using B by auto
      obtain rr cc where rr: "run_entries (redo_entry (\<lambda>t. m t = Some 1) cb ob) L c = (rr, cc)" by (rule prod.exhaust)
      then have "run_entries (redo_entry (\<lambda>t. m t = Some 1) cb ob) (filter (\<lambda>e. from_lsn < lsn e) ?E) (redo_client ?s) = (rr, cc)"
        unfolding L by simp
      from redo_run [OF o(2) this] obtain s' where
        s': "run_entries (redo_step (\<lambda>t. recovery_get (spill_access sio) t outcomes) from_lsn cb ob) ?E ?s = (rr, s')" "redo_client s' = cc"
        "\<forall>u. rr = Inr u \<longrightarrow> applied_count s' = length (filter (\<lambda>e. is_data e \<and> m (txn_id e) = Some 1) L) \<and>
            skipped_count s' = length (filter (\<lambda>e. is_data e \<and> m (txn_id e) \<noteq> Some 1) L)"
        unfolding L by (auto simp: filter_filter conj_commute)
      have mx: "\<forall>e \<in> set L. txn_id e \<le> max_transaction a"
        using A' fold_max_ge [of _ "map txn_id ?E"] unfolding L by auto
      show ?thesis
      proof (cases rr)
        case (Inl err)
        then have "?R = (Inl err, ?w2, cc)" using R o s' by simp
        then show ?thesis using \<open>record_all (markers from_lsn ?E) Map.empty = Inr m\<close> rr Inl unfolding mk by simp
      next
        case (Inr v)
        then have "?R = (Inr \<lparr>info_last_lsn = current_lsn w, committed_transactions = outcome_count 1 m, aborted_transactions = outcome_count 2 m,
                  applied_entries = length (filter (\<lambda>e. is_data e \<and> m (txn_id e) = Some 1) L),
                  skipped_entries = length (filter (\<lambda>e. is_data e \<and> m (txn_id e) \<noteq> Some 1) L),
                  max_transaction_id = max_transaction a\<rparr>,
             if an_last_lsn a > current_lsn ?w2 then ?w2\<lparr>current_lsn := an_last_lsn a\<rparr> else ?w2, cc)" using R o s' A' by simp
        then show ?thesis using \<open>record_all (markers from_lsn ?E) Map.empty = Inr m\<close> rr Inr mx unfolding mk by auto
      qed
    qed
  qed
qed

lemma committed_markers:
  assumes "record_all (markers 0 L) Map.empty = Inr m" "\<forall>e \<in> set L. 0 < lsn e"
  shows "m t = Some 1 \<longleftrightarrow> committed_in L t"
  unfolding record_all_empty [OF assms(1)] markers_mem committed_in_def
  using assms(2) by (auto simp: marker_outcome_def RECOVERY_OUTCOME_COMMITTED_def RECOVERY_OUTCOME_ABORTED_def split: if_splits)

definition aborted_in :: "wal_entry list \<Rightarrow> int \<Rightarrow> bool" where
  "aborted_in es t \<longleftrightarrow> (\<exists>e \<in> set es. txn_id e = t \<and> is_abort_marker e \<and> \<not> is_commit_marker e)"

lemma aborted_markers:
  assumes "record_all (markers 0 L) Map.empty = Inr m" "\<forall>e \<in> set L. 0 < lsn e"
  shows "m t = Some 2 \<longleftrightarrow> aborted_in L t"
  unfolding record_all_empty [OF assms(1)] markers_mem aborted_in_def
  using assms(2) by (auto simp: marker_outcome_def RECOVERY_OUTCOME_COMMITTED_def RECOVERY_OUTCOME_ABORTED_def split: if_splits)

lemma replayed_pos: "e \<in> set (replayed compress k es) \<Longrightarrow> 0 < lsn e"
  by (auto simp: replayed_def)

lemma consistent_replayed:
  "consistent_outcomes (replayed compress k es) \<longleftrightarrow> (\<exists>m. record_all (markers 0 (replayed compress k es)) Map.empty = Inr m)"
  unfolding record_all_consistent using replayed_pos [of _ compress k es] by (simp add: filter_id_conv [THEN iffD2])

text \<open>
  C4. Replay applies exactly the committed transactions. On a good log in which no transaction has two outcomes, replay
  reads the retained entries above its start position in log order; it gives the client every entry of a transaction
  whose commit marker is among them, reports the entries of the others as uncommitted, stops where the client
  fails, and returns the exact counts and the position of the last entry. Whether the outcomes were kept in
  memory or spilled to disk makes no difference.
\<close>

theorem replay_applies_committed:
  assumes "wal_inv crc compress p ls es w" "crc_ok crc" "lz4_ok compress decompress" "spill_works sio"
    and "flush io w = (Inr (), w1)" "requested \<le> current_lsn w" "length (concat ls @ es) < 2 ^ 58"
    and "L = replayed compress (max requested (replay_floor_lsn w)) (concat ls @ es)" "consistent_outcomes L"
  shows "case run_entries (redo_entry (committed_in L) cb ob) L c of
      (Inl err, c') \<Rightarrow> \<exists>w'. replay_two_phase_with_outcome_observer crc decompress limit io sio requested cb ob w c = (Inl err, w', c')
    | (Inr _, c') \<Rightarrow> \<exists>w' k. replay_two_phase_with_outcome_observer crc decompress limit io sio requested cb ob w c =
        (Inr \<lparr>info_last_lsn = current_lsn w, committed_transactions = card {t. committed_in L t},
              aborted_transactions = card {t. aborted_in L t},
              applied_entries = length (filter (\<lambda>e. is_data e \<and> committed_in L (txn_id e)) L),
              skipped_entries = length (filter (\<lambda>e. is_data e \<and> \<not> committed_in L (txn_id e)) L),
              max_transaction_id = k\<rparr>, w', c') \<and> (\<forall>e \<in> set L. txn_id e \<le> k)"
proof -
  obtain m where m: "record_all (markers 0 L) Map.empty = Inr m" using assms(8,9) consistent_replayed by auto
  have pos: "\<forall>e \<in> set L. 0 < lsn e" using assms(8) replayed_pos by auto
  note cm = committed_markers [OF m pos] aborted_markers [OF m pos]
  show ?thesis
    using replay_exact [OF assms(1-7), of limit cb ob c, folded assms(8), unfolded m sum.case]
    by (simp only: cm outcome_count_def)
qed

text \<open>
  C18. Conflicting outcomes stop recovery. If a transaction has both a commit and an abort marker among the replayed
  entries, replay returns an error that names such a transaction and never calls the client.
\<close>

theorem replay_rejects_conflict:
  assumes "wal_inv crc compress p ls es w" "crc_ok crc" "lz4_ok compress decompress" "spill_works sio"
    and "flush io w = (Inr (), w1)" "requested \<le> current_lsn w" "length (concat ls @ es) < 2 ^ 58"
    and "L = replayed compress (max requested (replay_floor_lsn w)) (concat ls @ es)" "\<not> consistent_outcomes L"
  shows "\<exists>t w'. replay_two_phase_with_outcome_observer crc decompress limit io sio requested cb ob w c =
      (Inl (BothOutcomes t), w', c) \<and> committed_in L t \<and> aborted_in L t"
proof -
  obtain err where e: "record_all (markers 0 L) Map.empty = Inl err"
    using assms(8,9) consistent_replayed by (metis sum.exhaust)
  then obtain t q r where t: "err = BothOutcomes t" "q \<noteq> r" "(t, q) \<in> set (markers 0 L)" "(t, r) \<in> set (markers 0 L)"
    using record_all_Inl [OF e] by auto
  then have "{q, r} = {1, 2}" using markers_values [OF t(3)] markers_values [OF t(4)] by auto
  then have "(t, 1) \<in> set (markers 0 L)" "(t, 2) \<in> set (markers 0 L)" using t(3,4) by (auto simp: doubleton_eq_iff)
  then have "committed_in L t" "aborted_in L t"
    unfolding markers_mem committed_in_def aborted_in_def
    by (auto simp: marker_outcome_def RECOVERY_OUTCOME_COMMITTED_def RECOVERY_OUTCOME_ABORTED_def split: if_splits)
  then show ?thesis
    using replay_exact [OF assms(1-7), of limit cb ob c, folded assms(8), unfolded e sum.case] t(1) by blast
qed

section \<open>Concrete replays\<close>

definition example_row :: "int \<Rightarrow> nat \<Rightarrow> wal_entry" where
  "example_row txn l = (new_entry 1700 txn (Some (replicate 16 7)) 42 Insert [1])\<lparr>previous_lsn := l - 1, lsn := l\<rparr>"

definition example_marker :: "bool \<Rightarrow> int \<Rightarrow> nat \<Rightarrow> wal_entry" where
  "example_marker commits txn l = (if commits then commit_entry 1700 txn else rollback_entry 1700 txn)\<lparr>previous_lsn := l - 1, lsn := l\<rparr>"

definition working_spill :: spill_io where
  "working_spill = \<lparr>spill_created = True, spill_access = \<lambda>_. True\<rparr>"

lemma example_entries_ok:
  assumes "txn \<in> {8, 9}" "l \<in> {1, 2, 3}" "e \<in> {example_row txn l, example_marker commits txn l}"
  shows "writable compress e \<and> admissible e" "length (record_bytes crc compress e) \<le> MAX_WAL_RECORD_DATA_SIZE + 36"
proof -
  have "object_id_ok (replicate 16 7)"
    by (simp add: object_id_ok_def object_id_from_bytes_def zero_id_def is_reserved_unassigned_def has_reserved_prefix_def list_all_iff)
  then have ok: "entry_ok e"
    using assms by (auto simp: entry_ok_def example_row_def example_marker_def new_entry_def commit_entry_def rollback_entry_def with_flags_def)
  have "COMMIT_MARKER AND NOT WAL_KNOWN_FLAGS = 0" "ABORT_MARKER AND NOT WAL_KNOWN_FLAGS = 0" by (simp_all add: known_flags_bit flag_bits)
  then have "validate_semantics (example_row txn l) = Inr ()" "validate_semantics (example_marker commits txn l) = Inr ()"
    by (cases commits; simp add: validate_semantics_Inr example_row_def example_marker_def new_entry_def commit_entry_def rollback_entry_def
        with_flags_def flag_bits requires_table_id_def)+
  then have v: "validate_semantics e = Inr ()" using assms(3) by auto
  have f: "fits compress e"
    using assms by (auto simp: fits_def encoded_payload_def compressed_payload_def example_row_def example_marker_def new_entry_def
        commit_entry_def rollback_entry_def with_flags_def wal_defs)
  have "admissible e"
    using assms by (cases commits) (auto simp: admissible_def MAX_DURABLE_TIMESTAMP_def example_row_def example_marker_def new_entry_def
        commit_entry_def rollback_entry_def with_flags_def)
  then show "writable compress e \<and> admissible e" using ok v f by (simp add: writable_def)
  show "length (record_bytes crc compress e) \<le> MAX_WAL_RECORD_DATA_SIZE + 36"
    using length_record_bytes [OF ok, of crc compress] f by (simp add: fits_def)
qed

lemma single_generation_open:
  assumes "chained 0 es" "log_ok example_crc example_compress es"
  obtains w where "wal_inv example_crc example_compress 0 [] es w" "replay_floor_lsn w = 0" "current_lsn w = last_lsn 0 es"
    "flush example_io w = (Inr (), w)" "lifecycle w = Running" "wal_file w" "wal_sync_mode w = SyncNormal"
proof -
  let ?b = "log_bytes example_crc example_compress es"
  let ?d = "\<lparr>dir_files = [(canonical_filename 1, ?b)], dir_retired = None\<rparr>"
  have "map_of (dir_files ?d) (canonical_filename h) = (if h < 1 + length [?b] then Some ([?b] ! (h - 1)) else None)"
    if "1 \<le> h" "h < 2 ^ 64" for h
    using canonical_filename_inj [of h 1] that by auto
  then have "dir_files_from 1 [?b] ?d" unfolding dir_files_from_def by (auto intro: exI [of _ "1 :: nat"])
  then obtain w where w: "wal_inv example_crc example_compress 0 [] es w" "replay_floor w = (1, 0)" "buffer w = []" "lifecycle w = Running"
      "wal_file w" "wal_sync_mode w = SyncNormal"
    using open_holds [OF example_crc_ok example_lz4_ok, of 0 "[]" es 1 ?d example_io SyncNormal None 0] assms by auto
  then have "flush example_io w = (Inr (), w)" by (simp add: flush_def when_running_def flush_under_transition_def)
  moreover have "current_lsn w = last_lsn 0 es" using w(1) by (simp add: wal_inv_def)
  ultimately show thesis using that w by (simp add: replay_floor_lsn_def)
qed

definition example_history :: "wal_entry list" where
  "example_history = [example_row 8 1, example_marker True 8 2, example_row 9 3]"

definition example_conflict :: "wal_entry list" where
  "example_conflict = [example_marker True 8 1, example_marker False 8 2]"

lemma example_logs:
  "chained 0 example_history" "log_ok example_crc example_compress example_history" "last_lsn 0 example_history = 3"
  "length (log_bytes example_crc example_compress example_history) \<le> 2 ^ 40"
  "chained 0 example_conflict" "log_ok example_crc example_compress example_conflict" "last_lsn 0 example_conflict = 2"
proof -
  note row = example_entries_ok [OF _ _ insertI1] and mark = example_entries_ok [OF _ _ insertI2 [OF singletonI]]
  have r: "length (record_bytes example_crc example_compress (example_row txn l)) \<le> 2 ^ 27" if "txn \<in> {8, 9}" "l \<in> {1, 2, 3}" for txn l
    using row(2) [OF that, of example_crc example_compress] by (simp add: wal_defs)
  have k: "length (record_bytes example_crc example_compress (example_marker b txn l)) \<le> 2 ^ 27" if "txn \<in> {8, 9}" "l \<in> {1, 2, 3}" for b txn l
    using mark(2) [OF that, of example_crc example_compress b] by (simp add: wal_defs)
  show "chained 0 example_history" "chained 0 example_conflict" "last_lsn 0 example_history = 3" "last_lsn 0 example_conflict = 2"
    by (simp_all add: example_history_def example_conflict_def example_row_def example_marker_def)
  show "length (log_bytes example_crc example_compress example_history) \<le> 2 ^ 40"
    using r [of 8 1] r [of 9 3] k [of 8 2 True] by (simp add: example_history_def)
  show "log_ok example_crc example_compress example_history"
    using r [of 8 1] r [of 9 3] k [of 8 2 True] row(1) mark(1) by (simp add: log_ok_def example_history_def)
  show "log_ok example_crc example_compress example_conflict"
    using k [of 8 1 True] k [of 8 2 False] mark(1) by (simp add: log_ok_def example_conflict_def)
qed

lemma stored_markers [simp]:
  "is_commit_marker (stored_entry compress e) \<longleftrightarrow> is_commit_marker e"
  "is_abort_marker (stored_entry compress e) \<longleftrightarrow> is_abort_marker e"
  by (simp_all add: is_commit_marker_def is_abort_marker_def flags_contain_bit encoded_flags_bit)

lemma example_marks:
  "\<not> is_commit_marker (example_row txn l)" "\<not> is_abort_marker (example_row txn l)"
  "is_commit_marker (example_marker b txn l) \<longleftrightarrow> b" "is_abort_marker (example_marker b txn l) \<longleftrightarrow> \<not> b"
  "txn_id (example_row txn l) = txn" "txn_id (example_marker b txn l) = txn" "lsn (example_row txn l) = l" "lsn (example_marker b txn l) = l"
  by (cases b; simp add: example_row_def example_marker_def commit_entry_def rollback_entry_def with_flags_def new_entry_def
      is_commit_marker_def is_abort_marker_def flags_contain_bit flag_bits)+

theorem replay_applies_committed_witness:
  "\<exists>w w' k. replay_two_phase_with_outcome_observer example_crc example_decompress 0 example_io working_spill 0
       (\<lambda>e c. (Inr (), c @ [Inl e])) (\<lambda>t c. (Inr (), c @ [Inr t])) w [] =
     (Inr \<lparr>info_last_lsn = 3, committed_transactions = 1, aborted_transactions = 0, applied_entries = 1, skipped_entries = 1,
           max_transaction_id = k\<rparr>, w',
      [Inl (stored_entry example_compress (example_row 8 1)), Inl (stored_entry example_compress (example_marker True 8 2)), Inr 9]) \<and> 9 \<le> k"
proof -
  let ?s = "stored_entry example_compress"
  obtain w where w: "wal_inv example_crc example_compress 0 [] example_history w" "replay_floor_lsn w = 0" "current_lsn w = 3"
      "flush example_io w = (Inr (), w)"
    using single_generation_open [OF example_logs(1,2)] example_logs(3) by metis
  define L where "L = replayed example_compress (max 0 (replay_floor_lsn w)) (concat [] @ example_history)"
  have L: "L = [?s (example_row 8 1), ?s (example_marker True 8 2), ?s (example_row 9 3)]"
    by (simp add: L_def replayed_def example_history_def w(2) example_marks)
  have cons: "consistent_outcomes L" by (auto simp: consistent_outcomes_def L example_marks marker_outcome_def)
  have c: "committed_in L t \<longleftrightarrow> t = 8" and a: "\<not> aborted_in L t" for t
    by (auto simp: committed_in_def aborted_in_def L example_marks)
  have sp: "spill_works working_spill" by (simp add: spill_works_def working_spill_def)
  have run: "run_entries (redo_entry (committed_in L) (\<lambda>e c. (Inr (), c @ [Inl e])) (\<lambda>t c. (Inr (), c @ [Inr t]))) L [] =
      (Inr (), [Inl (?s (example_row 8 1)), Inl (?s (example_marker True 8 2)), Inr 9])"
    by (simp add: L redo_entry_def example_marks committed_in_def)
  have n: "length (filter (\<lambda>e. is_data e \<and> committed_in L (txn_id e)) L) = 1"
    "length (filter (\<lambda>e. is_data e \<and> \<not> committed_in L (txn_id e)) L) = 1"
    "card {t. committed_in L t} = 1" "card {t. aborted_in L t} = 0"
    unfolding c by (simp_all add: a) (simp_all add: L is_data_def example_marks)
  have sz: "length (concat [] @ example_history) < 2 ^ 58" by (simp add: example_history_def)
  have "\<exists>w' k. replay_two_phase_with_outcome_observer example_crc example_decompress 0 example_io working_spill 0
       (\<lambda>e c. (Inr (), c @ [Inl e])) (\<lambda>t c. (Inr (), c @ [Inr t])) w [] =
     (Inr \<lparr>info_last_lsn = 3, committed_transactions = 1, aborted_transactions = 0, applied_entries = 1, skipped_entries = 1,
           max_transaction_id = k\<rparr>, w', [Inl (?s (example_row 8 1)), Inl (?s (example_marker True 8 2)), Inr 9]) \<and> (\<forall>e \<in> set L. txn_id e \<le> k)"
    using replay_applies_committed [OF w(1) example_crc_ok example_lz4_ok sp w(4) le0 sz L_def cons,
        where cb = "\<lambda>e c. (Inr (), c @ [Inl e])" and ob = "\<lambda>t c. (Inr (), c @ [Inr t])" and c = "[]" and limit = 0]
    unfolding run prod.case sum.case n w(3) by (simp only:)
  moreover have "?s (example_row 9 3) \<in> set L" by (simp add: L)
  ultimately show ?thesis using example_marks(5) by fastforce
qed

theorem replay_rejects_conflict_witness:
  "\<exists>w t w'. replay_two_phase_with_outcome_observer example_crc example_decompress 8 example_io working_spill 0
       (\<lambda>e c. (Inr (), c @ [e])) (\<lambda>t c. (Inr (), c)) w [] = (Inl (BothOutcomes t), w', [])"
proof -
  obtain w where w: "wal_inv example_crc example_compress 0 [] example_conflict w" "replay_floor_lsn w = 0"
      "flush example_io w = (Inr (), w)"
    using single_generation_open [OF example_logs(5,6)] by metis
  define L where "L = replayed example_compress (max 0 (replay_floor_lsn w)) (concat [] @ example_conflict)"
  have L: "L = [stored_entry example_compress (example_marker True 8 1), stored_entry example_compress (example_marker False 8 2)]"
    by (simp add: L_def replayed_def example_conflict_def w(2) example_marks)
  have nc: "\<not> consistent_outcomes L"
    by (simp add: consistent_outcomes_def L example_marks marker_outcome_def RECOVERY_OUTCOME_COMMITTED_def RECOVERY_OUTCOME_ABORTED_def)
  have sp: "spill_works working_spill" by (simp add: spill_works_def working_spill_def)
  have sz: "length (concat [] @ example_conflict) < 2 ^ 58" by (simp add: example_conflict_def)
  show ?thesis
    using replay_rejects_conflict [OF w(1) example_crc_ok example_lz4_ok sp w(3) le0 sz L_def nc,
        of 8 "\<lambda>e c. (Inr (), c @ [e])" "\<lambda>t c. (Inr (), c)" "[]"] by blast
qed

section \<open>A crash while the outcomes are spilled\<close>

fun decimal :: "nat \<Rightarrow> string" where
  "decimal n = (if n < 10 then [''0123456789'' ! n] else decimal (n div 10) @ [''0123456789'' ! (n mod 10)])"

definition spill_name :: "nat \<Rightarrow> nat \<Rightarrow> string" where
  "spill_name pid sequence = ''.recovery-outcomes-'' @ decimal pid @ ''-'' @ decimal sequence @ ''.tmp''"

definition during_spill :: "string \<Rightarrow> disk_outcomes \<Rightarrow> wal_directory \<Rightarrow> wal_directory" where
  "during_spill name d dir = dir\<lparr>dir_files := AList.update name (spill_bytes d) (dir_files dir)\<rparr>"

lemma spill_name_not_canonical: "parse_canonical_generation (spill_name pid sequence) = None"
  by (simp add: parse_canonical_generation_def spill_name_def)

lemma select_paths_foreign:
  "name \<in> set names \<Longrightarrow> \<forall>n \<in> set names. parse_canonical_generation n = None \<longleftrightarrow> n = name \<Longrightarrow>
   select_paths g names = Inl (NonCanonicalFile name)"
  by (induction names) (auto split: option.splits)



section \<open>Replay into a list\<close>

text \<open>A client that collects the entries it is given.\<close>

lemma redo_recording:
  "run_entries (redo_entry com (\<lambda>e c. (Inr (), c @ [e])) (\<lambda>_ c. (Inr (), c))) L c =
     (Inr (), c @ filter (\<lambda>e. \<not> is_abort_marker e \<and> com (txn_id e)) L)"
  by (induction L arbitrary: c) (auto simp: redo_entry_def)

lemma chained_length: "chained p es \<Longrightarrow> p + length es \<le> last_lsn p es"
proof (induction es arbitrary: p)
  case (Cons e es)
  then have "lsn e + length es \<le> last_lsn (lsn e) es" "p < lsn e" by simp_all
  then show ?case by simp
qed simp

lemma replay_recording:
  assumes "wal_inv crc compress p ls es w" "crc_ok crc" "lz4_ok compress decompress" "spill_works sio"
    and "buffer w = []" "lifecycle w = Running" "current_lsn w < 2 ^ 58"
    and "L = replayed compress (replay_floor_lsn w) (concat ls @ es)"
  shows "if consistent_outcomes L
    then \<exists>info w'. replay_two_phase crc decompress limit io sio 0 (\<lambda>e c. (Inr (), c @ [e])) w [] =
           (Inr info, w', filter (\<lambda>e. \<not> is_abort_marker e \<and> committed_in L (txn_id e)) L)
    else \<exists>t w'. replay_two_phase crc decompress limit io sio 0 (\<lambda>e c. (Inr (), c @ [e])) w [] = (Inl (BothOutcomes t), w', [])"
proof -
  have f: "flush io w = (Inr (), w)" using assms(5,6) by (simp add: flush_def when_running_def flush_under_transition_def)
  have "chained p (concat ls @ es)" "last_lsn p (concat ls @ es) = current_lsn w" using assms(1) by (simp_all add: wal_inv_def)
  then have n: "length (concat ls @ es) < 2 ^ 58" using chained_length [of p "concat ls @ es"] assms(7) by linarith
  have L: "L = replayed compress (max 0 (replay_floor_lsn w)) (concat ls @ es)" using assms(8) by simp
  note x = replay_exact [OF assms(1-4) f le0 n, of limit "\<lambda>e c. (Inr (), c @ [e])" "\<lambda>_ c. (Inr (), c)" "[]", folded L replay_two_phase_def]
  have pos: "\<forall>e \<in> set L. 0 < lsn e" using L replayed_pos by auto
  show ?thesis
  proof (cases "record_all (markers 0 L) Map.empty")
    case (Inl err)
    then have "\<not> consistent_outcomes L" using consistent_replayed [of compress "replay_floor_lsn w" "concat ls @ es"] assms(8) by simp
    moreover obtain t where "err = BothOutcomes t" using record_all_Inl [OF Inl] by blast
    ultimately show ?thesis using x Inl by auto
  next
    case (Inr m)
    then have "consistent_outcomes L" using consistent_replayed [of compress "replay_floor_lsn w" "concat ls @ es"] assms(8) by simp
    then show ?thesis using x unfolding Inr sum.case redo_recording prod.case committed_markers [OF Inr pos] by auto
  qed
qed

end
