(* ===== verification/Proc_Diagnostic.thy ===== *)
theory Proc_Diagnostic
  imports Prelude
begin

text \<open>
  Diagnostics of the procedural runtime, after \<open>crates/radixdb-procedural/src/diagnostic.rs\<close>: the closed registry of
  kinds with its spelling, category and retry policy, and the diagnostic value that every fallible operation of the
  runtime returns. Texts are byte strings; a text that is too long is cut at a character boundary and the lists of a
  diagnostic stop growing at fixed sizes. The main fact is that every diagnostic the constructors can build stays
  within these sizes.
\<close>

section \<open>The registry of kinds\<close>

datatype diagnostic_category =
    CategoryParse
  | CategoryBind
  | CategoryVerify
  | CategoryRuntime
  | CategorySecurity
  | CategoryResource
  | CategoryCardinality
  | CategoryTrigger
  | CategoryJob

primrec category_as_str :: "diagnostic_category \<Rightarrow> string" where
  "category_as_str CategoryParse = ''parse''"
| "category_as_str CategoryBind = ''bind''"
| "category_as_str CategoryVerify = ''verify''"
| "category_as_str CategoryRuntime = ''runtime''"
| "category_as_str CategorySecurity = ''security''"
| "category_as_str CategoryResource = ''resource''"
| "category_as_str CategoryCardinality = ''cardinality''"
| "category_as_str CategoryTrigger = ''trigger''"
| "category_as_str CategoryJob = ''job''"

datatype diagnostic_kind =
    ParseExpectedToken
  | ParseUnsupportedSyntax
  | ParseLimitExceeded
  | BindUnknownLocal
  | BindUnknownObject
  | BindAmbiguousRoutine
  | BindTypeMismatch
  | BindDependencyCycle
  | VerifyCapabilityDenied
  | VerifyTransactionControlForbidden
  | VerifyDynamicDdlNotSupported
  | VerifyUnboundedResult
  | RuntimeNullNotAllowed
  | RuntimeArrayBounds
  | RuntimeNumericOverflow
  | RuntimeInvalidIr
  | RuntimeInvalidArgument
  | RuntimeConflict
  | RuntimeNotFound
  | RuntimeInvalidState
  | RuntimeUniqueViolation
  | CardinalityNoDataFound
  | CardinalityTooManyRows
  | SecurityExecuteDenied
  | SecurityObjectDenied
  | SecurityUnsafeSearchPath
  | ResourceInstructions
  | ResourceHeap
  | ResourceRows
  | ResourceBytes
  | ResourceSqlStatements
  | ResourceFrames
  | ResourceDeadline
  | ResourceCancelled
  | TriggerCycle
  | TriggerDepth
  | TriggerInvalidReturn
  | JobAttemptFailed

definition all_kinds :: "diagnostic_kind list" where
  "all_kinds =
     [ParseExpectedToken, ParseUnsupportedSyntax, ParseLimitExceeded, BindUnknownLocal, BindUnknownObject,
      BindAmbiguousRoutine, BindTypeMismatch, BindDependencyCycle, VerifyCapabilityDenied, VerifyTransactionControlForbidden,
      VerifyDynamicDdlNotSupported, VerifyUnboundedResult, RuntimeNullNotAllowed, RuntimeArrayBounds, RuntimeNumericOverflow,
      RuntimeInvalidIr, RuntimeInvalidArgument, RuntimeConflict, RuntimeNotFound, RuntimeInvalidState,
      RuntimeUniqueViolation, CardinalityNoDataFound, CardinalityTooManyRows, SecurityExecuteDenied, SecurityObjectDenied,
      SecurityUnsafeSearchPath, ResourceInstructions, ResourceHeap, ResourceRows, ResourceBytes,
      ResourceSqlStatements, ResourceFrames, ResourceDeadline, ResourceCancelled, TriggerCycle,
      TriggerDepth, TriggerInvalidReturn, JobAttemptFailed]"

primrec kind_as_str :: "diagnostic_kind \<Rightarrow> string" where
  "kind_as_str ParseExpectedToken = ''PL_PARSE_EXPECTED_TOKEN''"
| "kind_as_str ParseUnsupportedSyntax = ''PL_PARSE_UNSUPPORTED_SYNTAX''"
| "kind_as_str ParseLimitExceeded = ''PL_PARSE_LIMIT_EXCEEDED''"
| "kind_as_str BindUnknownLocal = ''PL_BIND_UNKNOWN_LOCAL''"
| "kind_as_str BindUnknownObject = ''PL_BIND_UNKNOWN_OBJECT''"
| "kind_as_str BindAmbiguousRoutine = ''PL_BIND_AMBIGUOUS_ROUTINE''"
| "kind_as_str BindTypeMismatch = ''PL_BIND_TYPE_MISMATCH''"
| "kind_as_str BindDependencyCycle = ''PL_BIND_DEPENDENCY_CYCLE''"
| "kind_as_str VerifyCapabilityDenied = ''PL_VERIFY_CAPABILITY_DENIED''"
| "kind_as_str VerifyTransactionControlForbidden = ''PL_VERIFY_TRANSACTION_CONTROL_FORBIDDEN''"
| "kind_as_str VerifyDynamicDdlNotSupported = ''PL_VERIFY_DYNAMIC_DDL_NOT_SUPPORTED''"
| "kind_as_str VerifyUnboundedResult = ''PL_VERIFY_UNBOUNDED_RESULT''"
| "kind_as_str RuntimeNullNotAllowed = ''PL_RUNTIME_NULL_NOT_ALLOWED''"
| "kind_as_str RuntimeArrayBounds = ''PL_RUNTIME_ARRAY_BOUNDS''"
| "kind_as_str RuntimeNumericOverflow = ''PL_RUNTIME_NUMERIC_OVERFLOW''"
| "kind_as_str RuntimeInvalidIr = ''PL_RUNTIME_INVALID_IR''"
| "kind_as_str RuntimeInvalidArgument = ''PL_RUNTIME_INVALID_ARGUMENT''"
| "kind_as_str RuntimeConflict = ''PL_RUNTIME_CONFLICT''"
| "kind_as_str RuntimeNotFound = ''PL_RUNTIME_NOT_FOUND''"
| "kind_as_str RuntimeInvalidState = ''PL_RUNTIME_INVALID_STATE''"
| "kind_as_str RuntimeUniqueViolation = ''PL_RUNTIME_UNIQUE_VIOLATION''"
| "kind_as_str CardinalityNoDataFound = ''PL_CARDINALITY_NO_DATA_FOUND''"
| "kind_as_str CardinalityTooManyRows = ''PL_CARDINALITY_TOO_MANY_ROWS''"
| "kind_as_str SecurityExecuteDenied = ''PL_SECURITY_EXECUTE_DENIED''"
| "kind_as_str SecurityObjectDenied = ''PL_SECURITY_OBJECT_DENIED''"
| "kind_as_str SecurityUnsafeSearchPath = ''PL_SECURITY_UNSAFE_SEARCH_PATH''"
| "kind_as_str ResourceInstructions = ''PL_RESOURCE_INSTRUCTIONS''"
| "kind_as_str ResourceHeap = ''PL_RESOURCE_HEAP''"
| "kind_as_str ResourceRows = ''PL_RESOURCE_ROWS''"
| "kind_as_str ResourceBytes = ''PL_RESOURCE_BYTES''"
| "kind_as_str ResourceSqlStatements = ''PL_RESOURCE_SQL_STATEMENTS''"
| "kind_as_str ResourceFrames = ''PL_RESOURCE_FRAMES''"
| "kind_as_str ResourceDeadline = ''PL_RESOURCE_DEADLINE''"
| "kind_as_str ResourceCancelled = ''PL_RESOURCE_CANCELLED''"
| "kind_as_str TriggerCycle = ''PL_TRIGGER_CYCLE''"
| "kind_as_str TriggerDepth = ''PL_TRIGGER_DEPTH''"
| "kind_as_str TriggerInvalidReturn = ''PL_TRIGGER_INVALID_RETURN''"
| "kind_as_str JobAttemptFailed = ''PL_JOB_ATTEMPT_FAILED''"

primrec kind_category :: "diagnostic_kind \<Rightarrow> diagnostic_category" where
  "kind_category ParseExpectedToken = CategoryParse"
| "kind_category ParseUnsupportedSyntax = CategoryParse"
| "kind_category ParseLimitExceeded = CategoryParse"
| "kind_category BindUnknownLocal = CategoryBind"
| "kind_category BindUnknownObject = CategoryBind"
| "kind_category BindAmbiguousRoutine = CategoryBind"
| "kind_category BindTypeMismatch = CategoryBind"
| "kind_category BindDependencyCycle = CategoryBind"
| "kind_category VerifyCapabilityDenied = CategoryVerify"
| "kind_category VerifyTransactionControlForbidden = CategoryVerify"
| "kind_category VerifyDynamicDdlNotSupported = CategoryVerify"
| "kind_category VerifyUnboundedResult = CategoryVerify"
| "kind_category RuntimeNullNotAllowed = CategoryRuntime"
| "kind_category RuntimeArrayBounds = CategoryRuntime"
| "kind_category RuntimeNumericOverflow = CategoryRuntime"
| "kind_category RuntimeInvalidIr = CategoryRuntime"
| "kind_category RuntimeInvalidArgument = CategoryRuntime"
| "kind_category RuntimeConflict = CategoryRuntime"
| "kind_category RuntimeNotFound = CategoryRuntime"
| "kind_category RuntimeInvalidState = CategoryRuntime"
| "kind_category RuntimeUniqueViolation = CategoryRuntime"
| "kind_category CardinalityNoDataFound = CategoryCardinality"
| "kind_category CardinalityTooManyRows = CategoryCardinality"
| "kind_category SecurityExecuteDenied = CategorySecurity"
| "kind_category SecurityObjectDenied = CategorySecurity"
| "kind_category SecurityUnsafeSearchPath = CategorySecurity"
| "kind_category ResourceInstructions = CategoryResource"
| "kind_category ResourceHeap = CategoryResource"
| "kind_category ResourceRows = CategoryResource"
| "kind_category ResourceBytes = CategoryResource"
| "kind_category ResourceSqlStatements = CategoryResource"
| "kind_category ResourceFrames = CategoryResource"
| "kind_category ResourceDeadline = CategoryResource"
| "kind_category ResourceCancelled = CategoryResource"
| "kind_category TriggerCycle = CategoryTrigger"
| "kind_category TriggerDepth = CategoryTrigger"
| "kind_category TriggerInvalidReturn = CategoryTrigger"
| "kind_category JobAttemptFailed = CategoryJob"

definition kind_retryable :: "diagnostic_kind \<Rightarrow> bool" where
  "kind_retryable k \<longleftrightarrow> k \<in> {ResourceDeadline, ResourceCancelled, JobAttemptFailed}"

section \<open>Diagnostics\<close>

type_synonym object_id = "8 word list"

record source_position =
  pos_line :: nat
  pos_column :: nat

record source_span =
  source_object_id :: object_id
  span_revision :: nat
  start_byte :: nat
  end_byte :: nat
  span_start :: source_position
  span_end :: source_position

record secondary_span =
  sec_label :: string
  sec_span :: source_span

record diagnostic_frame =
  fr_object_id :: object_id
  fr_revision :: nat
  fr_name :: string
  call_span :: "source_span option"

record diagnostic_detail =
  detail_key :: string
  detail_value :: string

record diagnostic =
  diag_kind :: diagnostic_kind
  diag_message :: string
  primary_span :: "source_span option"
  secondary_spans :: "secondary_span list"
  diag_frames :: "diagnostic_frame list"
  diag_details :: "diagnostic_detail list"
  diag_cause :: "diagnostic_kind option"

definition MAX_SECONDARY_SPANS :: nat where "MAX_SECONDARY_SPANS = 16"
definition MAX_DIAGNOSTIC_FRAMES :: nat where "MAX_DIAGNOSTIC_FRAMES = 64"
definition MAX_DIAGNOSTIC_DETAILS :: nat where "MAX_DIAGNOSTIC_DETAILS = 32"
definition MAX_DIAGNOSTIC_TEXT_BYTES :: nat where "MAX_DIAGNOSTIC_TEXT_BYTES = 4096"

definition new_position :: "nat \<Rightarrow> nat \<Rightarrow> source_position option" where
  "new_position line column =
     (if line = 0 \<or> column = 0 then None else Some \<lparr>pos_line = line, pos_column = column\<rparr>)"

definition new_span ::
  "object_id \<Rightarrow> nat \<Rightarrow> nat \<Rightarrow> nat \<Rightarrow> nat \<Rightarrow> nat \<Rightarrow> nat \<Rightarrow> nat \<Rightarrow> source_span option" where
  "new_span oid revision start_b end_b start_line start_column end_line end_column =
     (if revision = 0 \<or> end_b < start_b then None
      else case new_position start_line start_column of None \<Rightarrow> None
      | Some s \<Rightarrow> (case new_position end_line end_column of None \<Rightarrow> None
      | Some e \<Rightarrow> Some \<lparr>source_object_id = oid, span_revision = revision, start_byte = start_b, end_byte = end_b,
                       span_start = s, span_end = e\<rparr>))"

text \<open>A byte position is a character boundary unless it is before a UTF-8 continuation byte.\<close>

definition continuation_byte :: "char \<Rightarrow> bool" where
  "continuation_byte c \<longleftrightarrow> 128 \<le> (of_char c :: nat) \<and> (of_char c :: nat) < 192"

definition is_char_boundary :: "string \<Rightarrow> nat \<Rightarrow> bool" where
  "is_char_boundary s i \<longleftrightarrow> i = 0 \<or> i = length s \<or> (i < length s \<and> \<not> continuation_byte (s ! i))"

fun boundary_below :: "string \<Rightarrow> nat \<Rightarrow> nat" where
  "boundary_below s 0 = 0"
| "boundary_below s (Suc i) = (if is_char_boundary s (Suc i) then Suc i else boundary_below s i)"

definition bounded_text :: "string \<Rightarrow> string" where
  "bounded_text s =
     (if length s \<le> MAX_DIAGNOSTIC_TEXT_BYTES then s else take (boundary_below s MAX_DIAGNOSTIC_TEXT_BYTES) s)"

definition new_diagnostic :: "diagnostic_kind \<Rightarrow> string \<Rightarrow> diagnostic" where
  "new_diagnostic k msg =
     \<lparr>diag_kind = k, diag_message = bounded_text msg, primary_span = None, secondary_spans = [], diag_frames = [],
      diag_details = [], diag_cause = None\<rparr>"

definition with_primary_span :: "source_span option \<Rightarrow> diagnostic \<Rightarrow> diagnostic" where
  "with_primary_span sp d = d\<lparr>primary_span := sp\<rparr>"

definition with_secondary_span :: "string \<Rightarrow> source_span \<Rightarrow> diagnostic \<Rightarrow> diagnostic" where
  "with_secondary_span label sp d =
     (if length (secondary_spans d) < MAX_SECONDARY_SPANS
      then d\<lparr>secondary_spans := secondary_spans d @ [\<lparr>sec_label = bounded_text label, sec_span = sp\<rparr>]\<rparr> else d)"

definition with_frame :: "diagnostic_frame \<Rightarrow> diagnostic \<Rightarrow> diagnostic" where
  "with_frame fr d =
     (if length (diag_frames d) < MAX_DIAGNOSTIC_FRAMES
      then d\<lparr>diag_frames := diag_frames d @ [fr\<lparr>fr_name := bounded_text (fr_name fr)\<rparr>]\<rparr> else d)"

definition with_outer_frame :: "diagnostic_frame \<Rightarrow> diagnostic \<Rightarrow> diagnostic" where
  "with_outer_frame fr d =
     (if length (diag_frames d) < MAX_DIAGNOSTIC_FRAMES
      then d\<lparr>diag_frames := fr\<lparr>fr_name := bounded_text (fr_name fr)\<rparr> # diag_frames d\<rparr> else d)"

definition with_detail :: "string \<Rightarrow> string \<Rightarrow> diagnostic \<Rightarrow> diagnostic" where
  "with_detail k v d =
     (if length (diag_details d) < MAX_DIAGNOSTIC_DETAILS
      then d\<lparr>diag_details := diag_details d @ [\<lparr>detail_key = bounded_text k, detail_value = bounded_text v\<rparr>]\<rparr> else d)"

definition with_cause :: "diagnostic_kind \<Rightarrow> diagnostic \<Rightarrow> diagnostic" where
  "with_cause k d = d\<lparr>diag_cause := Some k\<rparr>"

definition attach_span :: "source_span option \<Rightarrow> diagnostic \<Rightarrow> diagnostic" where
  "attach_span sp d = (if primary_span d = None then with_primary_span sp d else d)"

definition invalid_runtime :: "string \<Rightarrow> diagnostic" where
  "invalid_runtime msg = new_diagnostic RuntimeInvalidIr msg"

definition to_display :: "diagnostic \<Rightarrow> string" where
  "to_display d = kind_as_str (diag_kind d) @ '': '' @ diag_message d"

section \<open>Sizes\<close>

lemma boundary_below_le: "boundary_below s i \<le> i"
  by (induction i) simp_all

lemma boundary_below_boundary: "is_char_boundary s (boundary_below s i)"
  by (induction i) (simp_all, simp add: is_char_boundary_def)

lemma bounded_text_length [simp]: "length (bounded_text s) \<le> MAX_DIAGNOSTIC_TEXT_BYTES"
  using boundary_below_le [of s MAX_DIAGNOSTIC_TEXT_BYTES] by (simp add: bounded_text_def)

text \<open>What the builder can make of a new diagnostic.\<close>

inductive built :: "diagnostic \<Rightarrow> bool" where
  "built (new_diagnostic k msg)"
| "built d \<Longrightarrow> built (with_primary_span sp d)"
| "built d \<Longrightarrow> built (with_secondary_span label span d)"
| "built d \<Longrightarrow> built (with_frame fr d)"
| "built d \<Longrightarrow> built (with_outer_frame fr d)"
| "built d \<Longrightarrow> built (with_detail key val d)"
| "built d \<Longrightarrow> built (with_cause k d)"

definition diagnostic_bounded :: "diagnostic \<Rightarrow> bool" where
  "diagnostic_bounded d \<longleftrightarrow>
     length (diag_message d) \<le> 4096 \<and>
     length (secondary_spans d) \<le> 16 \<and> list_all (\<lambda>s. length (sec_label s) \<le> 4096) (secondary_spans d) \<and>
     length (diag_frames d) \<le> 64 \<and> list_all (\<lambda>f. length (fr_name f) \<le> 4096) (diag_frames d) \<and>
     length (diag_details d) \<le> 32 \<and>
     list_all (\<lambda>e. length (detail_key e) \<le> 4096 \<and> length (detail_value e) \<le> 4096) (diag_details d)"

lemmas builder_defs = new_diagnostic_def with_primary_span_def with_secondary_span_def with_frame_def with_outer_frame_def
  with_detail_def with_cause_def

text \<open>
  C35. However a diagnostic is built, from whatever texts, it stays small: every text has at most 4096 bytes, and there are at most
  16 secondary spans, 64 frames and 32 details. A text that is cut is cut at a character boundary.\<close>

theorem built_diagnostic_bounded:
  "(built d \<longrightarrow> diagnostic_bounded d) \<and>
   (\<exists>n. bounded_text s = take n s \<and> is_char_boundary s n)"
proof (rule conjI)
  have t: "length (bounded_text u) \<le> 4096" for u using bounded_text_length [of u] by (simp add: MAX_DIAGNOSTIC_TEXT_BYTES_def)
  show "built d \<longrightarrow> diagnostic_bounded d"
  proof
    assume "built d"
    then show "diagnostic_bounded d"
      by induction (auto simp: diagnostic_bounded_def builder_defs t MAX_SECONDARY_SPANS_def MAX_DIAGNOSTIC_FRAMES_def MAX_DIAGNOSTIC_DETAILS_def)
  qed
  show "\<exists>n. bounded_text s = take n s \<and> is_char_boundary s n"
    using boundary_below_boundary [of s MAX_DIAGNOSTIC_TEXT_BYTES] by (auto simp: bounded_text_def is_char_boundary_def intro: exI [of _ "length s"])
qed

theorem built_diagnostic_bounded_witness:
  "diagnostic_bounded (with_detail ''slot'' (replicate 5000 CHR 0x61) (new_diagnostic RuntimeInvalidIr ''m''))"
proof -
  have "built (with_detail ''slot'' (replicate 5000 CHR 0x61) (new_diagnostic RuntimeInvalidIr ''m''))" by (intro built.intros)
  then show ?thesis using built_diagnostic_bounded by blast
qed

end
