(* ===== verification/Proc_Budget.thy ===== *)
theory Proc_Budget
  imports Proc_Diagnostic
begin

text \<open>
  The resource owner of a procedural call, after \<open>crates/radixdb-procedural/src/budget.rs\<close> and the policy of
  \<open>crates/radixdb-catalog/src/payload/routine.rs\<close>. The owner is shared by a top-level call and everything it enters, so the
  model passes one budget through all of them. What other threads and the clock decide, whether the call is cancelled
  and how long it has run, is read at each boundary check: the budget carries both as functions of the number of the
  check. A host call is a finite dialogue with the budget, a \<open>session\<close>. The main facts are that no dialogue makes a meter
  exceed its limit, and that none ever lowers the instruction meter.
\<close>

section \<open>Policies\<close>

record resource_policy =
  lim_instructions :: nat
  lim_heap_bytes :: nat
  lim_frames :: nat
  lim_sql_statements :: nat
  lim_rows :: nat
  lim_result_bytes :: nat
  lim_deadline_ms :: nat

definition default_call :: resource_policy where
  "default_call =
     \<lparr>lim_instructions = 10000000, lim_heap_bytes = 64 * 1024 * 1024, lim_frames = 64, lim_sql_statements = 100000,
      lim_rows = 1000000, lim_result_bytes = 256 * 1024 * 1024, lim_deadline_ms = 60000\<rparr>"

definition default_job :: resource_policy where
  "default_job = default_call\<lparr>lim_deadline_ms := 15 * 60 * 1000\<rparr>"

definition validate_policy :: "resource_policy \<Rightarrow> (string, resource_policy) result" where
  "validate_policy p =
     (if lim_instructions p = 0 \<or> lim_instructions p > 1000000000 \<or>
         lim_heap_bytes p = 0 \<or> lim_heap_bytes p > 256 * 1024 * 1024 \<or>
         lim_frames p = 0 \<or> lim_frames p > 256 \<or>
         lim_sql_statements p = 0 \<or> lim_sql_statements p > 10000000 \<or>
         lim_rows p = 0 \<or> lim_rows p > 10000000 \<or>
         lim_result_bytes p = 0 \<or> lim_result_bytes p > 1024 * 1024 * 1024 \<or>
         lim_deadline_ms p = 0 \<or> lim_deadline_ms p > 86400000
      then Inl ''resource policy is zero or exceeds a hard ceiling''
      else Inr p)"

section \<open>The budget\<close>

record budget_snapshot =
  instructions :: nat
  heap_bytes :: nat
  live_frames :: nat
  sql_statements :: nat
  rows :: nat
  result_bytes :: nat

record budget =
  limits :: resource_policy
  usage :: budget_snapshot
  polls :: nat
  cancelled_at :: "nat \<Rightarrow> bool"
  elapsed_at :: "nat \<Rightarrow> nat"

definition empty_snapshot :: budget_snapshot where
  "empty_snapshot =
     \<lparr>instructions = 0, heap_bytes = 0, live_frames = 0, sql_statements = 0, rows = 0, result_bytes = 0\<rparr>"

definition new_budget :: "resource_policy \<Rightarrow> (nat \<Rightarrow> bool) \<Rightarrow> (nat \<Rightarrow> nat) \<Rightarrow> (diagnostic, budget) result" where
  "new_budget policy cancelled elapsed =
     (case validate_policy policy of
        Inl err \<Rightarrow> Inl (new_diagnostic RuntimeInvalidIr (''invalid catalog resource policy: '' @ err))
      | Inr lims \<Rightarrow> Inr \<lparr>limits = lims, usage = empty_snapshot, polls = 0, cancelled_at = cancelled, elapsed_at = elapsed\<rparr>)"

text \<open>The decimal rendering of a number, as \<open>to_string\<close> does it.\<close>

fun nat_to_string :: "nat \<Rightarrow> string" where
  "nat_to_string n =
     (if n < 10 then [''0123456789'' ! n] else nat_to_string (n div 10) @ [''0123456789'' ! (n mod 10)])"

declare nat_to_string.simps [simp del]

definition limit_error :: "diagnostic_kind \<Rightarrow> string \<Rightarrow> nat \<Rightarrow> nat \<Rightarrow> diagnostic" where
  "limit_error k msg attempted lim =
     with_detail ''limit'' (nat_to_string lim)
       (with_detail ''attempted'' (nat_to_string attempted) (new_diagnostic k msg))"

type_synonym 'a budgeted = "budget \<Rightarrow> (diagnostic, 'a) result \<times> budget"

definition poll :: "budget \<Rightarrow> budget" where
  "poll b = b\<lparr>polls := polls b + 1\<rparr>"

definition deadline_nanos :: "budget \<Rightarrow> nat" where
  "deadline_nanos b = lim_deadline_ms (limits b) * 1000000"

definition check_boundary :: "unit budgeted" where
  "check_boundary b =
     (if cancelled_at b (polls b) then (Inl (new_diagnostic ResourceCancelled ''procedural call was cancelled''), poll b)
      else if deadline_nanos b \<le> elapsed_at b (polls b)
      then (Inl (new_diagnostic ResourceDeadline ''procedural call deadline expired''), poll b)
      else (Inr (), poll b))"

definition remaining_deadline :: "nat budgeted" where
  "remaining_deadline b =
     (case check_boundary b of
        (Inl d, b1) \<Rightarrow> (Inl d, b1)
      | (Inr _, b1) \<Rightarrow>
          if deadline_nanos b1 < elapsed_at b1 (polls b1)
          then (Inl (new_diagnostic ResourceDeadline ''procedural call deadline expired''), poll b1)
          else (Inr (deadline_nanos b1 - elapsed_at b1 (polls b1)), poll b1))"

text \<open>
  \<open>charge_u64\<close>: a checked addition on one meter. The code selects the meter by a closure; the model takes the reading and the
  update of that meter.
\<close>

definition charge_u64 ::
  "nat \<Rightarrow> nat \<Rightarrow> diagnostic_kind \<Rightarrow> nat \<Rightarrow> (nat \<Rightarrow> budget \<Rightarrow> budget) \<Rightarrow> string \<Rightarrow> unit budgeted" where
  "charge_u64 amount lim k counter set_counter msg b =
     (case checked_add_u64 counter amount of
        None \<Rightarrow> (Inl (limit_error k msg u64_max lim), b)
      | Some attempted \<Rightarrow>
          if attempted > lim then (Inl (limit_error k msg attempted lim), b) else (Inr (), set_counter attempted b))"

definition charge_instructions :: "nat \<Rightarrow> unit budgeted" where
  "charge_instructions amount b =
     charge_u64 amount (lim_instructions (limits b)) ResourceInstructions (instructions (usage b))
       (\<lambda>n b. b\<lparr>usage := usage b\<lparr>instructions := n\<rparr>\<rparr>) ''executed instruction budget exceeded'' b"

definition charge_sql_statement :: "unit budgeted" where
  "charge_sql_statement b =
     charge_u64 1 (lim_sql_statements (limits b)) ResourceSqlStatements (sql_statements (usage b))
       (\<lambda>n b. b\<lparr>usage := usage b\<lparr>sql_statements := n\<rparr>\<rparr>) ''SQL statement budget exceeded'' b"

definition charge_rows :: "nat \<Rightarrow> unit budgeted" where
  "charge_rows n b =
     charge_u64 n (lim_rows (limits b)) ResourceRows (rows (usage b))
       (\<lambda>n b. b\<lparr>usage := usage b\<lparr>rows := n\<rparr>\<rparr>) ''row budget exceeded'' b"

definition charge_result_bytes :: "nat \<Rightarrow> unit budgeted" where
  "charge_result_bytes bytes b =
     charge_u64 bytes (lim_result_bytes (limits b)) ResourceBytes (result_bytes (usage b))
       (\<lambda>n b. b\<lparr>usage := usage b\<lparr>result_bytes := n\<rparr>\<rparr>) ''result byte budget exceeded'' b"

definition charge_heap :: "nat \<Rightarrow> unit budgeted" where
  "charge_heap bytes b =
     charge_u64 bytes (lim_heap_bytes (limits b)) ResourceHeap (heap_bytes (usage b))
       (\<lambda>n b. b\<lparr>usage := usage b\<lparr>heap_bytes := n\<rparr>\<rparr>) ''procedural heap budget exceeded'' b"

definition release_heap :: "nat \<Rightarrow> budget \<Rightarrow> budget" where
  "release_heap bytes b = b\<lparr>usage := usage b\<lparr>heap_bytes := heap_bytes (usage b) - bytes\<rparr>\<rparr>"

definition u32_max :: nat where "u32_max = 2 ^ 32 - 1"

definition enter_frame :: "unit budgeted" where
  "enter_frame b =
     (case check_boundary b of
        (Inl d, b1) \<Rightarrow> (Inl d, b1)
      | (Inr _, b1) \<Rightarrow>
          if u32_max < live_frames (usage b1) + 1
          then (Inl (new_diagnostic ResourceFrames ''frame counter overflow''), b1)
          else if live_frames (usage b1) + 1 > lim_frames (limits b1)
          then (Inl (limit_error ResourceFrames ''live frame budget exceeded'' (live_frames (usage b1) + 1) (lim_frames (limits b1))), b1)
          else (Inr (), b1\<lparr>usage := usage b1\<lparr>live_frames := live_frames (usage b1) + 1\<rparr>\<rparr>))"

definition leave_frame :: "budget \<Rightarrow> budget" where
  "leave_frame b = b\<lparr>usage := usage b\<lparr>live_frames := live_frames (usage b) - 1\<rparr>\<rparr>"

section \<open>Dialogues with the budget\<close>

text \<open>
  The runtime hands its host a reference to the budget. A session is what the host does with it: a finite tree of requests, each
  continued by the answer, that ends with a value. Everything the budget offers to its clients is a request.
\<close>

datatype budget_op =
    ChargeInstructions nat
  | ChargeSqlStatement
  | ChargeRows nat
  | ChargeResultBytes nat
  | ChargeHeap nat
  | ReleaseHeap nat
  | CheckBoundary
  | RemainingDeadline
  | EnterFrame
  | LeaveFrame

definition unit_answer :: "(diagnostic, unit) result \<times> 's \<Rightarrow> (diagnostic, nat) result \<times> 's" where
  "unit_answer p = (case p of (Inl d, s) \<Rightarrow> (Inl d, s) | (Inr _, s) \<Rightarrow> (Inr 0, s))"

fun budget_step :: "budget_op \<Rightarrow> nat budgeted" where
  "budget_step (ChargeInstructions n) b = unit_answer (charge_instructions n b)"
| "budget_step ChargeSqlStatement b = unit_answer (charge_sql_statement b)"
| "budget_step (ChargeRows n) b = unit_answer (charge_rows n b)"
| "budget_step (ChargeResultBytes n) b = unit_answer (charge_result_bytes n b)"
| "budget_step (ChargeHeap n) b = unit_answer (charge_heap n b)"
| "budget_step (ReleaseHeap n) b = (Inr 0, release_heap n b)"
| "budget_step CheckBoundary b = unit_answer (check_boundary b)"
| "budget_step RemainingDeadline b = remaining_deadline b"
| "budget_step EnterFrame b = unit_answer (enter_frame b)"
| "budget_step LeaveFrame b = (Inr 0, leave_frame b)"

datatype ('c, 'a) session = Finish 'a | Ask 'c "(diagnostic, nat) result \<Rightarrow> ('c, 'a) session"

primrec run_session :: "('c \<Rightarrow> 's \<Rightarrow> (diagnostic, nat) result \<times> 's) \<Rightarrow> ('c, 'a) session \<Rightarrow> 's \<Rightarrow> 'a \<times> 's" where
  "run_session step (Finish x) s = (x, s)"
| "run_session step (Ask c k) s = (case step c s of (r, s1) \<Rightarrow> run_session step (k r) s1)"

section \<open>Limits\<close>

text \<open>Every meter within its limit.\<close>

definition within_limits :: "budget \<Rightarrow> bool" where
  "within_limits b \<longleftrightarrow>
     instructions (usage b) \<le> lim_instructions (limits b) \<and> heap_bytes (usage b) \<le> lim_heap_bytes (limits b) \<and>
     live_frames (usage b) \<le> lim_frames (limits b) \<and> sql_statements (usage b) \<le> lim_sql_statements (limits b) \<and>
     rows (usage b) \<le> lim_rows (limits b) \<and> result_bytes (usage b) \<le> lim_result_bytes (limits b)"

text \<open>
  A budget step: the limits and the environment are the same, the monotone meters do not fall, and the meters stay within their
  limits if they were. Every operation is one.
\<close>

definition spends :: "budget \<Rightarrow> budget \<Rightarrow> bool" where
  "spends b b' \<longleftrightarrow>
     limits b' = limits b \<and> cancelled_at b' = cancelled_at b \<and> elapsed_at b' = elapsed_at b \<and> polls b \<le> polls b' \<and>
     instructions (usage b) \<le> instructions (usage b') \<and> sql_statements (usage b) \<le> sql_statements (usage b') \<and>
     rows (usage b) \<le> rows (usage b') \<and> result_bytes (usage b) \<le> result_bytes (usage b') \<and>
     (within_limits b \<longrightarrow> within_limits b')"

named_theorems budget_defs \<open>definitions of the budget operations\<close>

lemmas [budget_defs] = charge_instructions_def charge_sql_statement_def charge_rows_def charge_result_bytes_def charge_heap_def
  charge_u64_def release_heap_def check_boundary_def poll_def leave_frame_def

named_theorems spends_intros \<open>operations as budget steps\<close>

lemma spends_refl [simp, spends_intros]: "spends b b"
  by (simp add: spends_def)

lemma spends_trans [trans]: "spends a b \<Longrightarrow> spends b c \<Longrightarrow> spends a c"
  by (auto simp: spends_def)

lemma charge_spends [spends_intros]:
  "spends b (snd (charge_instructions n b))" "spends b (snd (charge_sql_statement b))" "spends b (snd (charge_rows n b))"
  "spends b (snd (charge_result_bytes n b))" "spends b (snd (charge_heap n b))" "spends b (release_heap n b)"
  "spends b (snd (check_boundary b))" "spends b (leave_frame b)"
  by (auto simp: budget_defs spends_def within_limits_def split: option.splits)

lemma remaining_deadline_spends [spends_intros]: "spends b (snd (remaining_deadline b))"
  by (auto simp: remaining_deadline_def budget_defs spends_def within_limits_def split: if_splits)

lemma enter_frame_spends [spends_intros]: "spends b (snd (enter_frame b))"
  by (auto simp: enter_frame_def budget_defs spends_def within_limits_def split: if_splits)

lemma snd_unit_answer [simp]: "snd (unit_answer p) = snd p"
  by (auto simp: unit_answer_def split: prod.splits sum.splits)

lemma budget_step_spends [spends_intros]: "spends b (snd (budget_step op b))"
  by (cases op) (simp_all add: spends_intros)

lemma run_session_rel:
  assumes "\<And>s. R s s" "\<And>a b c. R a b \<Longrightarrow> R b c \<Longrightarrow> R a c" "\<And>c s. R s (snd (step c s))"
  shows "R s (snd (run_session step x s))"
proof (induction x arbitrary: s)
  case (Ask c k)
  obtain r s1 where st: "step c s = (r, s1)" by (rule prod.exhaust)
  have "R s s1" using assms(3) [of s c] st by simp
  moreover have "R s1 (snd (run_session step (k r) s1))" by (rule Ask) simp
  ultimately show ?case using assms(2) st by simp
qed (simp add: assms(1))

lemma session_spends [spends_intros]: "spends b (snd (run_session budget_step x b))"
  by (rule run_session_rel) (auto intro: spends_trans spends_intros)

text \<open>An accepted charge on the instruction meter: the measure of every loop of the interpreter.\<close>

definition fuel_left :: "budget \<Rightarrow> nat" where
  "fuel_left b = lim_instructions (limits b) - instructions (usage b)"

lemma charge_instructions_fuel:
  "charge_instructions n b = (Inr u, b') \<Longrightarrow> 0 < n \<Longrightarrow> fuel_left b' < fuel_left b"
  by (auto simp: budget_defs fuel_left_def split: option.splits if_splits)

lemma spends_fuel: "spends b b' \<Longrightarrow> fuel_left b' \<le> fuel_left b"
  by (auto simp: spends_def fuel_left_def)

lemma new_budget_within: "new_budget policy cancelled elapsed = Inr b \<Longrightarrow> within_limits b"
  by (auto simp: new_budget_def within_limits_def empty_snapshot_def split: sum.splits)

end
