(* ===== verification/Proc_Value.thy ===== *)
theory Proc_Value
  imports Proc_Budget Bytes
begin

text \<open>
  Types and values of the procedural runtime, after \<open>crates/radixdb-procedural/src/value.rs\<close>, with the parts of
  \<open>crates/radixdb-core/src/value/mod.rs\<close>, \<open>crates/radixdb-core/src/types.rs\<close>, \<open>crates/radixdb-catalog/src/name.rs\<close> and
  \<open>crates/radixdb-catalog/src/payload/data_type.rs\<close> that they rest on: the shape of a SQL value, the catalog descriptor of
  a type, and the admission test \<open>accepts\<close> that guards every assignment. JSON parsing, calendar ranges, Unicode
  normalisation and the answers of the memory allocator come from outside the repository and are the fields of one
  argument.
\<close>

section \<open>Code outside the repository\<close>

record external_code =
  json_document :: "byte list \<Rightarrow> bool"
  civil_instant :: "int \<Rightarrow> bool"
  unicode_nfc :: "string \<Rightarrow> string"
  unicode_lowercase_nfc :: "string \<Rightarrow> string"
  vec_capacity :: "nat \<Rightarrow> nat"
  alloc_fails :: "nat \<Rightarrow> bool"

section \<open>SQL values\<close>

datatype data_type =
    DtNull
  | DtInteger
  | DtFloat
  | DtText
  | DtBoolean
  | DtTimestamp
  | DtJson
  | DtVector
  | DtUuid
  | DtDecimal
  | DtDate
  | DtBytes
  | DtCivilTimestamp
  | DtTime

definition data_type_from_u8 :: "byte \<Rightarrow> data_type option" where
  "data_type_from_u8 b =
     (let n = unat b
      in if n < 14
         then Some ([DtNull, DtInteger, DtFloat, DtText, DtBoolean, DtTimestamp, DtJson, DtVector, DtUuid, DtDecimal, DtDate,
                     DtBytes, DtCivilTimestamp, DtTime] ! n)
         else None)"

datatype sql_value =
    VNull data_type
  | VInteger int
  | VFloat "64 word"
  | VText string
  | VBoolean bool
  | VTimestamp int
  | VExtension "byte list"

fun value_data_type :: "sql_value \<Rightarrow> data_type" where
  "value_data_type (VNull dt) = dt"
| "value_data_type (VInteger _) = DtInteger"
| "value_data_type (VFloat _) = DtFloat"
| "value_data_type (VText _) = DtText"
| "value_data_type (VBoolean _) = DtBoolean"
| "value_data_type (VTimestamp _) = DtTimestamp"
| "value_data_type (VExtension bs) =
     (case bs of [] \<Rightarrow> DtNull
      | tag # _ \<Rightarrow> (case data_type_from_u8 tag of None \<Rightarrow> DtNull | Some dt \<Rightarrow> dt))"

fun value_is_null :: "sql_value \<Rightarrow> bool" where
  "value_is_null (VNull _) = True"
| "value_is_null _ = False"

definition EXTERNAL_VALUE_MARKER :: byte where "EXTERNAL_VALUE_MARKER = 255"
definition EXTERNAL_VALUE_HEADER_BYTES :: nat where "EXTERNAL_VALUE_HEADER_BYTES = 1 + 16 + 4"
definition MAX_EXTERNAL_VALUE_BYTES :: nat where "MAX_EXTERNAL_VALUE_BYTES = 16 * 1024 * 1024"
definition MAX_DECIMAL_PRECISION :: nat where "MAX_DECIMAL_PRECISION = 38"
definition NANOS_PER_DAY :: int where "NANOS_PER_DAY = 86400 * 1000000000"

definition le_signed :: "byte list \<Rightarrow> int" where
  "le_signed bs =
     (let n = le_nat bs; w = 8 * length bs in if n < 2 ^ (w - 1) then int n else int n - 2 ^ w)"

definition validate_decimal_shape :: "int \<Rightarrow> nat \<Rightarrow> nat \<Rightarrow> bool" where
  "validate_decimal_shape unscaled precision scale \<longleftrightarrow>
     1 \<le> precision \<and> precision \<le> MAX_DECIMAL_PRECISION \<and> scale \<le> precision \<and>
     max (length (nat_to_string (nat \<bar>unscaled\<bar>))) 1 \<le> precision"

definition temporal_payload_nanos :: "byte list \<Rightarrow> int option" where
  "temporal_payload_nanos payload = (if length payload = 8 then Some (le_signed payload) else None)"

fun validate_extension_payload :: "external_code \<Rightarrow> data_type \<Rightarrow> byte list \<Rightarrow> bool" where
  "validate_extension_payload x DtJson payload = json_document x payload"
| "validate_extension_payload x DtVector payload = (4 dvd length payload)"
| "validate_extension_payload x DtUuid payload = (length payload = 16)"
| "validate_extension_payload x DtDecimal payload =
     (length payload = 18 \<and>
      validate_decimal_shape (le_signed (take 16 payload)) (unat (payload ! 16)) (unat (payload ! 17)))"
| "validate_extension_payload x DtDate payload = (length payload = 4)"
| "validate_extension_payload x DtBytes payload = True"
| "validate_extension_payload x DtCivilTimestamp payload =
     (case temporal_payload_nanos payload of None \<Rightarrow> False | Some nanos \<Rightarrow> civil_instant x nanos)"
| "validate_extension_payload x DtTime payload =
     (case temporal_payload_nanos payload of None \<Rightarrow> False | Some nanos \<Rightarrow> 0 \<le> nanos \<and> nanos < NANOS_PER_DAY)"
| "validate_extension_payload x _ payload = False"

text \<open>The envelope of an external value: marker, 16-byte type identity, codec version, payload.\<close>

definition as_external :: "byte list \<Rightarrow> (byte list \<times> nat \<times> byte list) option" where
  "as_external bs =
     (if bs = [] \<or> hd bs \<noteq> EXTERNAL_VALUE_MARKER \<or> length bs < EXTERNAL_VALUE_HEADER_BYTES then None
      else let oid = take 16 (drop 1 bs); codec = le_nat (take 4 (drop 17 bs))
           in if oid = replicate 16 0 \<or> codec = 0 then None
              else Some (oid, codec, drop EXTERNAL_VALUE_HEADER_BYTES bs))"

fun validate_shape :: "external_code \<Rightarrow> sql_value \<Rightarrow> bool" where
  "validate_shape x (VExtension bs) =
     (case bs of [] \<Rightarrow> False
      | tag # payload \<Rightarrow>
          if tag = EXTERNAL_VALUE_MARKER
          then (case as_external bs of None \<Rightarrow> False | Some (_, _, p) \<Rightarrow> length p \<le> MAX_EXTERNAL_VALUE_BYTES)
          else (case data_type_from_u8 tag of None \<Rightarrow> False | Some dt \<Rightarrow> validate_extension_payload x dt payload))"
| "validate_shape x _ = True"

fun as_bytes_value :: "sql_value \<Rightarrow> byte list option" where
  "as_bytes_value (VExtension (tag # payload)) = (if tag = 11 then Some payload else None)"
| "as_bytes_value _ = None"

section \<open>Catalog descriptors and names\<close>

record catalog_data_type =
  logical_type :: data_type
  descriptor_version :: nat
  parameter_1 :: nat
  parameter_2 :: nat
  type_object_id :: object_id

definition scalar_descriptor :: "data_type \<Rightarrow> catalog_data_type" where
  "scalar_descriptor dt =
     \<lparr>logical_type = dt, descriptor_version = 1, parameter_1 = 0, parameter_2 = 0, type_object_id = replicate 16 0\<rparr>"

record catalog_name =
  display_name :: string
  normalized_name :: string

definition MAX_NORMALIZED_NAME_BYTES :: nat where "MAX_NORMALIZED_NAME_BYTES = 1024"
definition MAX_DISPLAY_NAME_BYTES :: nat where "MAX_DISPLAY_NAME_BYTES = 4096"

datatype catalog_error =
    EmptyName
  | EmbeddedNameNul
  | DisplayNameTooLong nat nat
  | NormalizedNameTooLong nat nat

definition new_display_name :: "external_code \<Rightarrow> string \<Rightarrow> (catalog_error, string) result" where
  "new_display_name x s =
     (if s = [] then Inl EmptyName
      else if CHR 0x00 \<in> set s then Inl EmbeddedNameNul
      else let v = unicode_nfc x s
           in if length v > MAX_DISPLAY_NAME_BYTES then Inl (DisplayNameTooLong (length v) MAX_DISPLAY_NAME_BYTES) else Inr v)"

definition normalized_from_display :: "external_code \<Rightarrow> string \<Rightarrow> (catalog_error, string) result" where
  "normalized_from_display x s =
     (let v = unicode_lowercase_nfc x s
      in if v = [] then Inl EmptyName
         else if length v > MAX_NORMALIZED_NAME_BYTES then Inl (NormalizedNameTooLong (length v) MAX_NORMALIZED_NAME_BYTES)
         else Inr v)"

definition new_catalog_name :: "external_code \<Rightarrow> string \<Rightarrow> (catalog_error, catalog_name) result" where
  "new_catalog_name x s =
     rbind (new_display_name x s) (\<lambda>d.
     rbind (normalized_from_display x d) (\<lambda>n. Inr \<lparr>display_name = d, normalized_name = n\<rparr>))"

section \<open>Runtime types and values\<close>

definition MAX_RECORD_FIELDS :: nat where "MAX_RECORD_FIELDS = 4096"
definition MAX_COLLECTION_CAPACITY :: nat where "MAX_COLLECTION_CAPACITY = 65536"

record record_field =
  field_name :: catalog_name
  field_type :: catalog_data_type
  field_nullable :: bool

datatype runtime_type =
    ScalarT catalog_data_type bool
  | RecordT "record_field list" bool
  | CollectionT catalog_data_type nat
  | SqlIdentifierT

text \<open>A vector is its elements with its capacity, which the heap accounting reads.\<close>

datatype runtime_value =
    ScalarV sql_value
  | RecordV nat "sql_value option list"
  | NullRecord
  | CollectionV nat "sql_value list"
  | SqlIdentifierV string

text \<open>\<open>clone\<close>: the copy of a vector has the capacity it needs.\<close>

fun clone_value :: "runtime_value \<Rightarrow> runtime_value" where
  "clone_value (RecordV _ vs) = RecordV (length vs) vs"
| "clone_value (CollectionV _ vs) = CollectionV (length vs) vs"
| "clone_value v = v"

definition record_type :: "bool \<Rightarrow> record_field list \<Rightarrow> (diagnostic, runtime_type) result" where
  "record_type nullable fs =
     (if fs = [] \<or> length fs > MAX_RECORD_FIELDS
      then Inl (new_diagnostic RuntimeInvalidIr ''record field count is outside the admitted range'')
      else if \<not> distinct (map (normalized_name \<circ> field_name) fs)
      then Inl (new_diagnostic RuntimeInvalidIr ''record field names are not unique'')
      else Inr (RecordT fs nullable))"

definition collection_type :: "catalog_data_type \<Rightarrow> nat \<Rightarrow> (diagnostic, runtime_type) result" where
  "collection_type element capacity =
     (if \<not> (1 \<le> capacity \<and> capacity \<le> MAX_COLLECTION_CAPACITY)
      then Inl (new_diagnostic RuntimeInvalidIr ''collection capacity is outside 1..=65536'')
      else Inr (CollectionT element capacity))"

fun validate_type :: "runtime_type \<Rightarrow> (diagnostic, unit) result" where
  "validate_type (ScalarT _ _) = Inr ()"
| "validate_type (RecordT fs _) =
     (if fs = [] \<or> length fs > MAX_RECORD_FIELDS
      then Inl (new_diagnostic RuntimeInvalidIr ''record field count is outside the admitted range'')
      else if \<not> distinct (map (normalized_name \<circ> field_name) fs)
      then Inl (new_diagnostic RuntimeInvalidIr ''record field names are not unique'')
      else Inr ())"
| "validate_type (CollectionT _ capacity) =
     (if 1 \<le> capacity \<and> capacity \<le> MAX_COLLECTION_CAPACITY then Inr ()
      else Inl (new_diagnostic RuntimeInvalidIr ''collection capacity is outside 1..=65536''))"
| "validate_type SqlIdentifierT = Inr ()"

definition scalar_accepts :: "external_code \<Rightarrow> catalog_data_type \<Rightarrow> bool \<Rightarrow> sql_value \<Rightarrow> bool" where
  "scalar_accepts x expected nullable v \<longleftrightarrow>
     (if value_is_null v
      then nullable \<and> (value_data_type v = DtNull \<or> value_data_type v = logical_type expected)
      else validate_shape x v \<and> value_data_type v = logical_type expected)"

fun accepts :: "external_code \<Rightarrow> runtime_type \<Rightarrow> runtime_value \<Rightarrow> bool" where
  "accepts x (ScalarT dt nullable) (ScalarV v) = scalar_accepts x dt nullable v"
| "accepts x (RecordT fs nullable) (RecordV _ vs) =
     list_all2 (\<lambda>f v. case v of None \<Rightarrow> True | Some u \<Rightarrow> scalar_accepts x (field_type f) (field_nullable f) u) fs vs"
| "accepts x (RecordT _ nullable) NullRecord = nullable"
| "accepts x (CollectionT element capacity) (CollectionV _ vs) =
     (length vs \<le> capacity \<and> (\<forall>v \<in> set vs. scalar_accepts x element True v))"
| "accepts x SqlIdentifierT (SqlIdentifierV _) = True"
| "accepts x _ _ = False"

fun null_value :: "runtime_type \<Rightarrow> (diagnostic, runtime_value) result" where
  "null_value (ScalarT dt nullable) =
     (if nullable then Inr (ScalarV (VNull (logical_type dt)))
      else Inl (new_diagnostic RuntimeNullNotAllowed ''NULL cannot be assigned to a NOT NULL slot''))"
| "null_value (RecordT fs nullable) =
     (if nullable then Inr NullRecord else Inr (RecordV (length fs) (replicate (length fs) None)))"
| "null_value (CollectionT _ _) = Inr (CollectionV 0 [])"
| "null_value SqlIdentifierT =
     Inl (new_diagnostic RuntimeNullNotAllowed ''SQL identifier fragments cannot be NULL'')"

fun scalar_owned_bytes :: "sql_value \<Rightarrow> nat" where
  "scalar_owned_bytes (VText s) = length s"
| "scalar_owned_bytes (VExtension bs) = length bs"
| "scalar_owned_bytes _ = 0"

definition VALUE_SIZE :: nat where "VALUE_SIZE = 16"

fun owned_bytes :: "runtime_value \<Rightarrow> nat" where
  "owned_bytes (ScalarV v) = scalar_owned_bytes v"
| "owned_bytes (RecordV capacity vs) =
     fold (\<lambda>v total. case v of None \<Rightarrow> total | Some u \<Rightarrow> saturating_add_u64 total (scalar_owned_bytes u)) vs
       (saturating_mul_u64 capacity VALUE_SIZE)"
| "owned_bytes NullRecord = 0"
| "owned_bytes (CollectionV capacity vs) =
     fold (\<lambda>v total. saturating_add_u64 total (scalar_owned_bytes v)) vs (saturating_mul_u64 capacity VALUE_SIZE)"
| "owned_bytes (SqlIdentifierV s) = length s"

lemma accepts_clone [simp]: "accepts x t (clone_value v) = accepts x t v"
  by (cases v; cases t) simp_all

lemma null_value_accepted: "null_value t = Inr v \<Longrightarrow> accepts x t v"
  by (cases t) (auto simp: scalar_accepts_def list_all2_conv_all_nth split: if_splits)

lemma accepts_ScalarT: "accepts x (ScalarT dt n) v \<longleftrightarrow> (\<exists>u. v = ScalarV u \<and> scalar_accepts x dt n u)"
  by (cases v) simp_all

lemma accepts_RecordT:
  "accepts x (RecordT fs n) v \<longleftrightarrow> n \<and> v = NullRecord \<or>
     (\<exists>c vs. v = RecordV c vs \<and>
        list_all2 (\<lambda>f v. case v of None \<Rightarrow> True | Some u \<Rightarrow> scalar_accepts x (field_type f) (field_nullable f) u) fs vs)"
  by (cases v) simp_all

lemma accepts_CollectionT:
  "accepts x (CollectionT dt c) v \<longleftrightarrow> (\<exists>k vs. v = CollectionV k vs \<and> length vs \<le> c \<and> (\<forall>u \<in> set vs. scalar_accepts x dt True u))"
  by (cases v) simp_all

lemma accepts_SqlIdentifierT: "accepts x SqlIdentifierT v \<longleftrightarrow> (\<exists>s. v = SqlIdentifierV s)"
  by (cases v) simp_all

lemmas accepts_iff = accepts_ScalarT accepts_RecordT accepts_CollectionT accepts_SqlIdentifierT

text \<open>A type that admits more nulls admits at least as much.\<close>

lemma scalar_accepts_mono: "scalar_accepts x dt n v \<Longrightarrow> n \<longrightarrow> n' \<Longrightarrow> scalar_accepts x dt n' v"
  by (auto simp: scalar_accepts_def split: if_splits)

end
