(* ===== verification/Proc_IR.thy ===== *)
theory Proc_IR
  imports Proc_Value
begin

text \<open>
  The intermediate representation of a routine, after \<open>crates/radixdb-procedural/src/ir/model.rs\<close>: instructions and
  terminators over typed slots, grouped in basic blocks. The bodies of SQL statements and expressions are not inspected by
  the runtime; they are values of a type parameter \<open>'q\<close>, and of a statement only its kind is known, one constructor for each
  variant of \<open>Statement\<close> in \<open>crates/radixdb-sql/src/ast/statement.rs\<close> that the runtime tells apart; the other variants carry
  their name.
\<close>

section \<open>SQL operators and statements\<close>

datatype infix_operator =
    OpEqual
  | OpNotEqual
  | OpLessThan
  | OpLessEqual
  | OpGreaterThan
  | OpGreaterEqual
  | OpAnd
  | OpOr
  | OpXor
  | OpAdd
  | OpSubtract
  | OpMultiply
  | OpDivide
  | OpModulo
  | OpConcat
  | OpLike
  | OpILike
  | OpNotLike
  | OpNotILike
  | OpGlob
  | OpNotGlob
  | OpRegexp
  | OpNotRegexp
  | OpIs
  | OpIsNot
  | OpIsDistinctFrom
  | OpIsNotDistinctFrom
  | OpIndex
  | OpJsonAccess
  | OpJsonAccessText
  | OpVectorDistance
  | OpBitwiseAnd
  | OpBitwiseOr
  | OpBitwiseXor
  | OpLeftShift
  | OpRightShift
  | OpOther

datatype 'q sql_statement =
    StSelect 'q
  | StInsert 'q
  | StUpdate 'q
  | StDelete 'q
  | StCall 'q
  | StBegin 'q
  | StCommit 'q
  | StRollback 'q
  | StSavepoint 'q
  | StReleaseSavepoint 'q
  | StOther string 'q

fun is_select :: "'q sql_statement \<Rightarrow> bool" where
  "is_select (StSelect _) = True"
| "is_select _ = False"

section \<open>Slots, blocks, programs\<close>

type_synonym slot_id = nat
type_synonym block_id = nat
type_synonym cursor_id = nat

datatype sql_status_attribute = SqlRowCount | SqlFound | SqlNotFound

datatype cursor_status_attribute = CursorIsOpen | CursorFound | CursorNotFound | CursorRowCount

record exception_route =
  route_kinds :: "diagnostic_kind list"
  route_handler :: block_id
  error_slot :: "slot_id option"

record program_identity =
  id_object :: object_id
  id_revision :: nat
  id_name :: string

record slot_definition =
  slot_name :: string
  runtime_type :: runtime_type

datatype 'q instruction =
    InitializeNull slot_id
  | LoadConstant slot_id runtime_value
  | EvaluateExpression 'q "slot_id list" slot_id
  | Copy slot_id slot_id
  | IntegerAddChecked slot_id slot_id slot_id
  | IntegerSubtractChecked slot_id slot_id slot_id
  | IntegerLess slot_id slot_id slot_id
  | EvaluateSqlBinary slot_id slot_id slot_id infix_operator
  | BooleanNot slot_id slot_id
  | QuoteSqlIdentifier slot_id slot_id
  | ConcatenateSqlText slot_id slot_id slot_id
  | MakeRecord slot_id "slot_id list"
  | ReadRecordField slot_id slot_id nat
  | WriteRecordField slot_id nat slot_id
  | CollectionAppend slot_id slot_id
  | CollectionClear slot_id
  | CollectionGet slot_id slot_id slot_id
  | CollectionSet slot_id slot_id slot_id
  | CollectionCount slot_id slot_id
  | ReadSqlStatus slot_id sql_status_attribute
  | ReadCursorStatus slot_id cursor_id cursor_status_attribute
  | ExecuteSql "'q sql_statement" "slot_id list" "slot_id list" bool
  | ExecuteDynamicSql slot_id "slot_id list" "slot_id list" bool
  | OpenCursor cursor_id "'q sql_statement" "slot_id list"
  | FetchCursor cursor_id "slot_id list" slot_id
  | CloseCursor cursor_id
  | EmitResultRow "slot_id list"
  | EmitResultQuery "'q sql_statement" "slot_id list"
  | AppendAudit object_id slot_id slot_id
  | AppendOutbox slot_id slot_id slot_id
  | EnterExceptionRegion "exception_route list"
  | LeaveExceptionRegion
  | CallRoutine object_id "slot_id list" "slot_id list"

datatype terminator =
    Jump block_id
  | Branch slot_id block_id block_id
  | Return "slot_id option"
  | Raise diagnostic_kind
  | Rethrow

type_synonym 'q spanned_instruction = "'q instruction \<times> source_span option"

record 'q basic_block =
  block_instructions :: "'q spanned_instruction list"
  block_terminator :: "terminator \<times> source_span option"

record 'q program =
  prog_identity :: program_identity
  prog_slots :: "slot_definition list"
  parameter_slots :: "slot_id list"
  output_slots :: "slot_id list"
  result_type :: "runtime_type option"
  result_columns :: "runtime_type list"
  prog_blocks :: "'q basic_block list"
  prog_entry :: block_id

text \<open>Indexing that reports an index out of range, as \<open>slice::get\<close> does.\<close>

definition nth_opt :: "'a list \<Rightarrow> nat \<Rightarrow> 'a option" where
  "nth_opt xs i = (if i < length xs then Some (xs ! i) else None)"

lemma nth_opt_Some [simp]: "nth_opt xs i = Some y \<longleftrightarrow> i < length xs \<and> xs ! i = y"
  by (simp add: nth_opt_def)

lemma nth_opt_None [simp]: "nth_opt xs i = None \<longleftrightarrow> length xs \<le> i"
  by (simp add: nth_opt_def)

end
