(* ===== verification/Proc_Verify.thy ===== *)
theory Proc_Verify
  imports Proc_IR
begin

text \<open>
  The verifier of the intermediate representation, after \<open>crates/radixdb-procedural/src/ir/validation.rs\<close>, \<open>ir/verify.rs\<close>,
  \<open>ir/verify/types.rs\<close>, \<open>ir/admission.rs\<close> and \<open>ir/flow.rs\<close>: static limits, the typing rule of each instruction, the
  control-flow graph with its reachability test, and the definite-initialisation analysis. The two loops of the analysis are
  written as in the code, without a bound; \<open>Proc_Flow\<close> and \<open>Proc_Verdict\<close> show when they end.
\<close>

section \<open>Slots and operands\<close>

definition invalid_ir :: "source_span option \<Rightarrow> string \<Rightarrow> diagnostic" where
  "invalid_ir sp msg = with_primary_span sp (new_diagnostic RuntimeInvalidIr msg)"

definition static_limit :: "string \<Rightarrow> nat \<Rightarrow> nat \<Rightarrow> diagnostic" where
  "static_limit field actual lim =
     with_detail ''limit'' (nat_to_string lim)
       (with_detail ''actual'' (nat_to_string actual)
         (with_detail ''field'' field (new_diagnostic ParseLimitExceeded ''static IR limit exceeded'')))"

definition slot_def :: "'q program \<Rightarrow> slot_id \<Rightarrow> source_span option \<Rightarrow> (diagnostic, slot_definition) result" where
  "slot_def p s sp =
     (case nth_opt (prog_slots p) s of None \<Rightarrow> Inl (invalid_ir sp ''IR slot ID is out of bounds'') | Some d \<Rightarrow> Inr d)"

abbreviation slot_type_of :: "'q program \<Rightarrow> slot_id \<Rightarrow> source_span option \<Rightarrow> (diagnostic, runtime_type) result" where
  "slot_type_of p s sp \<equiv> rbind (slot_def p s sp) (\<lambda>d. Inr (runtime_type d))"

definition block_index :: "'q program \<Rightarrow> block_id \<Rightarrow> source_span option \<Rightarrow> (diagnostic, nat) result" where
  "block_index p b sp =
     (if length (prog_blocks p) \<le> b then Inl (invalid_ir sp ''IR block ID is out of bounds'') else Inr b)"

text \<open>A slot that must be scalar, with the message the caller reports otherwise.\<close>

definition scalar_slot ::
  "'q program \<Rightarrow> slot_id \<Rightarrow> source_span option \<Rightarrow> string \<Rightarrow> (diagnostic, catalog_data_type \<times> bool) result" where
  "scalar_slot p s sp msg =
     rbind (slot_type_of p s sp) (\<lambda>t. case t of ScalarT dt n \<Rightarrow> Inr (dt, n) | _ \<Rightarrow> Inl (invalid_ir sp msg))"

definition scalar_operand ::
  "'q program \<Rightarrow> slot_id \<Rightarrow> data_type \<Rightarrow> source_span option \<Rightarrow> (diagnostic, catalog_data_type \<times> bool) result" where
  "scalar_operand p s dt sp =
     rbind (scalar_slot p s sp ''IR operand is not scalar'') (\<lambda>(t, n).
       if logical_type t \<noteq> dt then Inl (invalid_ir sp ''IR scalar operand has the wrong logical type'') else Inr (t, n))"

definition require_same_type :: "'q program \<Rightarrow> slot_id \<Rightarrow> slot_id \<Rightarrow> source_span option \<Rightarrow> (diagnostic, unit) result" where
  "require_same_type p l r sp =
     rbind (slot_type_of p l sp) (\<lambda>tl. rbind (slot_type_of p r sp) (\<lambda>tr.
       guard_res (tl = tr) (invalid_ir sp ''IR source and destination slot types differ'')))"

definition require_unique_slots :: "slot_id list \<Rightarrow> source_span option \<Rightarrow> string \<Rightarrow> (diagnostic, unit) result" where
  "require_unique_slots ss sp msg = guard_res (distinct ss) (invalid_ir sp msg)"

definition require_scalar_operands ::
  "'q program \<Rightarrow> (slot_id \<times> data_type) list \<Rightarrow> source_span option \<Rightarrow> (diagnostic, unit) result" where
  "require_scalar_operands p ops sp = each_res (\<lambda>(s, dt). rbind (scalar_operand p s dt sp) (\<lambda>_. Inr ())) ops"

abbreviation require_scalar :: "'q program \<Rightarrow> source_span option \<Rightarrow> string \<Rightarrow> slot_id \<Rightarrow> (diagnostic, unit) result" where
  "require_scalar p sp msg s \<equiv> rbind (scalar_slot p s sp msg) (\<lambda>_. Inr ())"

abbreviation require_slot :: "'q program \<Rightarrow> source_span option \<Rightarrow> slot_id \<Rightarrow> (diagnostic, unit) result" where
  "require_slot p sp s \<equiv> rbind (slot_def p s sp) (\<lambda>_. Inr ())"

primrec instruction_operand_nodes :: "'q instruction \<Rightarrow> nat" where
  "instruction_operand_nodes (MakeRecord _ fs) = length fs"
| "instruction_operand_nodes (EvaluateExpression _ ps _) = length ps"
| "instruction_operand_nodes (EmitResultRow vs) = length vs"
| "instruction_operand_nodes (EmitResultQuery _ ps) = length ps"
| "instruction_operand_nodes (OpenCursor _ _ ps) = length ps"
| "instruction_operand_nodes (AppendAudit _ _ _) = 2"
| "instruction_operand_nodes (AppendOutbox _ _ _) = 3"
| "instruction_operand_nodes (ExecuteSql _ ps into _) = saturating_add_u64 (length ps) (length into)"
| "instruction_operand_nodes (ExecuteDynamicSql _ ps into _) = saturating_add_u64 (length ps) (length into)"
| "instruction_operand_nodes (FetchCursor _ into _) = length into"
| "instruction_operand_nodes (EnterExceptionRegion routes) =
     fold (\<lambda>r total. saturating_add_u64 (saturating_add_u64 total (length (route_kinds r)))
                       (if error_slot r = None then 0 else 1)) routes (length routes)"
| "instruction_operand_nodes (CallRoutine _ args results) = saturating_add_u64 (length args) (length results)"
| "instruction_operand_nodes (InitializeNull _) = 0"
| "instruction_operand_nodes (LoadConstant _ _) = 0"
| "instruction_operand_nodes (Copy _ _) = 0"
| "instruction_operand_nodes (IntegerAddChecked _ _ _) = 0"
| "instruction_operand_nodes (IntegerSubtractChecked _ _ _) = 0"
| "instruction_operand_nodes (IntegerLess _ _ _) = 0"
| "instruction_operand_nodes (EvaluateSqlBinary _ _ _ _) = 0"
| "instruction_operand_nodes (BooleanNot _ _) = 0"
| "instruction_operand_nodes (QuoteSqlIdentifier _ _) = 0"
| "instruction_operand_nodes (ConcatenateSqlText _ _ _) = 0"
| "instruction_operand_nodes (ReadRecordField _ _ _) = 0"
| "instruction_operand_nodes (WriteRecordField _ _ _) = 0"
| "instruction_operand_nodes (CollectionAppend _ _) = 0"
| "instruction_operand_nodes (CollectionClear _) = 0"
| "instruction_operand_nodes (CollectionGet _ _ _) = 0"
| "instruction_operand_nodes (CollectionSet _ _ _) = 0"
| "instruction_operand_nodes (CollectionCount _ _) = 0"
| "instruction_operand_nodes (ReadSqlStatus _ _) = 0"
| "instruction_operand_nodes (ReadCursorStatus _ _ _) = 0"
| "instruction_operand_nodes (CloseCursor _) = 0"
| "instruction_operand_nodes LeaveExceptionRegion = 0"

section \<open>Admission of SQL statements\<close>

fun verify_sql_statement :: "'q sql_statement \<Rightarrow> source_span option \<Rightarrow> (diagnostic, unit) result" where
  "verify_sql_statement (StSelect _) sp = Inr ()"
| "verify_sql_statement (StInsert _) sp = Inr ()"
| "verify_sql_statement (StUpdate _) sp = Inr ()"
| "verify_sql_statement (StDelete _) sp = Inr ()"
| "verify_sql_statement (StCall _) sp = Inr ()"
| "verify_sql_statement (StOther _ _) sp =
     Inl (with_primary_span sp
       (new_diagnostic VerifyDynamicDdlNotSupported ''statement kind is not admitted inside procedural IR''))"
| "verify_sql_statement _ sp =
     Inl (with_primary_span sp
       (new_diagnostic VerifyTransactionControlForbidden ''transaction control is forbidden inside procedural IR''))"

definition admit_embedded_sql :: "'q sql_statement \<Rightarrow> (diagnostic, unit) result" where
  "admit_embedded_sql st = verify_sql_statement st None"

section \<open>The typing rule of each instruction\<close>

definition comparison_operators :: "infix_operator list" where
  "comparison_operators = [OpEqual, OpNotEqual, OpLessThan, OpLessEqual, OpGreaterThan, OpGreaterEqual]"

definition arithmetic_operators :: "infix_operator list" where
  "arithmetic_operators =
     [OpAdd, OpSubtract, OpMultiply, OpDivide, OpModulo, OpConcat, OpBitwiseAnd, OpBitwiseOr, OpBitwiseXor, OpLeftShift,
      OpRightShift]"

definition verify_integer_binary ::
  "'q program \<Rightarrow> source_span option \<Rightarrow> slot_id \<Rightarrow> slot_id \<Rightarrow> slot_id \<Rightarrow> (diagnostic, unit) result" where
  "verify_integer_binary p sp d l r =
     rbind (scalar_operand p l DtInteger sp) (\<lambda>(lt, ln).
     rbind (scalar_operand p r DtInteger sp) (\<lambda>(rt, rn).
     rbind (scalar_operand p d DtInteger sp) (\<lambda>(dt, dn).
       guard_res (\<not> (lt \<noteq> rt \<or> lt \<noteq> dt \<or> ((ln \<or> rn) \<and> \<not> dn)))
         (invalid_ir sp ''integer addition type contract is inconsistent''))))"

definition verify_integer_less ::
  "'q program \<Rightarrow> source_span option \<Rightarrow> slot_id \<Rightarrow> slot_id \<Rightarrow> slot_id \<Rightarrow> (diagnostic, unit) result" where
  "verify_integer_less p sp d l r =
     rbind (scalar_operand p l DtInteger sp) (\<lambda>(lt, ln).
     rbind (scalar_operand p r DtInteger sp) (\<lambda>(rt, rn).
     rbind (scalar_operand p d DtBoolean sp) (\<lambda>(_, dn).
       guard_res (\<not> (lt \<noteq> rt \<or> ((ln \<or> rn) \<and> \<not> dn)))
         (invalid_ir sp ''integer comparison type contract is inconsistent''))))"

definition verify_sql_binary ::
  "'q program \<Rightarrow> source_span option \<Rightarrow> slot_id \<Rightarrow> slot_id \<Rightarrow> slot_id \<Rightarrow> infix_operator \<Rightarrow> (diagnostic, unit) result" where
  "verify_sql_binary p sp d l r operator =
     rbind (scalar_slot p l sp ''SQL equality left operand is not scalar'') (\<lambda>(lt, ln).
     rbind (scalar_slot p r sp ''SQL equality right operand is not scalar'') (\<lambda>(rt, rn).
     rbind (scalar_slot p d sp ''SQL binary destination is not scalar'') (\<lambda>(dt, dn).
     rbind (if operator \<in> set comparison_operators
            then guard_res (\<not> (lt \<noteq> rt \<or> dt \<noteq> scalar_descriptor DtBoolean))
                   (invalid_ir sp ''SQL comparison type contract is inconsistent'')
            else if operator \<in> set arithmetic_operators
            then guard_res (\<not> (lt \<noteq> rt \<or> dt \<noteq> lt)) (invalid_ir sp ''SQL binary type contract is inconsistent'')
            else Inl (invalid_ir sp ''SQL binary operator is not admitted'')) (\<lambda>_.
       guard_res (\<not> ((ln \<or> rn) \<and> \<not> dn)) (invalid_ir sp ''nullable SQL operands require a nullable result'')))))"

definition verify_quote_sql_identifier ::
  "'q program \<Rightarrow> slot_id \<Rightarrow> slot_id \<Rightarrow> source_span option \<Rightarrow> (diagnostic, unit) result" where
  "verify_quote_sql_identifier p d s sp =
     rbind (scalar_operand p s DtText sp) (\<lambda>_.
     rbind (slot_type_of p d sp) (\<lambda>t.
       guard_res (t = SqlIdentifierT) (invalid_ir sp ''quoted identifier destination is not typed'')))"

definition text_fragment_nullable :: "'q program \<Rightarrow> source_span option \<Rightarrow> slot_id \<Rightarrow> (diagnostic, bool) result" where
  "text_fragment_nullable p sp s =
     rbind (slot_type_of p s sp) (\<lambda>t.
       case t of
         ScalarT dt n \<Rightarrow> if logical_type dt = DtText then Inr n
                        else Inl (invalid_ir sp ''dynamic SQL concatenation operand is not TEXT or identifier'')
       | SqlIdentifierT \<Rightarrow> Inr False
       | _ \<Rightarrow> Inl (invalid_ir sp ''dynamic SQL concatenation operand is not TEXT or identifier''))"

definition verify_concatenate_sql_text ::
  "'q program \<Rightarrow> slot_id \<Rightarrow> slot_id \<Rightarrow> slot_id \<Rightarrow> source_span option \<Rightarrow> (diagnostic, unit) result" where
  "verify_concatenate_sql_text p d l r sp =
     rbind (scalar_operand p d DtText sp) (\<lambda>(_, dn).
     rbind (text_fragment_nullable p sp l) (\<lambda>ln.
     rbind (text_fragment_nullable p sp r) (\<lambda>rn.
       guard_res (\<not> ((ln \<or> rn) \<and> \<not> dn)) (invalid_ir sp ''nullable dynamic SQL concatenation requires nullable TEXT''))))"

definition record_fields_of :: "'q program \<Rightarrow> slot_id \<Rightarrow> source_span option \<Rightarrow> string \<Rightarrow> (diagnostic, record_field list) result" where
  "record_fields_of p s sp msg =
     rbind (slot_type_of p s sp) (\<lambda>t. case t of RecordT fs _ \<Rightarrow> Inr fs | _ \<Rightarrow> Inl (invalid_ir sp msg))"

definition record_field_at :: "record_field list \<Rightarrow> nat \<Rightarrow> source_span option \<Rightarrow> (diagnostic, record_field) result" where
  "record_field_at fs i sp =
     (case nth_opt fs i of None \<Rightarrow> Inl (invalid_ir sp ''record-field ordinal is out of bounds'') | Some f \<Rightarrow> Inr f)"

definition verify_make_record :: "'q program \<Rightarrow> source_span option \<Rightarrow> slot_id \<Rightarrow> slot_id list \<Rightarrow> (diagnostic, unit) result" where
  "verify_make_record p sp d sources =
     rbind (record_fields_of p d sp ''record construction destination is not a record'') (\<lambda>fs.
     rbind (guard_res (length fs = length sources) (invalid_ir sp ''record construction field count differs'')) (\<lambda>_.
       each_res (\<lambda>(s, f).
         rbind (scalar_slot p s sp ''record field source is not scalar'') (\<lambda>(dt, n).
           guard_res (\<not> (dt \<noteq> field_type f \<or> (n \<and> \<not> field_nullable f))) (invalid_ir sp ''record field source type differs'')))
         (zip sources fs)))"

definition verify_read_field :: "'q program \<Rightarrow> source_span option \<Rightarrow> slot_id \<Rightarrow> slot_id \<Rightarrow> nat \<Rightarrow> (diagnostic, unit) result" where
  "verify_read_field p sp d r i =
     rbind (record_fields_of p r sp ''record-field source is not a record'') (\<lambda>fs.
     rbind (record_field_at fs i sp) (\<lambda>f.
     rbind (scalar_slot p d sp ''record-field destination is not scalar'') (\<lambda>(dt, n).
       guard_res (\<not> (dt \<noteq> field_type f \<or> (field_nullable f \<and> \<not> n))) (invalid_ir sp ''record-field destination type differs''))))"

definition verify_write_field :: "'q program \<Rightarrow> source_span option \<Rightarrow> slot_id \<Rightarrow> nat \<Rightarrow> slot_id \<Rightarrow> (diagnostic, unit) result" where
  "verify_write_field p sp r i v =
     rbind (record_fields_of p r sp ''record-field target is not a record'') (\<lambda>fs.
     rbind (record_field_at fs i sp) (\<lambda>f.
     rbind (scalar_slot p v sp ''record-field value is not scalar'') (\<lambda>(dt, n).
       guard_res (\<not> (dt \<noteq> field_type f \<or> (n \<and> \<not> field_nullable f))) (invalid_ir sp ''record-field value type differs''))))"

definition collection_element ::
  "'q program \<Rightarrow> slot_id \<Rightarrow> source_span option \<Rightarrow> string \<Rightarrow> (diagnostic, catalog_data_type) result" where
  "collection_element p s sp msg =
     rbind (slot_type_of p s sp) (\<lambda>t. case t of CollectionT dt _ \<Rightarrow> Inr dt | _ \<Rightarrow> Inl (invalid_ir sp msg))"

definition verify_into ::
  "'q program \<Rightarrow> source_span option \<Rightarrow> slot_id list \<Rightarrow> bool \<Rightarrow> string \<Rightarrow> string \<Rightarrow> string \<Rightarrow> (diagnostic, unit) result" where
  "verify_into p sp into strict repeated not_scalar not_nullable =
     rbind (require_unique_slots into sp repeated) (\<lambda>_.
       each_res (\<lambda>d. rbind (scalar_slot p d sp not_scalar) (\<lambda>(_, n).
         guard_res (\<not> (\<not> strict \<and> \<not> n)) (invalid_ir sp not_nullable))) into)"

text \<open>The handlers of an exception region: kinds handled once, \<open>OTHERS\<close> last, an alias that is a record.\<close>

fun verify_routes ::
  "'q program \<Rightarrow> source_span option \<Rightarrow> exception_route list \<Rightarrow> diagnostic_kind set \<Rightarrow> bool \<Rightarrow> (diagnostic, unit) result" where
  "verify_routes p sp [] kinds catch_all = Inr ()"
| "verify_routes p sp (r # rs) kinds catch_all =
     rbind (if route_kinds r = []
            then guard_res (\<not> catch_all) (invalid_ir sp ''exception region repeats OTHERS'')
            else if catch_all then Inl (invalid_ir sp ''exception handler follows OTHERS'')
            else guard_res (distinct (route_kinds r) \<and> set (route_kinds r) \<inter> kinds = {})
                   (invalid_ir sp ''exception kind is handled twice'')) (\<lambda>_.
     rbind (case error_slot r of
              None \<Rightarrow> Inr ()
            | Some s \<Rightarrow> rbind (record_fields_of p s sp ''exception alias slot is not a record'') (\<lambda>_. Inr ())) (\<lambda>_.
       verify_routes p sp rs (kinds \<union> set (route_kinds r)) (catch_all \<or> route_kinds r = [])))"

definition cursor_attribute_type :: "cursor_status_attribute \<Rightarrow> data_type \<times> bool" where
  "cursor_attribute_type a =
     (case a of CursorIsOpen \<Rightarrow> (DtBoolean, False) | CursorFound \<Rightarrow> (DtBoolean, True) | CursorNotFound \<Rightarrow> (DtBoolean, True)
      | CursorRowCount \<Rightarrow> (DtInteger, False))"

primrec verify_instruction ::
  "external_code \<Rightarrow> 'q program \<Rightarrow> source_span option \<Rightarrow> 'q instruction \<Rightarrow> (diagnostic, unit) result" where
  "verify_instruction x p sp (InitializeNull d) =
     rbind (slot_type_of p d sp) (\<lambda>t.
       case t of
         SqlIdentifierT \<Rightarrow> Inl (invalid_ir sp ''SQL identifier fragments cannot be NULL-initialized'')
       | ScalarT _ n \<Rightarrow> guard_res n (invalid_ir sp ''NULL initialization requires a nullable destination'')
       | _ \<Rightarrow> Inr ())"
| "verify_instruction x p sp (LoadConstant d v) =
     rbind (slot_type_of p d sp) (\<lambda>t. guard_res (accepts x t v) (invalid_ir sp ''constant does not match its destination slot''))"
| "verify_instruction x p sp (EvaluateExpression _ ps d) =
     rbind (each_res (require_scalar p sp ''SQL expression parameter is not scalar'') ps) (\<lambda>_.
       require_scalar p sp ''SQL expression destination is not scalar'' d)"
| "verify_instruction x p sp (Copy d s) = require_same_type p d s sp"
| "verify_instruction x p sp (IntegerAddChecked d l r) = verify_integer_binary p sp d l r"
| "verify_instruction x p sp (IntegerSubtractChecked d l r) = verify_integer_binary p sp d l r"
| "verify_instruction x p sp (IntegerLess d l r) = verify_integer_less p sp d l r"
| "verify_instruction x p sp (EvaluateSqlBinary d l r operator) = verify_sql_binary p sp d l r operator"
| "verify_instruction x p sp (BooleanNot d s) =
     rbind (scalar_operand p s DtBoolean sp) (\<lambda>(_, sn).
     rbind (scalar_operand p d DtBoolean sp) (\<lambda>(_, dn).
       guard_res (\<not> (sn \<and> \<not> dn)) (invalid_ir sp ''nullable boolean NOT requires a nullable result'')))"
| "verify_instruction x p sp (QuoteSqlIdentifier d s) = verify_quote_sql_identifier p d s sp"
| "verify_instruction x p sp (ConcatenateSqlText d l r) = verify_concatenate_sql_text p d l r sp"
| "verify_instruction x p sp (MakeRecord d fs) = verify_make_record p sp d fs"
| "verify_instruction x p sp (ReadRecordField d r i) = verify_read_field p sp d r i"
| "verify_instruction x p sp (WriteRecordField r i v) = verify_write_field p sp r i v"
| "verify_instruction x p sp (CollectionAppend c v) =
     rbind (collection_element p c sp ''APPEND target is not a collection'') (\<lambda>element.
     rbind (scalar_slot p v sp ''APPEND value is not scalar'') (\<lambda>(dt, _).
       guard_res (dt = element) (invalid_ir sp ''APPEND value type differs from collection element'')))"
| "verify_instruction x p sp (CollectionClear c) =
     rbind (collection_element p c sp ''CLEAR target is not a collection'') (\<lambda>_. Inr ())"
| "verify_instruction x p sp (CollectionGet d c i) =
     rbind (collection_element p c sp ''indexed source is not a collection'') (\<lambda>element.
     rbind (scalar_operand p i DtInteger sp) (\<lambda>_.
     rbind (slot_type_of p d sp) (\<lambda>t.
       guard_res (t = ScalarT element True) (invalid_ir sp ''collection read destination must be a nullable element slot''))))"
| "verify_instruction x p sp (CollectionSet c i v) =
     rbind (collection_element p c sp ''indexed target is not a collection'') (\<lambda>element.
     rbind (scalar_operand p i DtInteger sp) (\<lambda>_.
     rbind (scalar_slot p v sp ''indexed assignment value is not scalar'') (\<lambda>(dt, _).
       guard_res (dt = element) (invalid_ir sp ''indexed assignment value type differs from collection element''))))"
| "verify_instruction x p sp (CollectionCount d c) =
     rbind (collection_element p c sp ''COUNT source is not a collection'') (\<lambda>_.
     rbind (scalar_operand p d DtInteger sp) (\<lambda>_. Inr ()))"
| "verify_instruction x p sp (ReadSqlStatus d a) =
     rbind (scalar_operand p d (if a = SqlRowCount then DtInteger else DtBoolean) sp) (\<lambda>_. Inr ())"
| "verify_instruction x p sp (ReadCursorStatus d _ a) =
     rbind (scalar_operand p d (fst (cursor_attribute_type a)) sp) (\<lambda>(_, n).
       guard_res (\<not> (snd (cursor_attribute_type a) \<and> \<not> n)) (invalid_ir sp ''cursor status destination type differs''))"
| "verify_instruction x p sp (ExecuteSql st ps into strict) =
     rbind (verify_sql_statement st sp) (\<lambda>_.
     rbind (each_res (require_slot p sp) ps) (\<lambda>_.
       verify_into p sp into strict ''SQL INTO destination is repeated'' ''SQL INTO destination is not scalar''
         ''non-STRICT SQL INTO requires nullable destinations for zero rows''))"
| "verify_instruction x p sp (ExecuteDynamicSql s ps into strict) =
     rbind (scalar_operand p s DtText sp) (\<lambda>_.
     rbind (each_res (require_scalar p sp ''dynamic SQL parameter is not scalar'') ps) (\<lambda>_.
       verify_into p sp into strict ''dynamic SQL INTO destination is repeated'' ''dynamic SQL INTO destination is not scalar''
         ''non-STRICT dynamic SQL INTO requires nullable destinations''))"
| "verify_instruction x p sp (OpenCursor _ st ps) =
     rbind (guard_res (is_select st) (invalid_ir sp ''cursor query is not a SELECT'')) (\<lambda>_.
       each_res (require_scalar p sp ''cursor parameter is not scalar'') ps)"
| "verify_instruction x p sp (FetchCursor _ into found) =
     rbind (scalar_operand p found DtBoolean sp) (\<lambda>_.
     rbind (require_unique_slots into sp ''cursor FETCH destination is repeated'') (\<lambda>_.
       each_res (require_slot p sp) into))"
| "verify_instruction x p sp (CloseCursor _) = Inr ()"
| "verify_instruction x p sp (EmitResultRow vs) =
     guard_res (list_all2 (\<lambda>v expected. slot_type_of p v sp = Inr expected) vs (result_columns p))
       (invalid_ir sp ''RETURN NEXT row differs from the program result contract'')"
| "verify_instruction x p sp (EmitResultQuery st ps) =
     rbind (guard_res (result_columns p \<noteq> [] \<and> is_select st)
              (invalid_ir sp ''RETURN QUERY requires a table result and SELECT'')) (\<lambda>_.
       each_res (require_slot p sp) ps)"
| "verify_instruction x p sp (AppendAudit _ fingerprint metadata) =
     require_scalar_operands p [(fingerprint, DtBytes), (metadata, DtJson)] sp"
| "verify_instruction x p sp (AppendOutbox key version payload) =
     require_scalar_operands p [(key, DtText), (version, DtInteger), (payload, DtJson)] sp"
| "verify_instruction x p sp (EnterExceptionRegion routes) =
     rbind (guard_res (routes \<noteq> []) (invalid_ir sp ''exception region has no handlers'')) (\<lambda>_.
       verify_routes p sp routes {} False)"
| "verify_instruction x p sp LeaveExceptionRegion = Inr ()"
| "verify_instruction x p sp (CallRoutine _ args results) =
     rbind (each_res (require_slot p sp) args) (\<lambda>_.
     rbind (require_unique_slots results sp ''CALL result destination is repeated'') (\<lambda>_.
       each_res (require_slot p sp) results))"

fun verify_terminator :: "'q program \<Rightarrow> source_span option \<Rightarrow> terminator \<Rightarrow> (diagnostic, unit) result" where
  "verify_terminator p sp (Branch c _ _) = rbind (scalar_operand p c DtBoolean sp) (\<lambda>_. Inr ())"
| "verify_terminator p sp (Return v) =
     (case (result_type p, v) of
        (None, None) \<Rightarrow> Inr ()
      | (Some expected, Some s) \<Rightarrow>
          rbind (slot_type_of p s sp) (\<lambda>t.
            guard_res (t = expected) (invalid_ir sp ''RETURN value differs from the program result contract''))
      | _ \<Rightarrow> Inl (invalid_ir sp ''RETURN value differs from the program result contract''))"
| "verify_terminator p sp _ = Inr ()"

definition verify_block_types :: "external_code \<Rightarrow> 'q program \<Rightarrow> 'q basic_block \<Rightarrow> (diagnostic, unit) result" where
  "verify_block_types x p b =
     rbind (each_res (\<lambda>(i, sp). verify_instruction x p sp i) (block_instructions b)) (\<lambda>_.
       verify_terminator p (snd (block_terminator b)) (fst (block_terminator b)))"

section \<open>Control flow\<close>

fun terminator_targets :: "terminator \<Rightarrow> block_id list" where
  "terminator_targets (Jump t) = [t]"
| "terminator_targets (Branch _ t f) = [t, f]"
| "terminator_targets _ = []"

primrec instruction_targets :: "'q instruction \<Rightarrow> block_id list" where
  "instruction_targets (EnterExceptionRegion routes) = map route_handler routes"
| "instruction_targets (InitializeNull _) = []"
| "instruction_targets (LoadConstant _ _) = []"
| "instruction_targets (EvaluateExpression _ _ _) = []"
| "instruction_targets (Copy _ _) = []"
| "instruction_targets (IntegerAddChecked _ _ _) = []"
| "instruction_targets (IntegerSubtractChecked _ _ _) = []"
| "instruction_targets (IntegerLess _ _ _) = []"
| "instruction_targets (EvaluateSqlBinary _ _ _ _) = []"
| "instruction_targets (BooleanNot _ _) = []"
| "instruction_targets (QuoteSqlIdentifier _ _) = []"
| "instruction_targets (ConcatenateSqlText _ _ _) = []"
| "instruction_targets (MakeRecord _ _) = []"
| "instruction_targets (ReadRecordField _ _ _) = []"
| "instruction_targets (WriteRecordField _ _ _) = []"
| "instruction_targets (CollectionAppend _ _) = []"
| "instruction_targets (CollectionClear _) = []"
| "instruction_targets (CollectionGet _ _ _) = []"
| "instruction_targets (CollectionSet _ _ _) = []"
| "instruction_targets (CollectionCount _ _) = []"
| "instruction_targets (ReadSqlStatus _ _) = []"
| "instruction_targets (ReadCursorStatus _ _ _) = []"
| "instruction_targets (ExecuteSql _ _ _ _) = []"
| "instruction_targets (ExecuteDynamicSql _ _ _ _) = []"
| "instruction_targets (OpenCursor _ _ _) = []"
| "instruction_targets (FetchCursor _ _ _) = []"
| "instruction_targets (CloseCursor _) = []"
| "instruction_targets (EmitResultRow _) = []"
| "instruction_targets (EmitResultQuery _ _) = []"
| "instruction_targets (AppendAudit _ _ _) = []"
| "instruction_targets (AppendOutbox _ _ _) = []"
| "instruction_targets LeaveExceptionRegion = []"
| "instruction_targets (CallRoutine _ _ _) = []"

primrec instruction_reads :: "'q instruction \<Rightarrow> slot_id list" where
  "instruction_reads (EvaluateExpression _ ps _) = ps"
| "instruction_reads (Copy _ s) = [s]"
| "instruction_reads (BooleanNot _ s) = [s]"
| "instruction_reads (QuoteSqlIdentifier _ s) = [s]"
| "instruction_reads (IntegerAddChecked _ l r) = [l, r]"
| "instruction_reads (IntegerSubtractChecked _ l r) = [l, r]"
| "instruction_reads (IntegerLess _ l r) = [l, r]"
| "instruction_reads (EvaluateSqlBinary _ l r _) = [l, r]"
| "instruction_reads (ConcatenateSqlText _ l r) = [l, r]"
| "instruction_reads (MakeRecord _ fs) = fs"
| "instruction_reads (ReadRecordField _ r _) = [r]"
| "instruction_reads (WriteRecordField r _ v) = [r, v]"
| "instruction_reads (CollectionAppend c v) = [c, v]"
| "instruction_reads (CollectionClear c) = [c]"
| "instruction_reads (CollectionSet c i v) = [c, i, v]"
| "instruction_reads (CollectionGet _ c i) = [c, i]"
| "instruction_reads (CollectionCount _ c) = [c]"
| "instruction_reads (ExecuteSql _ ps _ _) = ps"
| "instruction_reads (ExecuteDynamicSql s ps _ _) = s # ps"
| "instruction_reads (OpenCursor _ _ ps) = ps"
| "instruction_reads (EmitResultRow vs) = vs"
| "instruction_reads (EmitResultQuery _ ps) = ps"
| "instruction_reads (AppendAudit _ fingerprint metadata) = [fingerprint, metadata]"
| "instruction_reads (AppendOutbox key version payload) = [key, version, payload]"
| "instruction_reads (CallRoutine _ args _) = args"
| "instruction_reads (InitializeNull _) = []"
| "instruction_reads (LoadConstant _ _) = []"
| "instruction_reads (ReadSqlStatus _ _) = []"
| "instruction_reads (ReadCursorStatus _ _ _) = []"
| "instruction_reads (FetchCursor _ _ _) = []"
| "instruction_reads (CloseCursor _) = []"
| "instruction_reads (EnterExceptionRegion _) = []"
| "instruction_reads LeaveExceptionRegion = []"

fun terminator_reads :: "terminator \<Rightarrow> slot_id list" where
  "terminator_reads (Branch c _ _) = [c]"
| "terminator_reads (Return (Some v)) = [v]"
| "terminator_reads _ = []"

text \<open>The slots that \<open>mark_writes\<close> marks.\<close>

primrec instruction_writes :: "'q instruction \<Rightarrow> slot_id list" where
  "instruction_writes (InitializeNull d) = [d]"
| "instruction_writes (LoadConstant d _) = [d]"
| "instruction_writes (EvaluateExpression _ _ d) = [d]"
| "instruction_writes (Copy d _) = [d]"
| "instruction_writes (IntegerAddChecked d _ _) = [d]"
| "instruction_writes (IntegerSubtractChecked d _ _) = [d]"
| "instruction_writes (IntegerLess d _ _) = [d]"
| "instruction_writes (EvaluateSqlBinary d _ _ _) = [d]"
| "instruction_writes (BooleanNot d _) = [d]"
| "instruction_writes (QuoteSqlIdentifier d _) = [d]"
| "instruction_writes (ConcatenateSqlText d _ _) = [d]"
| "instruction_writes (MakeRecord d _) = [d]"
| "instruction_writes (ReadRecordField d _ _) = [d]"
| "instruction_writes (CollectionGet d _ _) = [d]"
| "instruction_writes (CollectionCount d _) = [d]"
| "instruction_writes (ReadSqlStatus d _) = [d]"
| "instruction_writes (ReadCursorStatus d _ _) = [d]"
| "instruction_writes (ExecuteSql _ _ into _) = into"
| "instruction_writes (ExecuteDynamicSql _ _ into _) = into"
| "instruction_writes (FetchCursor _ into found) = found # into"
| "instruction_writes (EnterExceptionRegion routes) =
     concat (map (\<lambda>r. case error_slot r of None \<Rightarrow> [] | Some s \<Rightarrow> [s]) routes)"
| "instruction_writes (CallRoutine _ _ results) = results"
| "instruction_writes (WriteRecordField r _ _) = [r]"
| "instruction_writes (CollectionAppend _ _) = []"
| "instruction_writes (CollectionClear _) = []"
| "instruction_writes (CollectionSet _ _ _) = []"
| "instruction_writes (OpenCursor _ _ _) = []"
| "instruction_writes (CloseCursor _) = []"
| "instruction_writes (EmitResultRow _) = []"
| "instruction_writes (EmitResultQuery _ _) = []"
| "instruction_writes (AppendAudit _ _ _) = []"
| "instruction_writes (AppendOutbox _ _ _) = []"
| "instruction_writes LeaveExceptionRegion = []"

definition mark_writes :: "'q instruction \<Rightarrow> bool list \<Rightarrow> bool list" where
  "mark_writes i init = fold (\<lambda>s init. init[s := True]) (instruction_writes i) init"

definition apply_writes :: "'q spanned_instruction list \<Rightarrow> bool list \<Rightarrow> bool list" where
  "apply_writes is init = fold (\<lambda>(i, _) init. mark_writes i init) is init"

definition intersect_predecessors :: "nat list \<Rightarrow> bool list list \<Rightarrow> nat \<Rightarrow> bool list" where
  "intersect_predecessors preds outgoing slot_count =
     fold (\<lambda>p res. map2 (\<and>) res (outgoing ! p)) preds (replicate slot_count True)"

definition initial_slots :: "'q program \<Rightarrow> bool list" where
  "initial_slots p =
     map (\<lambda>s. s \<in> set (parameter_slots p) \<or> (case runtime_type (prog_slots p ! s) of CollectionT _ _ \<Rightarrow> True | _ \<Rightarrow> False))
       [0..<length (prog_slots p)]"

record flow_state =
  incoming :: "bool list list"
  outgoing :: "bool list list"
  flow_changed :: bool

definition flow_block :: "'q program \<Rightarrow> nat \<Rightarrow> nat list list \<Rightarrow> nat \<Rightarrow> flow_state \<Rightarrow> flow_state" where
  "flow_block p entry preds index f =
     (let next_in = (if index = entry then initial_slots p
                     else intersect_predecessors (preds ! index) (outgoing f) (length (prog_slots p)));
          next_out = apply_writes (block_instructions (prog_blocks p ! index)) next_in
      in if incoming f ! index \<noteq> next_in \<or> outgoing f ! index \<noteq> next_out
         then \<lparr>incoming = (incoming f)[index := next_in], outgoing = (outgoing f)[index := next_out], flow_changed = True\<rparr>
         else f)"

definition flow_pass :: "'q program \<Rightarrow> nat \<Rightarrow> nat list list \<Rightarrow> flow_state \<Rightarrow> flow_state" where
  "flow_pass p entry preds f = fold (flow_block p entry preds) [0..<length (prog_blocks p)] (f\<lparr>flow_changed := False\<rparr>)"

partial_function (option) flow_loop :: "'q program \<Rightarrow> nat \<Rightarrow> nat list list \<Rightarrow> flow_state \<Rightarrow> flow_state option" where
  "flow_loop p entry preds f =
     (let f1 = flow_pass p entry preds f in if flow_changed f1 then flow_loop p entry preds f1 else Some f1)"

declare flow_loop.simps [code]

definition flow_start :: "'q program \<Rightarrow> nat \<Rightarrow> flow_state" where
  "flow_start p entry =
     (let inc = (replicate (length (prog_blocks p)) (replicate (length (prog_slots p)) True))[entry := initial_slots p]
      in \<lparr>incoming = inc, outgoing = inc, flow_changed = True\<rparr>)"

fun check_instructions :: "'q spanned_instruction list \<Rightarrow> bool list \<Rightarrow> (diagnostic, bool list) result" where
  "check_instructions [] init = Inr init"
| "check_instructions ((i, sp) # is) init =
     rbind (guard_res (\<forall>s \<in> set (instruction_reads i). init ! s)
              (invalid_runtime ''IR reads a slot that is not initialized on every incoming path'')) (\<lambda>_.
       check_instructions is (mark_writes i init))"

fun is_return :: "terminator \<Rightarrow> bool" where
  "is_return (Return _) = True"
| "is_return _ = False"

definition check_block :: "'q program \<Rightarrow> bool list \<Rightarrow> 'q basic_block \<Rightarrow> (diagnostic, unit) result" where
  "check_block p init b =
     rbind (check_instructions (block_instructions b) init) (\<lambda>init1.
     rbind (guard_res (\<forall>s \<in> set (terminator_reads (fst (block_terminator b))). init1 ! s)
              (invalid_runtime ''IR terminator reads an uninitialized slot'')) (\<lambda>_.
       guard_res (is_return (fst (block_terminator b)) \<longrightarrow> (\<forall>s \<in> set (output_slots p). init1 ! s))
         (invalid_runtime ''IR returns with an uninitialized OUT/INOUT parameter'')))"

definition verify_definite_initialization :: "'q program \<Rightarrow> nat \<Rightarrow> nat list list \<Rightarrow> (diagnostic, unit) result option" where
  "verify_definite_initialization p entry preds =
     (case flow_loop p entry preds (flow_start p entry) of
        None \<Rightarrow> None
      | Some f \<Rightarrow> Some (each_res (\<lambda>(init, b). check_block p init b) (zip (incoming f) (prog_blocks p))))"

partial_function (option) reach_loop :: "nat list list \<Rightarrow> nat list \<Rightarrow> bool list \<Rightarrow> bool list option" where
  "reach_loop succs queue reach =
     (case queue of
        [] \<Rightarrow> Some reach
      | b # q \<Rightarrow> if reach ! b then reach_loop succs q reach
                 else reach_loop succs (q @ succs ! b) (reach[b := True]))"

declare reach_loop.simps [code]

definition reachable_blocks :: "nat \<Rightarrow> nat list list \<Rightarrow> bool list option" where
  "reachable_blocks entry succs = reach_loop succs [entry] (replicate (length succs) False)"

section \<open>Verification\<close>

definition MAX_STATIC_IR_INSTRUCTIONS :: nat where "MAX_STATIC_IR_INSTRUCTIONS = 1000000"
definition MAX_STATIC_IR_NODES :: nat where "MAX_STATIC_IR_NODES = 1000000"

text \<open>\<open>try_fold\<close> with \<open>checked_add\<close>.\<close>

fun checked_sum :: "nat list \<Rightarrow> nat \<Rightarrow> nat option" where
  "checked_sum [] acc = Some acc"
| "checked_sum (n # ns) acc = (case checked_add_u64 acc n of None \<Rightarrow> None | Some t \<Rightarrow> checked_sum ns t)"

definition type_nodes :: "runtime_type \<Rightarrow> nat" where
  "type_nodes t = (case t of RecordT fs _ \<Rightarrow> length fs | _ \<Rightarrow> 0)"

definition or_invalid :: "nat option \<Rightarrow> string \<Rightarrow> (diagnostic, nat) result" where
  "or_invalid r msg = (case r of None \<Rightarrow> Inl (invalid_ir None msg) | Some n \<Rightarrow> Inr n)"

definition verify_limits :: "'q program \<Rightarrow> (diagnostic, unit) result" where
  "verify_limits p =
     rbind (or_invalid (checked_sum (map (length \<circ> block_instructions) (prog_blocks p)) 0) ''IR instruction count overflow'') (\<lambda>instrs.
     rbind (guard_res (instrs \<le> MAX_STATIC_IR_INSTRUCTIONS) (static_limit ''IR instructions'' instrs MAX_STATIC_IR_INSTRUCTIONS)) (\<lambda>_.
     rbind (or_invalid
              (checked_sum (map (type_nodes \<circ> runtime_type) (prog_slots p) @
                 concat (map (map (instruction_operand_nodes \<circ> fst) \<circ> block_instructions) (prog_blocks p))) 0)
              ''IR nested node count overflow'') (\<lambda>nested.
     rbind (or_invalid (checked_sum [length (prog_blocks p), instrs, nested] (length (prog_slots p))) ''IR node count overflow'') (\<lambda>nodes.
       guard_res (nodes \<le> MAX_STATIC_IR_NODES) (static_limit ''IR nodes'' nodes MAX_STATIC_IR_NODES)))))"

fun verify_unique :: "'q program \<Rightarrow> string \<Rightarrow> slot_id list \<Rightarrow> slot_id set \<Rightarrow> (diagnostic, unit) result" where
  "verify_unique p msg [] seen = Inr ()"
| "verify_unique p msg (s # ss) seen =
     rbind (slot_def p s None) (\<lambda>_.
     rbind (guard_res (s \<notin> seen) (invalid_ir None msg)) (\<lambda>_. verify_unique p msg ss (insert s seen)))"

definition verify_signature :: "'q program \<Rightarrow> (diagnostic, unit) result" where
  "verify_signature p =
     rbind (guard_res (\<not> (id_revision (prog_identity p) = 0 \<or> id_name (prog_identity p) = [] \<or>
                          length (id_name (prog_identity p)) > 4096))
              (invalid_ir None ''IR program identity is invalid'')) (\<lambda>_.
     rbind (guard_res (prog_blocks p \<noteq> []) (invalid_ir None ''IR program has no basic blocks'')) (\<lambda>_.
     rbind (each_res (\<lambda>d. validate_type (runtime_type d)) (prog_slots p)) (\<lambda>_.
     rbind (case result_type p of None \<Rightarrow> Inr () | Some t \<Rightarrow> validate_type t) (\<lambda>_.
     rbind (each_res (\<lambda>t. case t of ScalarT _ _ \<Rightarrow> validate_type t
                         | _ \<Rightarrow> Inl (invalid_ir None ''IR result column is not scalar'')) (result_columns p)) (\<lambda>_.
       guard_res (\<not> (result_type p \<noteq> None \<and> result_columns p \<noteq> []))
         (invalid_ir None ''IR program cannot mix scalar and table result contracts''))))))"

text \<open>The targets of a block in the order the code visits them, each with the span that an error reports.\<close>

definition block_targets :: "'q basic_block \<Rightarrow> (block_id \<times> source_span option) list" where
  "block_targets b =
     concat (map (\<lambda>(i, sp). map (\<lambda>t. (t, sp)) (instruction_targets i)) (block_instructions b)) @
     map (\<lambda>t. (t, snd (block_terminator b))) (terminator_targets (fst (block_terminator b)))"

definition verify_blocks :: "external_code \<Rightarrow> 'q program \<Rightarrow> (diagnostic, unit) result" where
  "verify_blocks x p =
     each_res (\<lambda>b. rbind (verify_block_types x p b) (\<lambda>_.
       each_res (\<lambda>(t, sp). rbind (block_index p t sp) (\<lambda>_. Inr ())) (block_targets b))) (prog_blocks p)"

definition successors :: "'q program \<Rightarrow> nat list list" where
  "successors p = map (map fst \<circ> block_targets) (prog_blocks p)"

definition predecessors :: "'q program \<Rightarrow> nat list list" where
  "predecessors p =
     map (\<lambda>t. concat (map (\<lambda>i. map (\<lambda>_. i) (filter (\<lambda>s. s = t) (successors p ! i))) [0..<length (prog_blocks p)]))
       [0..<length (prog_blocks p)]"

definition verify :: "external_code \<Rightarrow> 'q program \<Rightarrow> (diagnostic, 'q program) result option" where
  "verify x p =
     (case rbind (verify_signature p) (\<lambda>_.
           rbind (block_index p (prog_entry p) None) (\<lambda>entry.
           rbind (verify_limits p) (\<lambda>_.
           rbind (verify_unique p ''IR parameter slot is repeated'' (parameter_slots p) {}) (\<lambda>_.
           rbind (verify_unique p ''IR output slot is repeated'' (output_slots p) {}) (\<lambda>_.
           rbind (verify_blocks x p) (\<lambda>_. Inr entry)))))) of
        Inl d \<Rightarrow> Some (Inl d)
      | Inr entry \<Rightarrow>
          (case reachable_blocks entry (successors p) of
             None \<Rightarrow> None
           | Some reach \<Rightarrow>
               if \<exists>r \<in> set reach. \<not> r then Some (Inl (invalid_ir None ''IR contains an unreachable basic block''))
               else (case verify_definite_initialization p entry (predecessors p) of
                       None \<Rightarrow> None
                     | Some (Inl d) \<Rightarrow> Some (Inl d)
                     | Some (Inr _) \<Rightarrow> Some (Inr p))))"

end
