(* ===== verification/Proc_Flow.thy ===== *)
theory Proc_Flow
  imports Proc_Verify
begin

text \<open>
  What the verifier of \<open>Proc_Verify\<close> guarantees: the facts an accepted program satisfies, that the reachability test
  computes reachability in the control-flow graph, and the definite-initialisation analysis: when its loop ends, and
  that what it computes is a fixed point of the flow equations.
\<close>

section \<open>Accepted programs\<close>

lemma verify_unique_Inr [simp]:
  "verify_unique p msg ss seen = Inr u \<longleftrightarrow> (\<forall>s \<in> set ss. s < length (prog_slots p)) \<and> distinct ss \<and> set ss \<inter> seen = {}"
  by (induction ss arbitrary: seen) (auto simp: slot_def_def split: option.splits)

lemma block_index_Inr [simp]: "block_index p t sp = Inr i \<longleftrightarrow> i = t \<and> t < length (prog_blocks p)"
  by (auto simp: block_index_def)

lemma verified:
  assumes "verify x p = Some (Inr q)"
  shows "q = p" "verify_signature p = Inr ()" "verify_limits p = Inr ()" "prog_entry p < length (prog_blocks p)"
    "distinct (parameter_slots p)" "\<forall>s \<in> set (parameter_slots p). s < length (prog_slots p)"
    "distinct (output_slots p)" "\<forall>s \<in> set (output_slots p). s < length (prog_slots p)"
    "\<And>b. b \<in> set (prog_blocks p) \<Longrightarrow> verify_block_types x p b = Inr ()"
    "\<And>b t sp. b \<in> set (prog_blocks p) \<Longrightarrow> (t, sp) \<in> set (block_targets b) \<Longrightarrow> t < length (prog_blocks p)"
    "\<exists>reach. reachable_blocks (prog_entry p) (successors p) = Some reach \<and> (\<forall>r \<in> set reach. r)"
    "verify_definite_initialization p (prog_entry p) (predecessors p) = Some (Inr ())"
proof -
  have v: "q = p" "verify_signature p = Inr ()" "verify_limits p = Inr ()" "prog_entry p < length (prog_blocks p)"
    "verify_unique p ''IR parameter slot is repeated'' (parameter_slots p) {} = Inr ()"
    "verify_unique p ''IR output slot is repeated'' (output_slots p) {} = Inr ()" "verify_blocks x p = Inr ()"
    "\<exists>reach. reachable_blocks (prog_entry p) (successors p) = Some reach \<and> (\<forall>r \<in> set reach. r)"
    "verify_definite_initialization p (prog_entry p) (predecessors p) = Some (Inr ())"
    using assms unfolding verify_def by (auto split: sum.splits option.splits if_splits)
  show "q = p" "verify_signature p = Inr ()" "verify_limits p = Inr ()" "prog_entry p < length (prog_blocks p)"
    "\<exists>reach. reachable_blocks (prog_entry p) (successors p) = Some reach \<and> (\<forall>r \<in> set reach. r)"
    "verify_definite_initialization p (prog_entry p) (predecessors p) = Some (Inr ())"
    by (rule v)+
  show "distinct (parameter_slots p)" "\<forall>s \<in> set (parameter_slots p). s < length (prog_slots p)"
    "distinct (output_slots p)" "\<forall>s \<in> set (output_slots p). s < length (prog_slots p)"
    using v(5,6) by simp_all
  show "verify_block_types x p b = Inr ()" if "b \<in> set (prog_blocks p)" for b
    using v(7) that by (auto simp: verify_blocks_def)
  show "t < length (prog_blocks p)" if "b \<in> set (prog_blocks p)" "(t, sp) \<in> set (block_targets b)" for b t sp
    using v(7) that by (fastforce simp: verify_blocks_def)
qed

text \<open>The converse, used to evaluate the verifier on a concrete program.\<close>

lemma verifyI:
  assumes "verify_signature p = Inr ()" "prog_entry p < length (prog_blocks p)" "verify_limits p = Inr ()"
    "distinct (parameter_slots p) \<and> (\<forall>s \<in> set (parameter_slots p). s < length (prog_slots p))"
    "distinct (output_slots p) \<and> (\<forall>s \<in> set (output_slots p). s < length (prog_slots p))" "verify_blocks x p = Inr ()"
    "reachable_blocks (prog_entry p) (successors p) = Some reach" "\<forall>r \<in> set reach. r"
    "verify_definite_initialization p (prog_entry p) (predecessors p) = Some (Inr ())"
  shows "verify x p = Some (Inr p)"
proof -
  have bi: "block_index p (prog_entry p) None = Inr (prog_entry p)" using assms(2) by simp
  have u: "verify_unique p ''IR parameter slot is repeated'' (parameter_slots p) {} = Inr ()"
    "verify_unique p ''IR output slot is repeated'' (output_slots p) {} = Inr ()" using assms(4,5) by simp_all
  show ?thesis
    unfolding verify_def assms(1) bi rbind_simps assms(3) u assms(6) sum.case assms(7) option.case assms(9) using assms(8) by auto
qed

section \<open>Reachability\<close>

definition edges :: "nat list list \<Rightarrow> (nat \<times> nat) set" where
  "edges succs = {(b, t). b < length succs \<and> t \<in> set (succs ! b)}"

definition targets_ok :: "nat list list \<Rightarrow> bool" where
  "targets_ok succs \<longleftrightarrow> (\<forall>ts \<in> set succs. \<forall>t \<in> set ts. t < length succs)"

definition marked :: "bool list \<Rightarrow> nat set" where
  "marked bs = {i. i < length bs \<and> bs ! i}"

lemma mem_marked [simp]: "i \<in> marked bs \<longleftrightarrow> i < length bs \<and> bs ! i"
  by (simp add: marked_def)

lemma marked_update [simp]: "b < length bs \<Longrightarrow> marked (bs[b := True]) = insert b (marked bs)"
  by (auto simp: nth_list_update split: if_splits)

lemma marked_replicate [simp]: "marked (replicate n False) = {}"
  by auto

lemma finite_marked [simp]: "finite (marked bs)"
  by (simp add: marked_def)

lemma card_marked: "card (marked bs) \<le> length bs"
  using card_mono [of "{..<length bs}" "marked bs"] by (simp add: subset_iff)

text \<open>
  The state of the search: the targets of a marked block are marked or queued. What it has still to find is what can be
  reached from the queue.
\<close>

definition search_ok :: "nat list list \<Rightarrow> nat list \<Rightarrow> bool list \<Rightarrow> bool" where
  "search_ok succs queue reach \<longleftrightarrow>
     length reach = length succs \<and> (\<forall>b \<in> set queue. b < length succs) \<and>
     (\<forall>b < length succs. reach ! b \<longrightarrow> (\<forall>t \<in> set (succs ! b). t < length succs \<and> (reach ! t \<or> t \<in> set queue)))"

lemma search_skip:
  assumes "search_ok succs (b # q) reach" "reach ! b"
  shows "search_ok succs q reach" "marked reach \<union> (edges succs)\<^sup>* `` set (b # q) = marked reach \<union> (edges succs)\<^sup>* `` set q"
proof -
  have b: "b \<in> marked reach" using assms by (simp add: search_ok_def)
  show ok: "search_ok succs q reach" using assms(1) b unfolding search_ok_def by auto
  have "y \<in> marked reach \<union> (edges succs)\<^sup>* `` set q" if "(b, y) \<in> (edges succs)\<^sup>*" for y
    using that
  proof (induction rule: rtrancl_induct)
    case (step y z)
    then show ?case
    proof (cases "y \<in> marked reach")
      case True
      then have "z \<in> marked reach \<union> set q" using ok step.hyps(2) by (auto simp: search_ok_def edges_def)
      then show ?thesis by auto
    next
      case False
      then obtain s where "s \<in> set q" "(s, y) \<in> (edges succs)\<^sup>*" using step.IH by blast
      then show ?thesis using step.hyps(2) by (auto intro: rtrancl_into_rtrancl)
    qed
  qed (use b in simp)
  then show "marked reach \<union> (edges succs)\<^sup>* `` set (b # q) = marked reach \<union> (edges succs)\<^sup>* `` set q"
    by (auto simp del: mem_marked)
qed

lemma search_mark:
  assumes "search_ok succs (b # q) reach" "targets_ok succs"
  shows "search_ok succs (q @ succs ! b) (reach[b := True])"
    "marked (reach[b := True]) \<union> (edges succs)\<^sup>* `` set (q @ succs ! b) = marked reach \<union> (edges succs)\<^sup>* `` set (b # q)"
proof -
  have b: "b < length succs" "b < length reach" using assms(1) by (simp_all add: search_ok_def)
  have "\<forall>t \<in> set (succs ! b). t < length succs" using assms(2) b(1) by (auto simp: targets_ok_def)
  then show "search_ok succs (q @ succs ! b) (reach[b := True])"
    using assms(1) b unfolding search_ok_def by (auto simp: nth_list_update)
  have "(edges succs)\<^sup>* `` {b} = insert b ((edges succs)\<^sup>* `` set (succs ! b))"
    using b(1) by (auto simp: edges_def elim: converse_rtranclE intro: converse_rtrancl_into_rtrancl)
  then show "marked (reach[b := True]) \<union> (edges succs)\<^sup>* `` set (q @ succs ! b) = marked reach \<union> (edges succs)\<^sup>* `` set (b # q)"
    using b Image_Un [of "(edges succs)\<^sup>*" "{b}" "set q"] Image_Un [of "(edges succs)\<^sup>*" "set q" "set (succs ! b)"] by auto
qed

lemma reach_loop_result:
  assumes "targets_ok succs" "search_ok succs queue reach"
  shows "\<exists>r. reach_loop succs queue reach = Some r \<and> length r = length succs \<and> marked r = marked reach \<union> (edges succs)\<^sup>* `` set queue"
  using assms(2)
proof (induction "(length succs - card (marked reach), length queue)" arbitrary: queue reach
    rule: wf_induct_rule [OF wf_lex_prod [OF wf_less wf_less]])
  case (1 queue reach)
  show ?case
  proof (cases queue)
    case Nil
    then show ?thesis using "1.prems" by (auto simp: reach_loop.simps search_ok_def)
  next
    case (Cons b q)
    have len: "length reach = length succs" "b < length reach" using "1.prems" Cons by (simp_all add: search_ok_def)
    show ?thesis
    proof (cases "reach ! b")
      case True
      then show ?thesis using "1.hyps" [of reach q] search_skip [of succs b q reach] "1.prems" Cons
        by (simp add: reach_loop.simps [of succs "b # q"])
    next
      case False
      have c: "card (marked (reach[b := True])) = Suc (card (marked reach))" using False len by simp
      have "card (marked (reach[b := True])) \<le> length succs" using card_marked [of "reach[b := True]"] len by simp
      then have "length succs - card (marked (reach[b := True])) < length succs - card (marked reach)" using c by linarith
      then show ?thesis using "1.hyps" [of "reach[b := True]" "q @ succs ! b"] search_mark [of succs b q reach] assms(1) "1.prems" Cons False
        by (simp add: reach_loop.simps [of succs "b # q"])
    qed
  qed
qed

lemma reachable_blocks_result:
  assumes "entry < length succs" "targets_ok succs"
  shows "\<exists>r. reachable_blocks entry succs = Some r \<and> length r = length succs \<and>
    (\<forall>i < length succs. r ! i \<longleftrightarrow> (entry, i) \<in> (edges succs)\<^sup>*)"
proof -
  have "search_ok succs [entry] (replicate (length succs) False)" using assms(1) by (simp add: search_ok_def)
  from reach_loop_result [OF assms(2) this] obtain r where r: "reach_loop succs [entry] (replicate (length succs) False) = Some r"
    "length r = length succs" "marked r = (edges succs)\<^sup>* `` {entry}" by auto
  have "r ! i \<longleftrightarrow> (entry, i) \<in> (edges succs)\<^sup>*" if "i < length succs" for i using r(2,3) that mem_marked [of i r] by auto
  then show ?thesis using r by (auto simp: reachable_blocks_def)
qed

section \<open>The flow equations\<close>

definition next_incoming :: "'q program \<Rightarrow> nat \<Rightarrow> nat list list \<Rightarrow> bool list list \<Rightarrow> nat \<Rightarrow> bool list" where
  "next_incoming p entry preds out i =
     (if i = entry then initial_slots p else intersect_predecessors (preds ! i) out (length (prog_slots p)))"

abbreviation block_writes :: "'q program \<Rightarrow> nat \<Rightarrow> bool list \<Rightarrow> bool list" where
  "block_writes p i \<equiv> apply_writes (block_instructions (prog_blocks p ! i))"

definition solves_at :: "'q program \<Rightarrow> nat \<Rightarrow> nat list list \<Rightarrow> flow_state \<Rightarrow> nat \<Rightarrow> bool" where
  "solves_at p entry preds f i \<longleftrightarrow>
     incoming f ! i = next_incoming p entry preds (outgoing f) i \<and> outgoing f ! i = block_writes p i (incoming f ! i)"

lemma flow_block_eq:
  "flow_block p entry preds i f =
     (if solves_at p entry preds f i then f
      else \<lparr>incoming = (incoming f)[i := next_incoming p entry preds (outgoing f) i],
            outgoing = (outgoing f)[i := block_writes p i (next_incoming p entry preds (outgoing f) i)], flow_changed = True\<rparr>)"
  by (auto simp: flow_block_def solves_at_def next_incoming_def Let_def)

lemma fold_flow_unchanged:
  "\<not> flow_changed (fold (flow_block p entry preds) is f) \<Longrightarrow>
     fold (flow_block p entry preds) is f = f \<and> (\<forall>i \<in> set is. solves_at p entry preds f i)"
proof (induction "is" arbitrary: f)
  case (Cons i "is")
  then have f: "fold (flow_block p entry preds) is (flow_block p entry preds i f) = flow_block p entry preds i f"
    by simp_all
  then have "\<not> flow_changed (flow_block p entry preds i f)" using Cons.prems by simp
  then have "solves_at p entry preds f i" by (auto simp: flow_block_eq split: if_splits)
  then show ?case using Cons.IH [of f] Cons.prems by (simp add: flow_block_eq)
qed simp

lemma flow_lengths:
  "length (incoming (fold (flow_block p entry preds) is f)) = length (incoming f)"
  "length (outgoing (fold (flow_block p entry preds) is f)) = length (outgoing f)"
  by (induction "is" arbitrary: f) (simp_all add: flow_block_eq)

lemma flow_loop_solution:
  assumes "flow_loop p entry preds f = Some g"
  shows "(\<forall>i < length (prog_blocks p). solves_at p entry preds g i) \<and> length (incoming g) = length (incoming f)"
proof (rule flow_loop.raw_induct [where P = "\<lambda>p entry preds f g.
    (\<forall>i < length (prog_blocks p). solves_at p entry preds g i) \<and> length (incoming g) = length (incoming f)", OF _ assms])
  fix loop and p :: "'a program" and entry preds f g
  assume ih: "\<And>(p :: 'a program) entry preds f g. loop p entry preds f = Some g \<Longrightarrow>
      (\<forall>i < length (prog_blocks p). solves_at p entry preds g i) \<and> length (incoming g) = length (incoming f)"
    and s: "(let f1 = flow_pass p entry preds f in if flow_changed f1 then loop p entry preds f1 else Some f1) = Some g"
  let ?f1 = "flow_pass p entry preds f"
  have len: "length (incoming ?f1) = length (incoming f)" by (simp add: flow_pass_def flow_lengths)
  show "(\<forall>i < length (prog_blocks p). solves_at p entry preds g i) \<and> length (incoming g) = length (incoming f)"
  proof (cases "flow_changed ?f1")
    case True
    then show ?thesis using ih [of p entry preds ?f1 g] s len by (simp add: Let_def)
  next
    case False
    then have "g = ?f1" using s by (simp add: Let_def)
    then show ?thesis using fold_flow_unchanged [of p entry preds "[0..<length (prog_blocks p)]" "f\<lparr>flow_changed := False\<rparr>"] False len
      unfolding flow_pass_def by auto
  qed
qed

section \<open>The analysis as sets of slots\<close>

lemma fold_mark_length [simp]: "length (fold (\<lambda>s init. init[s := True]) ss init) = length init"
  by (induction ss arbitrary: init) simp_all

lemma fold_mark: "marked (fold (\<lambda>s init. init[s := True]) ss init) = marked init \<union> {s \<in> set ss. s < length init}"
proof (induction ss arbitrary: init)
  case (Cons s ss)
  show ?case by (cases "s < length init") (auto simp: Cons.IH list_update_beyond simp del: mem_marked)
qed simp

lemma mark_writes_length [simp]: "length (mark_writes i init) = length init"
  by (simp add: mark_writes_def)

lemma mark_writes_marked: "marked (mark_writes i init) = marked init \<union> {s \<in> set (instruction_writes i). s < length init}"
  by (simp add: mark_writes_def fold_mark)

lemma apply_writes_Cons: "apply_writes ((i, sp) # is) init = apply_writes is (mark_writes i init)"
  by (simp add: apply_writes_def)

lemma apply_writes_length [simp]: "length (apply_writes is init) = length init"
  unfolding apply_writes_def by (induction "is" arbitrary: init) (auto split: prod.split)

lemma apply_writes_marked:
  "marked (apply_writes is init) = marked init \<union> {s. s < length init \<and> (\<exists>i \<in> fst ` set is. s \<in> set (instruction_writes i))}"
proof (induction "is" arbitrary: init)
  case (Cons i "is")
  then show ?case by (cases i) (auto simp: apply_writes_Cons mark_writes_marked simp del: mem_marked)
qed (simp add: apply_writes_def)

lemma map2_and_marked: "length as = length bs \<Longrightarrow> marked (map2 (\<and>) as bs) = marked as \<inter> marked bs"
  by auto

lemma intersect_marked:
  assumes "\<forall>q \<in> set ps. length (out ! q) = n"
  shows "length (intersect_predecessors ps out n) = n"
    "marked (intersect_predecessors ps out n) = {s. s < n \<and> (\<forall>q \<in> set ps. s \<in> marked (out ! q))}"
proof -
  have f: "length (fold (\<lambda>q res. map2 (\<and>) res (out ! q)) ps init) = n \<and>
      marked (fold (\<lambda>q res. map2 (\<and>) res (out ! q)) ps init) = {s \<in> marked init. \<forall>q \<in> set ps. s \<in> marked (out ! q)}"
    if "length init = n" "\<forall>q \<in> set ps. length (out ! q) = n" for init ps
    using that
  proof (induction ps arbitrary: init)
    case (Cons q ps)
    then show ?case by (auto simp: map2_and_marked simp del: mem_marked)
  qed (auto simp: marked_def)
  show "length (intersect_predecessors ps out n) = n"
    "marked (intersect_predecessors ps out n) = {s. s < n \<and> (\<forall>q \<in> set ps. s \<in> marked (out ! q))}"
    using f [of "replicate n True" ps] assms by (auto simp: intersect_predecessors_def)
qed

lemma marked_eqD:
  assumes "length as = length bs" "marked as = marked bs"
  shows "as = bs"
proof (rule nth_equalityI [OF assms(1)])
  show "as ! i = bs ! i" if "i < length as" for i using that assms mem_marked [of i as] mem_marked [of i bs] by simp
qed

lemma marked_strict: "length as = length bs \<Longrightarrow> marked as \<subseteq> marked bs \<Longrightarrow> as \<noteq> bs \<Longrightarrow> card (marked as) < card (marked bs)"
  using marked_eqD psubset_card_mono [OF finite_marked] by blast

section \<open>The loop ends\<close>

text \<open>
  From a state in which every equation only asks for fewer slots, each pass that changes something removes slots. That
  the loop enters such a state rests on the entry being the first block: its equation is applied before any other block reads it.
\<close>

definition flow_shape :: "'q program \<Rightarrow> nat list list \<Rightarrow> flow_state \<Rightarrow> bool" where
  "flow_shape p preds f \<longleftrightarrow>
     length (incoming f) = length (prog_blocks p) \<and> length (outgoing f) = length (prog_blocks p) \<and>
     (\<forall>i < length (prog_blocks p). length (incoming f ! i) = length (prog_slots p) \<and> length (outgoing f ! i) = length (prog_slots p)) \<and>
     (\<forall>i < length (prog_blocks p). \<forall>q \<in> set (preds ! i). q < length (prog_blocks p))"

definition shrinking :: "'q program \<Rightarrow> nat list list \<Rightarrow> flow_state \<Rightarrow> bool" where
  "shrinking p preds f \<longleftrightarrow>
     flow_shape p preds f \<and>
     (\<forall>i < length (prog_blocks p).
        marked (next_incoming p 0 preds (outgoing f) i) \<subseteq> marked (incoming f ! i) \<and>
        marked (block_writes p i (next_incoming p 0 preds (outgoing f) i)) \<subseteq> marked (outgoing f ! i)) \<and>
     (0 < length (prog_blocks p) \<longrightarrow> solves_at p 0 preds f 0)"

definition flow_size :: "flow_state \<Rightarrow> nat" where
  "flow_size f = sum_list (map (card \<circ> marked) (incoming f)) + sum_list (map (card \<circ> marked) (outgoing f))"

lemma initial_slots_length [simp]: "length (initial_slots p) = length (prog_slots p)"
  by (simp add: initial_slots_def)

lemma next_incoming_length:
  "flow_shape p preds f \<Longrightarrow> i < length (prog_blocks p) \<Longrightarrow> length (next_incoming p 0 preds (outgoing f) i) = length (prog_slots p)"
  by (auto simp: next_incoming_def flow_shape_def intro!: intersect_marked(1))

lemma next_incoming_mono:
  assumes "flow_shape p preds f" "flow_shape p preds g" "\<forall>q < length (prog_blocks p). marked (outgoing g ! q) \<subseteq> marked (outgoing f ! q)"
    "i < length (prog_blocks p)"
  shows "marked (next_incoming p 0 preds (outgoing g) i) \<subseteq> marked (next_incoming p 0 preds (outgoing f) i)"
proof (cases "i = 0")
  case False
  have q: "\<forall>q \<in> set (preds ! i). q < length (prog_blocks p)" using assms(1,4) by (simp add: flow_shape_def)
  have l: "\<forall>q \<in> set (preds ! i). length (outgoing f ! q) = length (prog_slots p)" "\<forall>q \<in> set (preds ! i). length (outgoing g ! q) = length (prog_slots p)"
    using q assms(1,2) by (simp_all add: flow_shape_def)
  show ?thesis using False q assms(3) unfolding next_incoming_def
    by (simp only: if_False intersect_marked(2) [OF l(1)] intersect_marked(2) [OF l(2)]) blast
qed (simp add: next_incoming_def)

lemma block_writes_mono: "length a = length b \<Longrightarrow> marked a \<subseteq> marked b \<Longrightarrow> marked (block_writes p i a) \<subseteq> marked (block_writes p i b)"
  unfolding apply_writes_marked by auto

lemma flow_size_update:
  assumes "flow_shape p preds f" "i < length (prog_blocks p)" "length ni = length (prog_slots p)" "length no = length (prog_slots p)"
    "marked ni \<subseteq> marked (incoming f ! i)" "marked no \<subseteq> marked (outgoing f ! i)" "incoming f ! i \<noteq> ni \<or> outgoing f ! i \<noteq> no"
  shows "flow_size \<lparr>incoming = (incoming f)[i := ni], outgoing = (outgoing f)[i := no], flow_changed = True\<rparr> < flow_size f"
proof -
  have l: "i < length (incoming f)" "i < length (outgoing f)" "length (incoming f ! i) = length ni" "length (outgoing f ! i) = length no"
    using assms by (simp_all add: flow_shape_def)
  have u: "sum_list (map (card \<circ> marked) (xs[i := y])) + card (marked (xs ! i)) = sum_list (map (card \<circ> marked) xs) + card (marked y)"
    if "i < length xs" for xs :: "bool list list" and y
  proof -
    have "card (marked (xs ! i)) \<le> sum_list (map (card \<circ> marked) xs)"
      using elem_le_sum_list [of i "map (card \<circ> marked) xs"] that by simp
    then show ?thesis using that by (simp add: map_update sum_list_update)
  qed
  have c: "card (marked ni) \<le> card (marked (incoming f ! i))" "card (marked no) \<le> card (marked (outgoing f ! i))"
    using assms(5,6) by (simp_all add: card_mono)
  have "card (marked ni) < card (marked (incoming f ! i)) \<or> card (marked no) < card (marked (outgoing f ! i))"
    using assms(5,6,7) l(3,4) marked_strict by metis
  then show ?thesis using u [OF l(1), of ni] u [OF l(2), of no] c by (auto simp: flow_size_def)
qed

lemma flow_block_shrinks:
  assumes f: "shrinking p preds f" and i: "i < length (prog_blocks p)"
  shows "shrinking p preds (flow_block p 0 preds i f)"
    "flow_block p 0 preds i f = f \<or> flow_size (flow_block p 0 preds i f) < flow_size f"
proof -
  let ?ni = "next_incoming p 0 preds (outgoing f) i" and ?g = "flow_block p 0 preds i f"
  have sh: "flow_shape p preds f" using f by (simp add: shrinking_def)
  have ni: "length ?ni = length (prog_slots p)" using sh i by (rule next_incoming_length)
  have le: "marked ?ni \<subseteq> marked (incoming f ! i)" "marked (block_writes p i ?ni) \<subseteq> marked (outgoing f ! i)"
    using f i unfolding shrinking_def by blast+
  have "shrinking p preds ?g \<and> (?g = f \<or> flow_size ?g < flow_size f)"
  proof (cases "solves_at p 0 preds f i")
    case True
    then show ?thesis using f by (simp add: flow_block_eq)
  next
    case False
    have i0: "i \<noteq> 0" using False f i by (cases "i = 0") (auto simp: shrinking_def)
    have g: "?g = \<lparr>incoming = (incoming f)[i := ?ni], outgoing = (outgoing f)[i := block_writes p i ?ni], flow_changed = True\<rparr>"
      using False by (simp add: flow_block_eq)
    have len: "length (incoming f) = length (prog_blocks p)" "length (outgoing f) = length (prog_blocks p)"
      using sh by (simp_all add: flow_shape_def)
    have shg: "flow_shape p preds ?g" using sh ni i unfolding g flow_shape_def by (auto simp: nth_list_update)
    have out: "\<forall>q < length (prog_blocks p). marked (outgoing ?g ! q) \<subseteq> marked (outgoing f ! q)"
      unfolding g using le(2) len i by (auto simp: nth_list_update simp del: mem_marked)
    have m: "marked (next_incoming p 0 preds (outgoing ?g) j) \<subseteq> marked (next_incoming p 0 preds (outgoing f) j)"
      "marked (block_writes p j (next_incoming p 0 preds (outgoing ?g) j)) \<subseteq> marked (block_writes p j (next_incoming p 0 preds (outgoing f) j))"
      if "j < length (prog_blocks p)" for j
    proof -
      show n: "marked (next_incoming p 0 preds (outgoing ?g) j) \<subseteq> marked (next_incoming p 0 preds (outgoing f) j)"
        by (rule next_incoming_mono [OF sh shg out that])
      show "marked (block_writes p j (next_incoming p 0 preds (outgoing ?g) j)) \<subseteq> marked (block_writes p j (next_incoming p 0 preds (outgoing f) j))"
        by (rule block_writes_mono [OF _ n]) (simp add: next_incoming_length [OF sh that] next_incoming_length [OF shg that])
    qed
    have bound: "marked (next_incoming p 0 preds (outgoing f) j) \<subseteq> marked (incoming ?g ! j)"
      "marked (block_writes p j (next_incoming p 0 preds (outgoing f) j)) \<subseteq> marked (outgoing ?g ! j)"
      if "j < length (prog_blocks p)" for j
      using f that len unfolding g shrinking_def by (cases "j = i"; simp)+
    have "solves_at p 0 preds ?g 0"
      using f i i0 len unfolding g shrinking_def solves_at_def next_incoming_def by (cases "prog_blocks p") auto
    then have "shrinking p preds ?g" unfolding shrinking_def using shg m bound by blast
    moreover have "incoming f ! i \<noteq> ?ni \<or> outgoing f ! i \<noteq> block_writes p i ?ni" using False by (auto simp: solves_at_def)
    then have "flow_size ?g < flow_size f" unfolding g using flow_size_update [OF sh i ni _ le] ni by simp
    ultimately show ?thesis by blast
  qed
  then show "shrinking p preds ?g" "?g = f \<or> flow_size ?g < flow_size f" by blast+
qed

lemma flow_fold_shrinks:
  "shrinking p preds f \<Longrightarrow> set is \<subseteq> {..<length (prog_blocks p)} \<Longrightarrow>
     shrinking p preds (fold (flow_block p 0 preds) is f) \<and>
     (fold (flow_block p 0 preds) is f = f \<or> flow_size (fold (flow_block p 0 preds) is f) < flow_size f)"
proof (induction "is" arbitrary: f)
  case (Cons i "is")
  have i: "i < length (prog_blocks p)" and r: "set is \<subseteq> {..<length (prog_blocks p)}" using Cons.prems by auto
  note b = flow_block_shrinks [OF Cons.prems(1) i]
  show ?case using Cons.IH [OF b(1) r] b(2) by auto
qed simp

lemma shrinking_flag [simp]: "shrinking p preds (f\<lparr>flow_changed := b\<rparr>) = shrinking p preds f"
  by (simp add: shrinking_def flow_shape_def solves_at_def)

lemma flow_size_flag [simp]: "flow_size (f\<lparr>flow_changed := b\<rparr>) = flow_size f"
  by (simp add: flow_size_def)

lemma flow_pass_shrinks:
  assumes "shrinking p preds f"
  shows "shrinking p preds (flow_pass p 0 preds f)" "flow_changed (flow_pass p 0 preds f) \<Longrightarrow> flow_size (flow_pass p 0 preds f) < flow_size f"
  using flow_fold_shrinks [of p preds "f\<lparr>flow_changed := False\<rparr>" "[0..<length (prog_blocks p)]"] assms
  by (auto simp: flow_pass_def atLeast0LessThan)

lemma flow_loop_shrinking: "shrinking p preds f \<Longrightarrow> \<exists>g. flow_loop p 0 preds f = Some g"
proof (induction "flow_size f" arbitrary: f rule: less_induct)
  case less
  show ?case using less flow_pass_shrinks [OF less.prems] by (cases "flow_changed (flow_pass p 0 preds f)") (simp_all add: flow_loop.simps [of p 0 preds f] Let_def)
qed

lemma flow_loop_ends:
  assumes "prog_blocks p \<noteq> []" "\<forall>i < length (prog_blocks p). \<forall>q \<in> set (preds ! i). q < length (prog_blocks p)"
  shows "\<exists>g. flow_loop p 0 preds (flow_start p 0) = Some g"
proof -
  let ?n = "length (prog_blocks p)" and ?k = "length (prog_slots p)" and ?s = "(flow_start p 0)\<lparr>flow_changed := False\<rparr>"
  let ?all = "replicate ?k True" and ?init = "initial_slots p"
  have n: "0 < ?n" using assms(1) by simp
  have s: "incoming ?s = (replicate ?n ?all)[0 := ?init]" "outgoing ?s = (replicate ?n ?all)[0 := ?init]"
    by (simp_all add: flow_start_def Let_def)
  let ?b = "flow_block p 0 preds 0 ?s"
  have b: "incoming ?b = (replicate ?n ?all)[0 := ?init]" "outgoing ?b = (replicate ?n ?all)[0 := block_writes p 0 ?init]"
    using n unfolding flow_block_eq solves_at_def s by (auto simp: s next_incoming_def)
  have nth: "incoming ?b ! j = (if j = 0 then ?init else ?all)" "outgoing ?b ! j = (if j = 0 then block_writes p 0 ?init else ?all)" if "j < ?n" for j
    using that n unfolding b by (simp_all add: nth_list_update)
  have sh: "flow_shape p preds ?b" unfolding flow_shape_def using b nth assms(2) by simp
  have top: "length a = ?k \<Longrightarrow> marked a \<subseteq> marked ?all" for a by auto
  have le: "marked (next_incoming p 0 preds (outgoing ?b) j) \<subseteq> marked (incoming ?b ! j)"
    "marked (block_writes p j (next_incoming p 0 preds (outgoing ?b) j)) \<subseteq> marked (outgoing ?b ! j)" if "j < ?n" for j
    unfolding nth [OF that] using top [of "next_incoming p 0 preds (outgoing ?b) j"] next_incoming_length [OF sh that]
      top [of "block_writes p j (next_incoming p 0 preds (outgoing ?b) j)"]
    by (cases "j = 0"; simp add: next_incoming_def)+
  have "solves_at p 0 preds ?b 0" using nth [OF n] by (simp add: solves_at_def next_incoming_def)
  with sh le have "shrinking p preds ?b" unfolding shrinking_def by blast
  moreover have "flow_pass p 0 preds (flow_start p 0) = fold (flow_block p 0 preds) [1..<?n] ?b"
    unfolding flow_pass_def using n by (simp add: upt_conv_Cons)
  ultimately have "shrinking p preds (flow_pass p 0 preds (flow_start p 0))"
    using flow_fold_shrinks [of p preds ?b "[1..<?n]"] by (auto simp: subset_iff)
  from flow_loop_shrinking [OF this] show ?thesis by (auto simp: flow_loop.simps [of p 0 preds "flow_start p 0"] Let_def)
qed

section \<open>The control-flow graph of a program\<close>

lemma successors_length [simp]: "length (successors p) = length (prog_blocks p)"
  by (simp add: successors_def)

lemma successors_targets_ok: "verify_blocks x p = Inr () \<Longrightarrow> targets_ok (successors p)"
  by (fastforce simp: targets_ok_def successors_def verify_blocks_def)

lemma predecessors_iff:
  "t < length (prog_blocks p) \<Longrightarrow> q \<in> set (predecessors p ! t) \<longleftrightarrow> q < length (prog_blocks p) \<and> t \<in> set (successors p ! q)"
  by (auto simp: predecessors_def)

lemma definite_initialization_ends:
  assumes "prog_blocks p \<noteq> []"
  shows "\<exists>r. verify_definite_initialization p 0 (predecessors p) = Some r"
proof -
  have "\<forall>i < length (prog_blocks p). \<forall>q \<in> set (predecessors p ! i). q < length (prog_blocks p)" by (simp add: predecessors_iff)
  from flow_loop_ends [OF assms this] show ?thesis by (auto simp: verify_definite_initialization_def)
qed

lemma verify_ends:
  assumes "prog_entry p = 0"
  shows "\<exists>r. verify x p = Some r"
proof -
  have "\<exists>r. reachable_blocks 0 (successors p) = Some r" "\<exists>r. verify_definite_initialization p 0 (predecessors p) = Some r"
    if "verify_blocks x p = Inr ()" "0 < length (prog_blocks p)"
    using reachable_blocks_result [of 0 "successors p"] successors_targets_ok that definite_initialization_ends by auto
  then show ?thesis unfolding verify_def assms by (auto split: sum.split option.split)
qed

end
