(* ===== verification/Proc_Frame.thy ===== *)
theory Proc_Frame
  imports Proc_Verify
begin

text \<open>
  The state of a running routine and its pure steps, after \<open>crates/radixdb-procedural/src/runtime/\<close>: the frame of slots with its
  heap accounting (\<open>frame.rs\<close>), scalar and record operations (\<open>scalar.rs\<close>, \<open>record.rs\<close>), composition of SQL text
  (\<open>interpreter/sql_text.rs\<close>), cursors (\<open>cursor.rs\<close>) and the execution state (\<open>state.rs\<close>). Operations are functions from the machine
  to a result and the machine after it; a failed step keeps what it did before it failed.
\<close>

section \<open>The machine\<close>

record frame =
  frame_defs :: "slot_definition list"
  frame_slots :: "runtime_value option list"
  frame_heap :: nat

record sql_status =
  row_count :: nat
  found :: bool

record cursor_state =
  cur_token :: nat
  cur_found :: "bool option"
  cur_row_count :: nat

record execution_outcome =
  return_value :: "runtime_value option"
  output_values :: "runtime_value list"
  outcome_rows :: nat
  outcome_status :: sql_status

record ('h, 's) machine =
  mframe :: frame
  mbudget :: budget
  mhost :: 'h
  msink :: 's
  msql_status :: sql_status
  mcursors :: "(cursor_id \<times> cursor_state) list"
  mresult_rows :: nat

type_synonym ('h, 's, 'a) exec = "('h, 's) machine \<Rightarrow> (diagnostic, 'a) result \<times> ('h, 's) machine"

definition succeed :: "'a \<Rightarrow> ('h, 's, 'a) exec" where
  "succeed v m = (Inr v, m)"

definition fail :: "diagnostic \<Rightarrow> ('h, 's, 'a) exec" where
  "fail d m = (Inl d, m)"

definition andthen :: "('h, 's, 'a) exec \<Rightarrow> ('a \<Rightarrow> ('h, 's, 'b) exec) \<Rightarrow> ('h, 's, 'b) exec" where
  "andthen f g m = (case f m of (Inl d, m1) \<Rightarrow> (Inl d, m1) | (Inr v, m1) \<Rightarrow> g v m1)"

definition from_result :: "(('h, 's) machine \<Rightarrow> (diagnostic, 'a) result) \<Rightarrow> ('h, 's, 'a) exec" where
  "from_result f m = (f m, m)"

definition on_budget :: "'a budgeted \<Rightarrow> ('h, 's, 'a) exec" where
  "on_budget f m = (case f (mbudget m) of (r, b) \<Rightarrow> (r, m\<lparr>mbudget := b\<rparr>))"

definition update_machine :: "(('h, 's) machine \<Rightarrow> ('h, 's) machine) \<Rightarrow> ('h, 's, unit) exec" where
  "update_machine f m = (Inr (), f m)"

definition default_status :: sql_status where
  "default_status = \<lparr>row_count = 0, found = False\<rparr>"

section \<open>Frames\<close>

definition new_frame :: "slot_definition list \<Rightarrow> frame" where
  "new_frame defs =
     \<lparr>frame_defs = defs,
      frame_slots = map (\<lambda>d. case runtime_type d of CollectionT _ _ \<Rightarrow> Some (CollectionV 0 []) | _ \<Rightarrow> None) defs,
      frame_heap = 0\<rparr>"

definition slot_type :: "frame \<Rightarrow> slot_id \<Rightarrow> (diagnostic, runtime_type) result" where
  "slot_type f s =
     (case nth_opt (frame_defs f) s of
        None \<Rightarrow> Inl (invalid_runtime ''verified slot disappeared at runtime'')
      | Some d \<Rightarrow> Inr (runtime_type d))"

definition frame_read :: "frame \<Rightarrow> slot_id \<Rightarrow> (diagnostic, runtime_value) result" where
  "frame_read f s =
     (case nth_opt (frame_slots f) s of
        Some (Some v) \<Rightarrow> Inr v
      | _ \<Rightarrow> Inl (invalid_runtime ''verified initialized slot has no runtime value''))"

definition frame_scalar :: "frame \<Rightarrow> slot_id \<Rightarrow> (diagnostic, sql_value) result" where
  "frame_scalar f s =
     rbind (frame_read f s) (\<lambda>v.
       case v of ScalarV u \<Rightarrow> Inr u | _ \<Rightarrow> Inl (invalid_runtime ''verified scalar slot changed shape''))"

text \<open>The first loop of \<open>assign_many\<close>: every value is checked and the bytes before and after are counted.\<close>

fun check_assignments ::
  "external_code \<Rightarrow> frame \<Rightarrow> source_span option \<Rightarrow> (slot_id \<times> runtime_value) list \<Rightarrow> nat \<Rightarrow> nat \<Rightarrow> (diagnostic, nat \<times> nat) result" where
  "check_assignments x f sp [] old_bytes new_bytes = Inr (old_bytes, new_bytes)"
| "check_assignments x f sp ((d, v) # rest) old_bytes new_bytes =
     (case nth_opt (frame_defs f) d of
        None \<Rightarrow> Inl (invalid_runtime ''assignment destination is out of bounds'')
      | Some df \<Rightarrow>
          if \<not> accepts x (runtime_type df) v
          then Inl (attach_span sp (with_detail ''slot'' (slot_name df)
                 (new_diagnostic RuntimeInvalidIr ''runtime value violates verified slot type'')))
          else check_assignments x f sp rest
                 (saturating_add_u64 old_bytes (case frame_slots f ! d of None \<Rightarrow> 0 | Some o_val \<Rightarrow> owned_bytes o_val))
                 (saturating_add_u64 new_bytes (owned_bytes v)))"

definition store_values :: "(slot_id \<times> runtime_value) list \<Rightarrow> runtime_value option list \<Rightarrow> runtime_value option list" where
  "store_values dvs slots = fold (\<lambda>(d, v) slots. slots[d := Some v]) dvs slots"

definition assign_many ::
  "external_code \<Rightarrow> slot_id list \<Rightarrow> runtime_value list \<Rightarrow> source_span option \<Rightarrow> ('h, 's, unit) exec" where
  "assign_many x ds vs sp m =
     (if length ds \<noteq> length vs then (Inl (attach_span sp (invalid_runtime ''assignment width differs'')), m)
      else case check_assignments x (mframe m) sp (zip ds vs) 0 0 of
        Inl d \<Rightarrow> (Inl d, m)
      | Inr (old_bytes, new_bytes) \<Rightarrow>
          (case (if new_bytes > old_bytes then charge_heap (new_bytes - old_bytes) (mbudget m) else (Inr (), mbudget m)) of
             (Inl d, b) \<Rightarrow> (Inl d, m\<lparr>mbudget := b\<rparr>)
           | (Inr _, b) \<Rightarrow>
               (let f = mframe m
                in (Inr (), m\<lparr>mbudget := (if old_bytes > new_bytes then release_heap (old_bytes - new_bytes) b else b),
                             mframe := f\<lparr>frame_slots := store_values (zip ds vs) (frame_slots f),
                                         frame_heap := saturating_add_u64 (frame_heap f - old_bytes) new_bytes\<rparr>\<rparr>))))"

definition assign :: "external_code \<Rightarrow> slot_id \<Rightarrow> runtime_value \<Rightarrow> source_span option \<Rightarrow> ('h, 's, unit) exec" where
  "assign x d v sp = assign_many x [d] [v] sp"

abbreviation read_clone :: "slot_id \<Rightarrow> ('h, 's, runtime_value) exec" where
  "read_clone s \<equiv> from_result (\<lambda>m. rbind (frame_read (mframe m) s) (\<lambda>v. Inr (clone_value v)))"

definition read_all_slots :: "slot_id list \<Rightarrow> ('h, 's, runtime_value list) exec" where
  "read_all_slots ss = from_result (\<lambda>m. map_res (\<lambda>s. rbind (frame_read (mframe m) s) (\<lambda>v. Inr (clone_value v))) ss)"

abbreviation read_scalar :: "slot_id \<Rightarrow> ('h, 's, sql_value) exec" where
  "read_scalar s \<equiv> from_result (\<lambda>m. frame_scalar (mframe m) s)"

section \<open>Scalars\<close>

definition collection_index :: "frame \<Rightarrow> slot_id \<Rightarrow> (diagnostic, nat) result" where
  "collection_index f s =
     rbind (frame_scalar f s) (\<lambda>v.
       case v of
         VInteger i \<Rightarrow> if i > 0 then Inr (nat (i - 1))
                      else Inl (new_diagnostic RuntimeArrayBounds ''collection index must be a positive INTEGER'')
       | _ \<Rightarrow> Inl (new_diagnostic RuntimeArrayBounds ''collection index must be a positive INTEGER''))"

definition integer_binary ::
  "string \<Rightarrow> (int \<Rightarrow> int \<Rightarrow> int option) \<Rightarrow> runtime_value \<Rightarrow> runtime_value \<Rightarrow> (diagnostic, runtime_value) result" where
  "integer_binary operation apply_op l r =
     (case (l, r) of
        (ScalarV lv, ScalarV rv) \<Rightarrow>
          (if value_is_null lv \<or> value_is_null rv then Inr (ScalarV (VNull DtInteger))
           else case (lv, rv) of
             (VInteger i, VInteger j) \<Rightarrow>
               (case apply_op i j of
                  None \<Rightarrow> Inl (new_diagnostic RuntimeNumericOverflow (''INTEGER '' @ operation @ '' overflow''))
                | Some k \<Rightarrow> Inr (ScalarV (VInteger k)))
           | _ \<Rightarrow> Inl (invalid_runtime ''verified INTEGER operand changed type''))
      | _ \<Rightarrow> Inl (invalid_runtime ''verified INTEGER operand changed shape''))"

definition integer_add_checked :: "runtime_value \<Rightarrow> runtime_value \<Rightarrow> (diagnostic, runtime_value) result" where
  "integer_add_checked = integer_binary ''addition'' checked_add_i64"

definition integer_subtract_checked :: "runtime_value \<Rightarrow> runtime_value \<Rightarrow> (diagnostic, runtime_value) result" where
  "integer_subtract_checked = integer_binary ''subtraction'' checked_sub_i64"

definition integer_less :: "sql_value \<Rightarrow> sql_value \<Rightarrow> (diagnostic, sql_value) result" where
  "integer_less l r =
     (if value_is_null l \<or> value_is_null r then Inr (VNull DtBoolean)
      else case (l, r) of
        (VInteger i, VInteger j) \<Rightarrow> Inr (VBoolean (i < j))
      | _ \<Rightarrow> Inl (invalid_runtime ''verified INTEGER operand changed type''))"

definition boolean_not :: "sql_value \<Rightarrow> (diagnostic, sql_value) result" where
  "boolean_not v =
     (case v of
        VNull _ \<Rightarrow> Inr (VNull DtBoolean)
      | VBoolean b \<Rightarrow> Inr (VBoolean (\<not> b))
      | _ \<Rightarrow> Inl (invalid_runtime ''verified BOOLEAN operand changed type''))"

section \<open>Records\<close>

definition make_record :: "external_code \<Rightarrow> slot_id \<Rightarrow> slot_id list \<Rightarrow> ('h, 's, unit) exec" where
  "make_record x d ss =
     andthen (from_result (\<lambda>m. map_res (frame_scalar (mframe m)) ss)) (\<lambda>vs.
       assign x d (RecordV (vec_capacity x (length vs)) (map Some vs)) None)"

definition read_record_field :: "external_code \<Rightarrow> slot_id \<Rightarrow> slot_id \<Rightarrow> nat \<Rightarrow> ('h, 's, unit) exec" where
  "read_record_field x d r i =
     andthen (from_result (\<lambda>m. rbind (frame_read (mframe m) r) (\<lambda>v.
       case v of
         RecordV _ vs \<Rightarrow>
           (case nth_opt vs i of
              None \<Rightarrow> Inl (invalid_runtime ''verified record ordinal is out of bounds'')
            | Some None \<Rightarrow> Inl (new_diagnostic RuntimeNullNotAllowed ''record field is not initialized'')
            | Some (Some u) \<Rightarrow> Inr u)
       | _ \<Rightarrow> Inl (invalid_runtime ''verified record slot changed type'')))) (\<lambda>u.
     assign x d (ScalarV u) None)"

definition write_record_field :: "external_code \<Rightarrow> slot_id \<Rightarrow> nat \<Rightarrow> slot_id \<Rightarrow> ('h, 's, unit) exec" where
  "write_record_field x r i v =
     andthen (read_scalar v) (\<lambda>u.
     andthen (from_result (\<lambda>m. rbind (frame_read (mframe m) r) (\<lambda>w.
       case w of
         RecordV _ vs \<Rightarrow>
           if i < length vs then Inr (RecordV (length vs) (vs[i := Some u]))
           else Inl (invalid_runtime ''verified record ordinal is out of bounds'')
       | _ \<Rightarrow> Inl (invalid_runtime ''verified record slot changed type'')))) (\<lambda>w.
     assign x r w None))"

section \<open>SQL text\<close>

definition double_quotes :: "string \<Rightarrow> string" where
  "double_quotes s = concat (map (\<lambda>c. if c = CHR 0x22 then [CHR 0x22, CHR 0x22] else [c]) s)"

definition quoted_identifier :: "string \<Rightarrow> string" where
  "quoted_identifier s = [CHR 0x22] @ double_quotes s @ [CHR 0x22]"

definition quote_sql_identifier :: "external_code \<Rightarrow> slot_id \<Rightarrow> slot_id \<Rightarrow> ('h, 's, unit) exec" where
  "quote_sql_identifier x d s =
     andthen (from_result (\<lambda>m. rbind (frame_scalar (mframe m) s) (\<lambda>v.
       case v of
         VText t \<Rightarrow> Inr t
       | VNull _ \<Rightarrow> Inl (new_diagnostic RuntimeNullNotAllowed ''SQL_IDENTIFIER argument cannot be NULL'')
       | _ \<Rightarrow> Inl (invalid_runtime ''SQL_IDENTIFIER argument is not TEXT'')))) (\<lambda>t.
       case new_catalog_name x t of
         Inl _ \<Rightarrow> fail (new_diagnostic RuntimeInvalidArgument ''SQL_IDENTIFIER argument is not an admitted catalog identifier'')
       | Inr n \<Rightarrow> assign x d (SqlIdentifierV (quoted_identifier (display_name n))) None)"

fun sql_text_fragment :: "runtime_value \<Rightarrow> (diagnostic, string option) result" where
  "sql_text_fragment (ScalarV (VText t)) = Inr (Some t)"
| "sql_text_fragment (ScalarV (VNull _)) = Inr None"
| "sql_text_fragment (SqlIdentifierV s) = Inr (Some s)"
| "sql_text_fragment _ = Inl (invalid_runtime ''dynamic SQL concatenation operand changed type'')"

definition concatenate_sql_text :: "external_code \<Rightarrow> slot_id \<Rightarrow> slot_id \<Rightarrow> slot_id \<Rightarrow> ('h, 's, unit) exec" where
  "concatenate_sql_text x d l r =
     andthen (from_result (\<lambda>m.
       rbind (rbind (frame_read (mframe m) l) sql_text_fragment) (\<lambda>a.
       rbind (rbind (frame_read (mframe m) r) sql_text_fragment) (\<lambda>b.
         Inr (case (a, b) of (Some s, Some t) \<Rightarrow> VText (s @ t) | _ \<Rightarrow> VNull DtText))))) (\<lambda>v.
     assign x d (ScalarV v) None)"

section \<open>Rows\<close>

definition row_bytes :: "runtime_value list \<Rightarrow> nat" where
  "row_bytes row = fold (\<lambda>v acc. saturating_add_u64 acc (owned_bytes v)) row 0"

definition charge_result_row :: "runtime_value list \<Rightarrow> unit budgeted" where
  "charge_result_row row b =
     (case charge_rows 1 b of (Inl d, b1) \<Rightarrow> (Inl d, b1) | (Inr _, b1) \<Rightarrow> charge_result_bytes (row_bytes row) b1)"

definition assign_cursor_row :: "external_code \<Rightarrow> slot_id list \<Rightarrow> runtime_value list \<Rightarrow> ('h, 's, unit) exec" where
  "assign_cursor_row x ds row =
     andthen (from_result (\<lambda>m.
       if length ds = 1
       then rbind (slot_type (mframe m) (hd ds)) (\<lambda>t. Inr (case t of RecordT _ n \<Rightarrow> \<not> n | _ \<Rightarrow> False))
       else Inr False)) (\<lambda>whole_record.
     if whole_record
     then andthen (from_result (\<lambda>_. map_res (\<lambda>v. case v of ScalarV u \<Rightarrow> Inr u
              | _ \<Rightarrow> Inl (invalid_runtime ''cursor row contains a non-scalar field'')) row)) (\<lambda>us.
            assign_many x ds [RecordV (vec_capacity x (length us)) (map Some us)] None)
     else if length ds \<noteq> length row then fail (invalid_runtime ''cursor row width differs from FETCH destinations'')
     else assign_many x ds row None)"

end
