(* ===== verification/Proc_Interp.thy ===== *)
theory Proc_Interp
  imports Proc_Frame
begin

text \<open>
  The interpreter, after \<open>crates/radixdb-procedural/src/host.rs\<close> and \<open>runtime/interpreter.rs\<close>, \<open>runtime/exception.rs\<close>,
  \<open>runtime/sinks.rs\<close>, \<open>runtime/application.rs\<close> and \<open>runtime/cursor.rs\<close>. The interpreter is generic in its host, so the host is a
  record of functions over a host state; a call that is handed the budget or a row sink is a session over the requests it may make.
  The execution loop has no bound of its own and is a partial function; \<open>Proc_Meter\<close> shows that it returns.
\<close>

section \<open>Hosts\<close>

datatype sink_op = PushRow "runtime_value list" | SinkBudget budget_op

record audit_event =
  audit_object :: object_id
  command_fingerprint :: "byte list"
  audit_metadata :: sql_value

record outbox_message =
  idempotency_key :: string
  schema_version :: nat
  outbox_payload :: sql_value

type_synonym ('h, 'a) host_call = "(budget_op, (diagnostic, 'a) result \<times> 'h) session"
type_synonym ('h, 'a) sql_call = "(sink_op, (diagnostic, 'a) result \<times> 'h) session"

record ('q, 'h) runtime_host =
  evaluate_expression :: "'q \<Rightarrow> runtime_value list \<Rightarrow> 'h \<Rightarrow> ('h, runtime_value) host_call"
  evaluate_binary :: "infix_operator \<Rightarrow> runtime_value \<Rightarrow> runtime_value \<Rightarrow> 'h \<Rightarrow> ('h, runtime_value) host_call"
  execute_sql :: "'q sql_statement \<Rightarrow> runtime_value list \<Rightarrow> 'h \<Rightarrow> ('h, nat) sql_call"
  execute_dynamic_sql :: "string \<Rightarrow> runtime_value list \<Rightarrow> 'h \<Rightarrow> ('h, nat) sql_call"
  open_cursor :: "'q sql_statement \<Rightarrow> runtime_value list \<Rightarrow> 'h \<Rightarrow> ('h, nat) host_call"
  fetch_cursor :: "nat \<Rightarrow> 'h \<Rightarrow> ('h, runtime_value list option) host_call"
  close_cursor :: "nat \<Rightarrow> 'h \<Rightarrow> (diagnostic, unit) result \<times> 'h"
  create_savepoint :: "'h \<Rightarrow> (diagnostic, nat) result \<times> 'h"
  rollback_savepoint :: "nat \<Rightarrow> 'h \<Rightarrow> (diagnostic, unit) result \<times> 'h"
  release_savepoint :: "nat \<Rightarrow> 'h \<Rightarrow> (diagnostic, unit) result \<times> 'h"
  call_routine :: "object_id \<Rightarrow> runtime_value list \<Rightarrow> 'h \<Rightarrow> ('h, runtime_value list) host_call"
  append_audit_host :: "audit_event \<Rightarrow> 'h \<Rightarrow> (diagnostic, unit) result \<times> 'h"
  append_outbox_host :: "outbox_message \<Rightarrow> 'h \<Rightarrow> (diagnostic, unit) result \<times> 'h"

definition ask_host :: "('h \<Rightarrow> ('h, 'a) host_call) \<Rightarrow> ('h, 's, 'a) exec" where
  "ask_host call m =
     (case run_session budget_step (call (mhost m)) (mbudget m) of ((r, h), b) \<Rightarrow> (r, m\<lparr>mhost := h, mbudget := b\<rparr>))"

definition tell_host :: "('h \<Rightarrow> (diagnostic, 'a) result \<times> 'h) \<Rightarrow> ('h, 's, 'a) exec" where
  "tell_host call m = (case call (mhost m) of (r, h) \<Rightarrow> (r, m\<lparr>mhost := h\<rparr>))"

section \<open>Row sinks\<close>

record into_sink =
  retain_first :: bool
  first_row :: "runtime_value list option"
  into_rows :: nat

fun into_step :: "sink_op \<Rightarrow> budget \<times> into_sink \<Rightarrow> (diagnostic, nat) result \<times> (budget \<times> into_sink)" where
  "into_step (SinkBudget op) (b, k) = (case budget_step op b of (r, b1) \<Rightarrow> (r, (b1, k)))"
| "into_step (PushRow row) (b, k) =
     (case check_boundary b of (Inl d, b1) \<Rightarrow> (Inl d, (b1, k)) | (Inr _, b1) \<Rightarrow>
     (case charge_rows 1 b1 of (Inl d, b2) \<Rightarrow> (Inl d, (b2, k)) | (Inr _, b2) \<Rightarrow>
     (case charge_result_bytes (row_bytes row) b2 of (Inl d, b3) \<Rightarrow> (Inl d, (b3, k)) | (Inr _, b3) \<Rightarrow>
       (let k1 = k\<lparr>into_rows := saturating_add_u64 (into_rows k) 1\<rparr>
        in if retain_first k
           then if first_row k \<noteq> None
                then (Inl (new_diagnostic CardinalityTooManyRows ''SQL INTO produced more than one row''), (b3, k1))
                else (Inr 0, (b3, k1\<lparr>first_row := Some row\<rparr>))
           else (Inr 0, (b3, k1))))))"

record 's forward_sink =
  inner_sink :: 's
  total_rows :: nat
  forwarded_rows :: nat

fun forward_step ::
  "external_code \<Rightarrow> (runtime_value list \<Rightarrow> 's \<Rightarrow> (diagnostic, unit) result \<times> 's) \<Rightarrow> runtime_type list \<Rightarrow>
   sink_op \<Rightarrow> budget \<times> 's forward_sink \<Rightarrow> (diagnostic, nat) result \<times> (budget \<times> 's forward_sink)" where
  "forward_step x push expected (SinkBudget op) (b, k) = (case budget_step op b of (r, b1) \<Rightarrow> (r, (b1, k)))"
| "forward_step x push expected (PushRow row) (b, k) =
     (if \<not> list_all2 (\<lambda>v t. accepts x t v) row expected
      then (Inl (new_diagnostic RuntimeInvalidIr ''SQL host row violates the bound RETURN QUERY contract''), (b, k))
      else case charge_result_row row b of (Inl d, b1) \<Rightarrow> (Inl d, (b1, k)) | (Inr _, b1) \<Rightarrow>
     (case push row (inner_sink k) of
        (Inl d, s1) \<Rightarrow> (Inl d, (b1, k\<lparr>inner_sink := s1\<rparr>))
      | (Inr _, s1) \<Rightarrow> (Inr 0, (b1, k\<lparr>inner_sink := s1, total_rows := saturating_add_u64 (total_rows k) 1,
                                   forwarded_rows := saturating_add_u64 (forwarded_rows k) 1\<rparr>))))"

definition reject_row :: "runtime_value list \<Rightarrow> unit \<Rightarrow> (diagnostic, unit) result \<times> unit" where
  "reject_row row s =
     (Inl (new_diagnostic VerifyCapabilityDenied ''set-returning program requires an explicit result sink''), s)"

section \<open>SQL statements and cursors\<close>

definition ask_into :: "('h \<Rightarrow> ('h, nat) sql_call) \<Rightarrow> bool \<Rightarrow> ('h, 's, nat \<times> into_sink) exec" where
  "ask_into call retain m =
     (case run_session into_step (call (mhost m)) (mbudget m, \<lparr>retain_first = retain, first_row = None, into_rows = 0\<rparr>) of
        ((r, h), (b, k)) \<Rightarrow>
          (case r of Inl d \<Rightarrow> (Inl d, m\<lparr>mhost := h, mbudget := b\<rparr>)
           | Inr affected \<Rightarrow> (Inr (affected, k), m\<lparr>mhost := h, mbudget := b\<rparr>)))"

definition set_status :: "nat \<Rightarrow> nat \<Rightarrow> ('h, 's, unit) exec" where
  "set_status affected produced =
     update_machine (\<lambda>m. m\<lparr>msql_status := \<lparr>row_count = max affected produced, found = (affected > 0 \<or> produced > 0)\<rparr>\<rparr>)"

definition null_row :: "slot_id list \<Rightarrow> ('h, 's, runtime_value list) exec" where
  "null_row into = from_result (\<lambda>m. map_res (\<lambda>s. rbind (slot_type (mframe m) s) null_value) into)"

definition run_into ::
  "external_code \<Rightarrow> ('h \<Rightarrow> ('h, nat) sql_call) \<Rightarrow> slot_id list \<Rightarrow> bool \<Rightarrow> string \<Rightarrow> string \<Rightarrow> ('h, 's, unit) exec" where
  "run_into x call into strict no_rows width =
     andthen (ask_into call (into \<noteq> [])) (\<lambda>(affected, k).
     andthen (if into_rows k = 0 then on_budget (charge_rows affected) else succeed ()) (\<lambda>_.
     andthen (set_status affected (into_rows k)) (\<lambda>_.
     andthen (if into = [] then succeed ()
              else andthen (case first_row k of
                              Some row \<Rightarrow> succeed row
                            | None \<Rightarrow> if strict then fail (new_diagnostic CardinalityNoDataFound no_rows) else null_row into) (\<lambda>vs.
                   if length vs \<noteq> length into then fail (invalid_runtime width) else assign_many x into vs None)) (\<lambda>_.
       on_budget check_boundary))))"

definition execute_sql_instruction ::
  "external_code \<Rightarrow> ('q, 'h) runtime_host \<Rightarrow> 'q sql_statement \<Rightarrow> slot_id list \<Rightarrow> slot_id list \<Rightarrow> bool \<Rightarrow> ('h, 's, unit) exec" where
  "execute_sql_instruction x H st ps into strict =
     andthen (on_budget check_boundary) (\<lambda>_.
     andthen (on_budget charge_sql_statement) (\<lambda>_.
     andthen (read_all_slots ps) (\<lambda>params.
       run_into x (execute_sql H st params) into strict ''STRICT SQL INTO produced no rows''
         ''SQL row width differs from verified INTO destinations'')))"

definition dynamic_source :: "sql_value \<Rightarrow> (diagnostic, string) result" where
  "dynamic_source v =
     (case v of
        VText t \<Rightarrow> Inr t
      | VNull _ \<Rightarrow> Inl (new_diagnostic RuntimeNullNotAllowed ''dynamic SQL source cannot be NULL'')
      | _ \<Rightarrow> Inl (invalid_runtime ''dynamic SQL source is not TEXT''))"

definition execute_dynamic_instruction ::
  "external_code \<Rightarrow> ('q, 'h) runtime_host \<Rightarrow> slot_id \<Rightarrow> slot_id list \<Rightarrow> slot_id list \<Rightarrow> bool \<Rightarrow> ('h, 's, unit) exec" where
  "execute_dynamic_instruction x H s ps into strict =
     andthen (on_budget check_boundary) (\<lambda>_.
     andthen (on_budget charge_sql_statement) (\<lambda>_.
     andthen (from_result (\<lambda>m. rbind (frame_scalar (mframe m) s) dynamic_source)) (\<lambda>source.
     andthen (read_all_slots ps) (\<lambda>params.
       run_into x (execute_dynamic_sql H source params) into strict ''STRICT dynamic SQL INTO produced no rows''
         ''dynamic SQL row width differs from INTO destinations''))))"

definition open_cursor_instruction ::
  "('q, 'h) runtime_host \<Rightarrow> cursor_id \<Rightarrow> 'q sql_statement \<Rightarrow> slot_id list \<Rightarrow> ('h, 's, unit) exec" where
  "open_cursor_instruction H c st ps =
     andthen (from_result (\<lambda>m. guard_res (map_of (mcursors m) c = None) (invalid_runtime ''cursor is already open''))) (\<lambda>_.
     andthen (on_budget check_boundary) (\<lambda>_.
     andthen (on_budget charge_sql_statement) (\<lambda>_.
     andthen (read_all_slots ps) (\<lambda>params.
     andthen (ask_host (open_cursor H st params)) (\<lambda>token.
     andthen (update_machine (\<lambda>m. m\<lparr>mcursors := AList.update c \<lparr>cur_token = token, cur_found = None, cur_row_count = 0\<rparr> (mcursors m)\<rparr>)) (\<lambda>_.
       on_budget check_boundary))))))"

definition cursor_found_row :: "cursor_id \<Rightarrow> (cursor_id \<times> cursor_state) list \<Rightarrow> (cursor_id \<times> cursor_state) list" where
  "cursor_found_row c cs =
     (case map_of cs c of
        None \<Rightarrow> cs
      | Some st \<Rightarrow> AList.update c (st\<lparr>cur_found := Some True, cur_row_count := saturating_add_u64 (cur_row_count st) 1\<rparr>) cs)"

definition cursor_exhausted :: "cursor_id \<Rightarrow> (cursor_id \<times> cursor_state) list \<Rightarrow> (cursor_id \<times> cursor_state) list" where
  "cursor_exhausted c cs =
     (case map_of cs c of None \<Rightarrow> cs | Some st \<Rightarrow> AList.update c (st\<lparr>cur_found := Some False\<rparr>) cs)"

definition open_token :: "cursor_id \<Rightarrow> ('h, 's, nat) exec" where
  "open_token c =
     from_result (\<lambda>m. case map_of (mcursors m) c of None \<Rightarrow> Inl (invalid_runtime ''cursor is not open'') | Some st \<Rightarrow> Inr (cur_token st))"

definition fetch_cursor_instruction ::
  "external_code \<Rightarrow> ('q, 'h) runtime_host \<Rightarrow> cursor_id \<Rightarrow> slot_id list \<Rightarrow> slot_id \<Rightarrow> ('h, 's, unit) exec" where
  "fetch_cursor_instruction x H c into found_slot =
     andthen (open_token c) (\<lambda>token.
     andthen (on_budget check_boundary) (\<lambda>_.
     andthen (ask_host (fetch_cursor H token)) (\<lambda>row.
     andthen (assign x found_slot (ScalarV (VBoolean (row \<noteq> None))) None) (\<lambda>_.
     andthen (case row of
                Some vs \<Rightarrow>
                  andthen (on_budget (charge_rows 1)) (\<lambda>_.
                  andthen (on_budget (charge_result_bytes (row_bytes vs))) (\<lambda>_.
                  andthen (assign_cursor_row x into vs) (\<lambda>_.
                    update_machine (\<lambda>m. m\<lparr>msql_status := \<lparr>row_count = 1, found = True\<rparr>,
                                          mcursors := cursor_found_row c (mcursors m)\<rparr>))))
              | None \<Rightarrow>
                  update_machine (\<lambda>m. m\<lparr>msql_status := default_status, mcursors := cursor_exhausted c (mcursors m)\<rparr>)) (\<lambda>_.
       on_budget check_boundary)))))"

definition close_cursor_instruction :: "('q, 'h) runtime_host \<Rightarrow> cursor_id \<Rightarrow> ('h, 's, unit) exec" where
  "close_cursor_instruction H c =
     andthen (open_token c) (\<lambda>token.
     andthen (update_machine (\<lambda>m. m\<lparr>mcursors := AList.delete c (mcursors m)\<rparr>)) (\<lambda>_.
       tell_host (close_cursor H token)))"

definition emit_result_row ::
  "(runtime_value list \<Rightarrow> 's \<Rightarrow> (diagnostic, unit) result \<times> 's) \<Rightarrow> slot_id list \<Rightarrow> ('h, 's, unit) exec" where
  "emit_result_row push vs =
     andthen (read_all_slots vs) (\<lambda>row.
     andthen (on_budget (charge_result_row row)) (\<lambda>_.
     andthen (\<lambda>m. case push row (msink m) of (r, s) \<Rightarrow> (r, m\<lparr>msink := s\<rparr>)) (\<lambda>_.
       update_machine (\<lambda>m. m\<lparr>mresult_rows := saturating_add_u64 (mresult_rows m) 1\<rparr>))))"

definition ask_forward ::
  "external_code \<Rightarrow> (runtime_value list \<Rightarrow> 's \<Rightarrow> (diagnostic, unit) result \<times> 's) \<Rightarrow> runtime_type list \<Rightarrow>
   ('h \<Rightarrow> ('h, nat) sql_call) \<Rightarrow> ('h, 's, nat \<times> nat) exec" where
  "ask_forward x push expected call m =
     (case run_session (forward_step x push expected) (call (mhost m))
             (mbudget m, \<lparr>inner_sink = msink m, total_rows = mresult_rows m, forwarded_rows = 0\<rparr>) of
        ((r, h), (b, k)) \<Rightarrow>
          (let m1 = m\<lparr>mhost := h, mbudget := b, msink := inner_sink k, mresult_rows := total_rows k\<rparr>
           in case r of Inl d \<Rightarrow> (Inl d, m1) | Inr affected \<Rightarrow> (Inr (affected, forwarded_rows k), m1)))"

definition emit_result_query ::
  "external_code \<Rightarrow> ('q, 'h) runtime_host \<Rightarrow> (runtime_value list \<Rightarrow> 's \<Rightarrow> (diagnostic, unit) result \<times> 's) \<Rightarrow>
   runtime_type list \<Rightarrow> 'q sql_statement \<Rightarrow> slot_id list \<Rightarrow> ('h, 's, unit) exec" where
  "emit_result_query x H push columns st ps =
     andthen (on_budget check_boundary) (\<lambda>_.
     andthen (on_budget charge_sql_statement) (\<lambda>_.
     andthen (read_all_slots ps) (\<lambda>params.
     andthen (ask_forward x push columns (execute_sql H st params)) (\<lambda>(affected, produced).
     andthen (if produced = 0 then on_budget (charge_rows affected) else succeed ()) (\<lambda>_.
     andthen (set_status affected produced) (\<lambda>_.
       on_budget check_boundary))))))"

section \<open>Audit and outbox\<close>

definition null_error :: "string \<Rightarrow> diagnostic" where
  "null_error msg = new_diagnostic RuntimeNullNotAllowed msg"

definition required_json :: "string \<Rightarrow> sql_value \<Rightarrow> (diagnostic, sql_value) result" where
  "required_json null_message v =
     (if value_is_null v then Inl (null_error null_message)
      else if value_data_type v = DtJson then Inr v
      else Inl (invalid_runtime ''verified application JSON changed type''))"

definition audit_fingerprint :: "sql_value \<Rightarrow> (diagnostic, byte list) result" where
  "audit_fingerprint v =
     (if value_is_null v then Inl (null_error ''audit command fingerprint cannot be NULL'')
      else if value_data_type v = DtBytes
      then (case as_bytes_value v of
              Some bs \<Rightarrow> if length bs = 32 then Inr bs
                         else Inl (new_diagnostic RuntimeInvalidIr ''audit command fingerprint must contain exactly 32 bytes'')
            | None \<Rightarrow> Inl (new_diagnostic RuntimeInvalidIr ''audit command fingerprint must contain exactly 32 bytes''))
      else Inl (invalid_runtime ''verified audit fingerprint changed type''))"

definition append_audit :: "('q, 'h) runtime_host \<Rightarrow> object_id \<Rightarrow> slot_id \<Rightarrow> slot_id \<Rightarrow> ('h, 's, unit) exec" where
  "append_audit H oid fingerprint metadata =
     andthen (on_budget check_boundary) (\<lambda>_.
     andthen (on_budget charge_sql_statement) (\<lambda>_.
     andthen (from_result (\<lambda>m. rbind (frame_scalar (mframe m) fingerprint) audit_fingerprint)) (\<lambda>fp.
     andthen (from_result (\<lambda>m. rbind (frame_scalar (mframe m) metadata) (required_json ''audit metadata cannot be NULL''))) (\<lambda>md.
     andthen (tell_host (append_audit_host H \<lparr>audit_object = oid, command_fingerprint = fp, audit_metadata = md\<rparr>)) (\<lambda>_.
       on_budget check_boundary)))))"

definition outbox_key :: "sql_value \<Rightarrow> (diagnostic, string) result" where
  "outbox_key v =
     (case v of
        VText t \<Rightarrow> Inr t
      | VNull _ \<Rightarrow> Inl (null_error ''outbox idempotency key cannot be NULL'')
      | _ \<Rightarrow> Inl (invalid_runtime ''verified outbox key changed type''))"

definition outbox_version :: "sql_value \<Rightarrow> (diagnostic, nat) result" where
  "outbox_version v =
     (case v of
        VInteger i \<Rightarrow> if 0 \<le> i \<and> i \<le> int u32_max then Inr (nat i)
                     else Inl (new_diagnostic RuntimeInvalidIr ''outbox schema version is outside u32'')
      | VNull _ \<Rightarrow> Inl (null_error ''outbox schema version cannot be NULL'')
      | _ \<Rightarrow> Inl (invalid_runtime ''verified outbox version changed type''))"

definition append_outbox :: "('q, 'h) runtime_host \<Rightarrow> slot_id \<Rightarrow> slot_id \<Rightarrow> slot_id \<Rightarrow> ('h, 's, unit) exec" where
  "append_outbox H key version payload =
     andthen (on_budget check_boundary) (\<lambda>_.
     andthen (on_budget charge_sql_statement) (\<lambda>_.
     andthen (from_result (\<lambda>m. rbind (frame_scalar (mframe m) key) outbox_key)) (\<lambda>k.
     andthen (from_result (\<lambda>m. rbind (frame_scalar (mframe m) version) outbox_version)) (\<lambda>v.
     andthen (from_result (\<lambda>m. rbind (frame_scalar (mframe m) payload) (required_json ''outbox payload cannot be NULL''))) (\<lambda>p.
     andthen (tell_host (append_outbox_host H \<lparr>idempotency_key = k, schema_version = v, outbox_payload = p\<rparr>)) (\<lambda>_.
       on_budget check_boundary))))))"

section \<open>Instructions\<close>

definition collection_of :: "slot_id \<Rightarrow> ('h, 's, sql_value list) exec" where
  "collection_of c =
     from_result (\<lambda>m. rbind (frame_read (mframe m) c) (\<lambda>v.
       case v of CollectionV _ vs \<Rightarrow> Inr vs | _ \<Rightarrow> Inl (invalid_runtime ''verified collection value changed shape'')))"

definition collection_append :: "external_code \<Rightarrow> slot_id \<Rightarrow> slot_id \<Rightarrow> ('h, 's, unit) exec" where
  "collection_append x c v =
     andthen (read_scalar v) (\<lambda>u.
     andthen (from_result (\<lambda>m. rbind (slot_type (mframe m) c) (\<lambda>t.
       case t of CollectionT _ capacity \<Rightarrow> Inr capacity | _ \<Rightarrow> Inl (invalid_runtime ''verified collection slot changed type'')))) (\<lambda>capacity.
     andthen (collection_of c) (\<lambda>vs.
     if capacity \<le> length vs then fail (new_diagnostic RuntimeArrayBounds ''collection capacity exceeded'')
     else if alloc_fails x (length vs + 1) then fail (new_diagnostic ResourceHeap ''collection allocation failed'')
     else assign x c (CollectionV (vec_capacity x (length vs + 1)) (vs @ [u])) None)))"

definition collection_get :: "external_code \<Rightarrow> slot_id \<Rightarrow> slot_id \<Rightarrow> slot_id \<Rightarrow> ('h, 's, unit) exec" where
  "collection_get x d c i =
     andthen (from_result (\<lambda>m. collection_index (mframe m) i)) (\<lambda>index.
     andthen (collection_of c) (\<lambda>vs.
       case nth_opt vs index of
         None \<Rightarrow> fail (new_diagnostic RuntimeArrayBounds ''collection index exceeds COUNT'')
       | Some u \<Rightarrow> assign x d (ScalarV u) None))"

definition collection_set :: "external_code \<Rightarrow> slot_id \<Rightarrow> slot_id \<Rightarrow> slot_id \<Rightarrow> ('h, 's, unit) exec" where
  "collection_set x c i v =
     andthen (from_result (\<lambda>m. collection_index (mframe m) i)) (\<lambda>index.
     andthen (read_scalar v) (\<lambda>u.
     andthen (collection_of c) (\<lambda>vs.
       if length vs \<le> index then fail (new_diagnostic RuntimeArrayBounds ''collection index exceeds COUNT'')
       else assign x c (CollectionV (length vs) (vs[index := u])) None)))"

definition integer_count :: "string \<Rightarrow> nat \<Rightarrow> (diagnostic, sql_value) result" where
  "integer_count msg n = (if int n \<le> i64_max then Inr (VInteger (int n)) else Inl (invalid_runtime msg))"

definition sql_status_value :: "sql_status \<Rightarrow> sql_status_attribute \<Rightarrow> (diagnostic, sql_value) result" where
  "sql_status_value st a =
     (case a of
        SqlRowCount \<Rightarrow> integer_count ''SQL ROWCOUNT exceeds INTEGER'' (row_count st)
      | SqlFound \<Rightarrow> Inr (VBoolean (found st))
      | SqlNotFound \<Rightarrow> Inr (VBoolean (\<not> found st)))"

definition cursor_status_value :: "cursor_state option \<Rightarrow> cursor_status_attribute \<Rightarrow> (diagnostic, sql_value) result" where
  "cursor_status_value st a =
     (case a of
        CursorIsOpen \<Rightarrow> Inr (VBoolean (st \<noteq> None))
      | CursorRowCount \<Rightarrow>
          integer_count ''cursor ROWCOUNT exceeds INTEGER'' (case st of None \<Rightarrow> 0 | Some s \<Rightarrow> cur_row_count s)
      | CursorFound \<Rightarrow>
          Inr (case st of None \<Rightarrow> VNull DtBoolean
               | Some s \<Rightarrow> (case cur_found s of None \<Rightarrow> VNull DtBoolean | Some f \<Rightarrow> VBoolean f))
      | CursorNotFound \<Rightarrow>
          Inr (case st of None \<Rightarrow> VNull DtBoolean
               | Some s \<Rightarrow> (case cur_found s of None \<Rightarrow> VNull DtBoolean | Some f \<Rightarrow> VBoolean (\<not> f))))"

definition assign_result ::
  "external_code \<Rightarrow> slot_id \<Rightarrow> (('h, 's) machine \<Rightarrow> (diagnostic, sql_value) result) \<Rightarrow> ('h, 's, unit) exec" where
  "assign_result x d f = andthen (from_result f) (\<lambda>v. assign x d (ScalarV v) None)"

definition evaluate_instruction ::
  "external_code \<Rightarrow> ('h \<Rightarrow> ('h, runtime_value) host_call) \<Rightarrow> slot_id \<Rightarrow> ('h, 's, unit) exec" where
  "evaluate_instruction x call d =
     andthen (ask_host call) (\<lambda>v. andthen (assign x d v None) (\<lambda>_. on_budget check_boundary))"

definition call_instruction ::
  "external_code \<Rightarrow> ('q, 'h) runtime_host \<Rightarrow> object_id \<Rightarrow> slot_id list \<Rightarrow> slot_id list \<Rightarrow> ('h, 's, unit) exec" where
  "call_instruction x H routine args results =
     andthen (on_budget check_boundary) (\<lambda>_.
     andthen (read_all_slots args) (\<lambda>vs.
     andthen (ask_host (call_routine H routine vs)) (\<lambda>rs.
     if length rs \<noteq> length results
     then fail (invalid_runtime ''nested routine result width differs from verified destinations'')
     else andthen (assign_many x results rs None) (\<lambda>_. on_budget check_boundary))))"

text \<open>The two region instructions are executed by the loop; the code marks them unreachable here.\<close>

primrec execute_instruction ::
  "external_code \<Rightarrow> ('q, 'h) runtime_host \<Rightarrow> (runtime_value list \<Rightarrow> 's \<Rightarrow> (diagnostic, unit) result \<times> 's) \<Rightarrow>
   runtime_type list \<Rightarrow> 'q instruction \<Rightarrow> ('h, 's, unit) exec" where
  "execute_instruction x H push columns (InitializeNull d) =
     andthen (from_result (\<lambda>m. rbind (slot_type (mframe m) d) null_value)) (\<lambda>v. assign x d v None)"
| "execute_instruction x H push columns (LoadConstant d v) = assign x d (clone_value v) None"
| "execute_instruction x H push columns (EvaluateExpression e ps d) =
     andthen (on_budget check_boundary) (\<lambda>_.
     andthen (read_all_slots ps) (\<lambda>params. evaluate_instruction x (evaluate_expression H e params) d))"
| "execute_instruction x H push columns (Copy d s) = andthen (read_clone s) (\<lambda>v. assign x d v None)"
| "execute_instruction x H push columns (IntegerAddChecked d l r) =
     andthen (from_result (\<lambda>m. rbind (frame_read (mframe m) l) (\<lambda>a. rbind (frame_read (mframe m) r) (integer_add_checked a)))) (\<lambda>v.
       assign x d v None)"
| "execute_instruction x H push columns (IntegerSubtractChecked d l r) =
     andthen (from_result (\<lambda>m. rbind (frame_read (mframe m) l) (\<lambda>a. rbind (frame_read (mframe m) r) (integer_subtract_checked a)))) (\<lambda>v.
       assign x d v None)"
| "execute_instruction x H push columns (IntegerLess d l r) =
     assign_result x d (\<lambda>m. rbind (frame_scalar (mframe m) l) (\<lambda>a. rbind (frame_scalar (mframe m) r) (integer_less a)))"
| "execute_instruction x H push columns (EvaluateSqlBinary d l r operator) =
     andthen (on_budget check_boundary) (\<lambda>_.
     andthen (from_result (\<lambda>m. rbind (frame_read (mframe m) l) (\<lambda>a. rbind (frame_read (mframe m) r) (\<lambda>b. Inr (a, b))))) (\<lambda>(a, b).
       evaluate_instruction x (evaluate_binary H operator a b) d))"
| "execute_instruction x H push columns (BooleanNot d s) =
     assign_result x d (\<lambda>m. rbind (frame_scalar (mframe m) s) boolean_not)"
| "execute_instruction x H push columns (QuoteSqlIdentifier d s) = quote_sql_identifier x d s"
| "execute_instruction x H push columns (ConcatenateSqlText d l r) = concatenate_sql_text x d l r"
| "execute_instruction x H push columns (MakeRecord d ss) = make_record x d ss"
| "execute_instruction x H push columns (ReadRecordField d r i) = read_record_field x d r i"
| "execute_instruction x H push columns (WriteRecordField r i v) = write_record_field x r i v"
| "execute_instruction x H push columns (CollectionAppend c v) = collection_append x c v"
| "execute_instruction x H push columns (CollectionClear c) = assign x c (CollectionV 0 []) None"
| "execute_instruction x H push columns (CollectionGet d c i) = collection_get x d c i"
| "execute_instruction x H push columns (CollectionSet c i v) = collection_set x c i v"
| "execute_instruction x H push columns (CollectionCount d c) =
     andthen (collection_of c) (\<lambda>vs.
       assign_result x d (\<lambda>_. integer_count ''verified collection COUNT exceeds INTEGER'' (length vs)))"
| "execute_instruction x H push columns (ReadSqlStatus d a) = assign_result x d (\<lambda>m. sql_status_value (msql_status m) a)"
| "execute_instruction x H push columns (ReadCursorStatus d c a) =
     assign_result x d (\<lambda>m. cursor_status_value (map_of (mcursors m) c) a)"
| "execute_instruction x H push columns (ExecuteSql st ps into strict) = execute_sql_instruction x H st ps into strict"
| "execute_instruction x H push columns (ExecuteDynamicSql s ps into strict) = execute_dynamic_instruction x H s ps into strict"
| "execute_instruction x H push columns (OpenCursor c st ps) = open_cursor_instruction H c st ps"
| "execute_instruction x H push columns (FetchCursor c into f) = fetch_cursor_instruction x H c into f"
| "execute_instruction x H push columns (CloseCursor c) = close_cursor_instruction H c"
| "execute_instruction x H push columns (EmitResultRow vs) = emit_result_row push vs"
| "execute_instruction x H push columns (EmitResultQuery st ps) = emit_result_query x H push columns st ps"
| "execute_instruction x H push columns (AppendAudit oid fingerprint metadata) = append_audit H oid fingerprint metadata"
| "execute_instruction x H push columns (AppendOutbox key version payload) = append_outbox H key version payload"
| "execute_instruction x H push columns (EnterExceptionRegion _) = succeed ()"
| "execute_instruction x H push columns LeaveExceptionRegion = succeed ()"
| "execute_instruction x H push columns (CallRoutine routine args results) = call_instruction x H routine args results"

section \<open>Exception regions\<close>

record exception_frame =
  ex_savepoint :: nat
  ex_routes :: "exception_route list"
  ex_cursors :: "cursor_id list"
  ex_sql_status :: sql_status
  ex_handling :: "diagnostic option"

definition transaction_cleanup_error :: "diagnostic \<Rightarrow> diagnostic \<Rightarrow> diagnostic" where
  "transaction_cleanup_error cleanup original =
     with_detail ''cleanup_kind'' (kind_as_str (diag_kind cleanup))
       (with_cause (diag_kind original)
         (new_diagnostic RuntimeInvalidIr ''exception savepoint/cursor cleanup failed; transaction cannot continue''))"

definition stack_underflow :: diagnostic where
  "stack_underflow = new_diagnostic RuntimeInvalidIr ''exception-region stack underflow''"

definition diagnostic_record :: "diagnostic \<Rightarrow> runtime_value" where
  "diagnostic_record d =
     RecordV 4 [Some (VText (kind_as_str (diag_kind d))), Some (VText (category_as_str (kind_category (diag_kind d)))),
                Some (VText (diag_message d)), Some (VBoolean (kind_retryable (diag_kind d)))]"

text \<open>The innermost region is the head of the list.\<close>

definition leave_exception_frame ::
  "('q, 'h) runtime_host \<Rightarrow> exception_frame list \<Rightarrow> ('h, 's) machine \<Rightarrow>
   (diagnostic, unit) result \<times> exception_frame list \<times> ('h, 's) machine" where
  "leave_exception_frame H regions m =
     (case regions of
        [] \<Rightarrow> (Inl stack_underflow, [], m)
      | r # rs \<Rightarrow> (case tell_host (release_savepoint H (ex_savepoint r)) m of (res, m1) \<Rightarrow> (res, rs, m1)))"

fun release_all_exception_frames ::
  "('q, 'h) runtime_host \<Rightarrow> exception_frame list \<Rightarrow> ('h, 's) machine \<Rightarrow>
   (diagnostic, unit) result \<times> exception_frame list \<times> ('h, 's) machine" where
  "release_all_exception_frames H [] m = (Inr (), [], m)"
| "release_all_exception_frames H (r # rs) m =
     (case tell_host (release_savepoint H (ex_savepoint r)) m of
        (Inl d, m1) \<Rightarrow> (Inl d, rs, m1)
      | (Inr _, m1) \<Rightarrow> release_all_exception_frames H rs m1)"

fun abort_all_exception_frames ::
  "('q, 'h) runtime_host \<Rightarrow> diagnostic \<Rightarrow> exception_frame list \<Rightarrow> ('h, 's, unit) exec" where
  "abort_all_exception_frames H original [] m = (Inr (), m)"
| "abort_all_exception_frames H original (r # rs) m =
     (case (if ex_handling r = None then tell_host (rollback_savepoint H (ex_savepoint r)) m else (Inr (), m)) of
        (Inl d, m1) \<Rightarrow> (Inl (transaction_cleanup_error d original), m1)
      | (Inr _, m1) \<Rightarrow>
          (case tell_host (release_savepoint H (ex_savepoint r)) m1 of
             (Inl d, m2) \<Rightarrow> (Inl (transaction_cleanup_error d original), m2)
           | (Inr _, m2) \<Rightarrow> abort_all_exception_frames H original rs m2))"

text \<open>Cursors are kept in an ordered map: they are visited by increasing identifier.\<close>

definition cursor_ids :: "(cursor_id \<times> cursor_state) list \<Rightarrow> cursor_id list" where
  "cursor_ids cs = sort (map fst cs)"

fun close_cursors :: "('q, 'h) runtime_host \<Rightarrow> cursor_id list \<Rightarrow> ('h, 's, unit) exec" where
  "close_cursors H [] m = (Inr (), m)"
| "close_cursors H (c # cs) m =
     (case map_of (mcursors m) c of
        None \<Rightarrow> close_cursors H cs m
      | Some st \<Rightarrow>
          (case tell_host (close_cursor H (cur_token st)) (m\<lparr>mcursors := AList.delete c (mcursors m)\<rparr>) of
             (Inl d, m1) \<Rightarrow> (Inl d, m1)
           | (Inr _, m1) \<Rightarrow> close_cursors H cs m1))"

text \<open>\<open>close_all_cursors\<close> ignores failures; the checked form stops at the first. Both empty the map first.\<close>

fun close_tokens :: "('q, 'h) runtime_host \<Rightarrow> nat list \<Rightarrow> ('h, 's) machine \<Rightarrow> ('h, 's) machine" where
  "close_tokens H [] m = m"
| "close_tokens H (t # ts) m = close_tokens H ts (snd (tell_host (close_cursor H t) m))"

fun close_tokens_checked :: "('q, 'h) runtime_host \<Rightarrow> nat list \<Rightarrow> ('h, 's, unit) exec" where
  "close_tokens_checked H [] m = (Inr (), m)"
| "close_tokens_checked H (t # ts) m =
     (case tell_host (close_cursor H t) m of (Inl d, m1) \<Rightarrow> (Inl d, m1) | (Inr _, m1) \<Rightarrow> close_tokens_checked H ts m1)"

definition open_tokens :: "(cursor_id \<times> cursor_state) list \<Rightarrow> nat list" where
  "open_tokens cs = map (cur_token \<circ> snd) (sort_key fst cs)"

definition close_all_cursors :: "('q, 'h) runtime_host \<Rightarrow> ('h, 's) machine \<Rightarrow> ('h, 's) machine" where
  "close_all_cursors H m = close_tokens H (open_tokens (mcursors m)) (m\<lparr>mcursors := []\<rparr>)"

definition close_all_cursors_checked :: "('q, 'h) runtime_host \<Rightarrow> ('h, 's, unit) exec" where
  "close_all_cursors_checked H m = close_tokens_checked H (open_tokens (mcursors m)) (m\<lparr>mcursors := []\<rparr>)"

definition matching_route :: "diagnostic \<Rightarrow> exception_route list \<Rightarrow> exception_route option" where
  "matching_route d routes = find (\<lambda>r. route_kinds r = [] \<or> diag_kind d \<in> set (route_kinds r)) routes"

definition assign_alias :: "external_code \<Rightarrow> diagnostic \<Rightarrow> exception_route \<Rightarrow> ('h, 's, unit) exec" where
  "assign_alias x d r =
     (case error_slot r of None \<Rightarrow> succeed () | Some s \<Rightarrow> assign x s (diagnostic_record d) (primary_span d))"

fun route_exception ::
  "external_code \<Rightarrow> ('q, 'h) runtime_host \<Rightarrow> diagnostic \<Rightarrow> exception_frame list \<Rightarrow> ('h, 's) machine \<Rightarrow>
   (diagnostic, block_id) result \<times> exception_frame list \<times> ('h, 's) machine" where
  "route_exception x H d [] m = (Inl d, [], m)"
| "route_exception x H d (r # rs) m =
     (if ex_handling r \<noteq> None
      then (case tell_host (release_savepoint H (ex_savepoint r)) m of
              (Inl e, m1) \<Rightarrow> (Inl (transaction_cleanup_error e d), rs, m1)
            | (Inr _, m1) \<Rightarrow> route_exception x H d rs m1)
      else case tell_host (rollback_savepoint H (ex_savepoint r)) m of
        (Inl e, m1) \<Rightarrow> (Inl (transaction_cleanup_error e d), rs, m1)
      | (Inr _, m1) \<Rightarrow>
          (case close_cursors H (filter (\<lambda>c. c \<notin> set (ex_cursors r)) (cursor_ids (mcursors m1))) m1 of
             (Inl e, m2) \<Rightarrow> (Inl (transaction_cleanup_error e d), rs, m2)
           | (Inr _, m2) \<Rightarrow>
               (let m3 = m2\<lparr>msql_status := ex_sql_status r\<rparr>
                in case matching_route d (ex_routes r) of
                  Some route \<Rightarrow>
                    (case assign_alias x d route m3 of
                       (Inl e, m4) \<Rightarrow> (Inl (transaction_cleanup_error e d), rs, m4)
                     | (Inr _, m4) \<Rightarrow> (Inr (route_handler route), r\<lparr>ex_handling := Some d\<rparr> # rs, m4))
                | None \<Rightarrow>
                    (case tell_host (release_savepoint H (ex_savepoint r)) m3 of
                       (Inl e, m4) \<Rightarrow> (Inl (transaction_cleanup_error e d), rs, m4)
                     | (Inr _, m4) \<Rightarrow>
                         route_exception x H (with_detail ''exception_region'' ''unhandled'' d) rs m4))))"

section \<open>The execution loop\<close>

text \<open>What a block ends with: control goes to another block, or the routine returns.\<close>

datatype block_exit = Continue block_id | Finished "(diagnostic, execution_outcome) result"

definition routed ::
  "external_code \<Rightarrow> ('q, 'h) runtime_host \<Rightarrow> diagnostic \<Rightarrow> exception_frame list \<Rightarrow> ('h, 's) machine \<Rightarrow>
   block_exit \<times> exception_frame list \<times> ('h, 's) machine" where
  "routed x H d regions m =
     (case route_exception x H d regions m of
        (Inr target, rs, m1) \<Rightarrow> (Continue target, rs, m1)
      | (Inl e, rs, m1) \<Rightarrow> (Finished (Inl e), rs, close_all_cursors H m1))"

definition enter_region ::
  "('q, 'h) runtime_host \<Rightarrow> exception_route list \<Rightarrow> exception_frame list \<Rightarrow> ('h, 's) machine \<Rightarrow>
   (diagnostic, unit) result \<times> exception_frame list \<times> ('h, 's) machine" where
  "enter_region H routes regions m =
     (case tell_host (create_savepoint H) m of
        (Inl d, m1) \<Rightarrow> (Inl d, regions, m1)
      | (Inr sp, m1) \<Rightarrow>
          (Inr (), \<lparr>ex_savepoint = sp, ex_routes = routes, ex_cursors = map fst (mcursors m1), ex_sql_status = msql_status m1,
                   ex_handling = None\<rparr> # regions, m1))"

definition run_one ::
  "external_code \<Rightarrow> ('q, 'h) runtime_host \<Rightarrow> (runtime_value list \<Rightarrow> 's \<Rightarrow> (diagnostic, unit) result \<times> 's) \<Rightarrow> runtime_type list \<Rightarrow>
   'q instruction \<Rightarrow> exception_frame list \<Rightarrow> ('h, 's) machine \<Rightarrow>
   (diagnostic, unit) result \<times> exception_frame list \<times> ('h, 's) machine" where
  "run_one x H push columns i regions m =
     (case i of
        EnterExceptionRegion routes \<Rightarrow> enter_region H routes regions m
      | LeaveExceptionRegion \<Rightarrow> leave_exception_frame H regions m
      | _ \<Rightarrow> (case execute_instruction x H push columns i m of (r, m1) \<Rightarrow> (r, regions, m1)))"

fun run_instructions ::
  "external_code \<Rightarrow> ('q, 'h) runtime_host \<Rightarrow> (runtime_value list \<Rightarrow> 's \<Rightarrow> (diagnostic, unit) result \<times> 's) \<Rightarrow> runtime_type list \<Rightarrow>
   'q spanned_instruction list \<Rightarrow> exception_frame list \<Rightarrow> ('h, 's) machine \<Rightarrow>
   block_exit option \<times> exception_frame list \<times> ('h, 's) machine" where
  "run_instructions x H push columns [] regions m = (None, regions, m)"
| "run_instructions x H push columns ((i, sp) # is) regions m =
     (case on_budget (charge_instructions 1) m of
        (Inl d, m1) \<Rightarrow> (Some (Finished (Inl d)), regions, m1)
      | (Inr _, m1) \<Rightarrow>
          (case run_one x H push columns i regions m1 of
             (Inr _, rs, m2) \<Rightarrow> run_instructions x H push columns is rs m2
           | (Inl d, rs, m2) \<Rightarrow> (case routed x H (attach_span sp d) rs m2 of (e, rs1, m3) \<Rightarrow> (Some e, rs1, m3))))"

fun charge_outputs :: "runtime_value list \<Rightarrow> unit budgeted" where
  "charge_outputs [] b = (Inr (), b)"
| "charge_outputs (v # vs) b =
     (case charge_result_bytes (owned_bytes v) b of (Inl d, b1) \<Rightarrow> (Inl d, b1) | (Inr _, b1) \<Rightarrow> charge_outputs vs b1)"

definition read_return :: "slot_id option \<Rightarrow> ('h, 's, runtime_value option) exec" where
  "read_return v =
     (case v of None \<Rightarrow> succeed None
      | Some s \<Rightarrow> andthen (read_clone s) (\<lambda>r.
          andthen (on_budget (charge_result_bytes (owned_bytes r))) (\<lambda>_. succeed (Some r))))"

definition return_values :: "'q program \<Rightarrow> slot_id option \<Rightarrow> ('h, 's, runtime_value option \<times> runtime_value list) exec" where
  "return_values p v =
     andthen (on_budget check_boundary) (\<lambda>_.
     andthen (read_return v) (\<lambda>r.
     andthen (read_all_slots (output_slots p)) (\<lambda>outs.
     andthen (on_budget (charge_outputs outs)) (\<lambda>_. succeed (r, outs)))))"

definition run_return ::
  "('q, 'h) runtime_host \<Rightarrow> 'q program \<Rightarrow> slot_id option \<Rightarrow> exception_frame list \<Rightarrow> ('h, 's) machine \<Rightarrow>
   block_exit \<times> exception_frame list \<times> ('h, 's) machine" where
  "run_return H p v regions m =
     (case return_values p v m of
        (Inl d, m1) \<Rightarrow> (Finished (Inl d), regions, m1)
      | (Inr (r, outs), m1) \<Rightarrow>
          (case release_all_exception_frames H regions m1 of
             (Inl d, rs, m2) \<Rightarrow> (Finished (Inl d), rs, m2)
           | (Inr _, rs, m2) \<Rightarrow>
               (case close_all_cursors_checked H m2 of
                  (Inl d, m3) \<Rightarrow> (Finished (Inl d), rs, m3)
                | (Inr _, m3) \<Rightarrow>
                    (Finished (Inr \<lparr>return_value = r, output_values = outs, outcome_rows = mresult_rows m3,
                                   outcome_status = msql_status m3\<rparr>), rs, m3))))"

definition branch_target :: "slot_id \<Rightarrow> block_id \<Rightarrow> block_id \<Rightarrow> ('h, 's, block_id) exec" where
  "branch_target c t f =
     andthen (read_scalar c) (\<lambda>v.
     andthen (on_budget check_boundary) (\<lambda>_. succeed (if v = VBoolean True then t else f)))"

definition jump_exit :: "(diagnostic, block_id) result \<times> ('h, 's) machine \<Rightarrow> exception_frame list \<Rightarrow> block_exit \<times> exception_frame list \<times> ('h, 's) machine" where
  "jump_exit res regions =
     (case res of (Inl d, m) \<Rightarrow> (Finished (Inl d), regions, m) | (Inr t, m) \<Rightarrow> (Continue t, regions, m))"

definition run_terminator ::
  "external_code \<Rightarrow> ('q, 'h) runtime_host \<Rightarrow> 'q program \<Rightarrow> terminator \<times> source_span option \<Rightarrow> exception_frame list \<Rightarrow>
   ('h, 's) machine \<Rightarrow> block_exit \<times> exception_frame list \<times> ('h, 's) machine" where
  "run_terminator x H p t regions m =
     (case fst t of
        Jump target \<Rightarrow> jump_exit (andthen (on_budget check_boundary) (\<lambda>_. succeed target) m) regions
      | Branch c yes no \<Rightarrow> jump_exit (branch_target c yes no m) regions
      | Return v \<Rightarrow> run_return H p v regions m
      | Raise k \<Rightarrow> routed x H (attach_span (snd t) (new_diagnostic k ''procedural RAISE'')) regions m
      | Rethrow \<Rightarrow>
          (case regions of
             [] \<Rightarrow> (Finished (Inl (invalid_runtime ''RETHROW has no active exception'')), regions, m)
           | r # _ \<Rightarrow>
               (case ex_handling r of
                  None \<Rightarrow> (Finished (Inl (invalid_runtime ''RETHROW has no active exception'')), regions, m)
                | Some d \<Rightarrow> routed x H d regions m)))"

definition run_block ::
  "external_code \<Rightarrow> ('q, 'h) runtime_host \<Rightarrow> (runtime_value list \<Rightarrow> 's \<Rightarrow> (diagnostic, unit) result \<times> 's) \<Rightarrow> 'q program \<Rightarrow> block_id \<Rightarrow>
   exception_frame list \<Rightarrow> ('h, 's) machine \<Rightarrow> block_exit \<times> exception_frame list \<times> ('h, 's) machine" where
  "run_block x H push p current regions m =
     (case nth_opt (prog_blocks p) current of
        None \<Rightarrow> (Finished (Inl (new_diagnostic RuntimeInvalidIr ''verified block disappeared at runtime'')), regions, m)
      | Some b \<Rightarrow>
          (case run_instructions x H push (result_columns p) (block_instructions b) regions m of
             (Some e, rs, m1) \<Rightarrow> (e, rs, m1)
           | (None, rs, m1) \<Rightarrow>
               (case on_budget (charge_instructions 1) m1 of
                  (Inl d, m2) \<Rightarrow> (Finished (Inl d), rs, m2)
                | (Inr _, m2) \<Rightarrow> run_terminator x H p (block_terminator b) rs m2)))"

partial_function (option) execute_frame ::
  "external_code \<Rightarrow> ('q, 'h) runtime_host \<Rightarrow> (runtime_value list \<Rightarrow> 's \<Rightarrow> (diagnostic, unit) result \<times> 's) \<Rightarrow> 'q program \<Rightarrow> block_id \<Rightarrow>
   exception_frame list \<Rightarrow> ('h, 's) machine \<Rightarrow>
   ((diagnostic, execution_outcome) result \<times> exception_frame list \<times> ('h, 's) machine) option" where
  "execute_frame x H push p current regions m =
     (case run_block x H push p current regions m of
        (Finished r, rs, m1) \<Rightarrow> Some (r, rs, m1)
      | (Continue target, rs, m1) \<Rightarrow> execute_frame x H push p target rs m1)"

declare execute_frame.simps [code]

definition drop_frame :: "('h, 's) machine \<Rightarrow> ('h, 's) machine" where
  "drop_frame m = m\<lparr>mbudget := leave_frame (release_heap (frame_heap (mframe m)) (mbudget m))\<rparr>"

definition start_machine :: "'q program \<Rightarrow> budget \<Rightarrow> 'h \<Rightarrow> 's \<Rightarrow> ('h, 's) machine" where
  "start_machine p b h s =
     \<lparr>mframe = new_frame (prog_slots p), mbudget = b, mhost = h, msink = s, msql_status = default_status, mcursors = [],
      mresult_rows = 0\<rparr>"

definition finish_frame ::
  "('q, 'h) runtime_host \<Rightarrow> (diagnostic, execution_outcome) result \<times> exception_frame list \<times> ('h, 's) machine \<Rightarrow>
   (diagnostic, execution_outcome) result \<times> ('h, 's) machine" where
  "finish_frame H res =
     (case res of
        (Inr out, _, m) \<Rightarrow> (Inr out, drop_frame m)
      | (Inl d, rs, m) \<Rightarrow>
          (case abort_all_exception_frames H d rs m of
             (Inl e, m1) \<Rightarrow> (Inl e, drop_frame (close_all_cursors H m1))
           | (Inr _, m1) \<Rightarrow> (Inl d, drop_frame (close_all_cursors H m1))))"

definition execute_inner ::
  "external_code \<Rightarrow> ('q, 'h) runtime_host \<Rightarrow> (runtime_value list \<Rightarrow> 's \<Rightarrow> (diagnostic, unit) result \<times> 's) \<Rightarrow> 'q program \<Rightarrow>
   runtime_value list \<Rightarrow> budget \<Rightarrow> 'h \<Rightarrow> 's \<Rightarrow> ((diagnostic, execution_outcome) result \<times> ('h, 's) machine) option" where
  "execute_inner x H push p args b h s =
     (let m = start_machine p b h s
      in if length args \<noteq> length (parameter_slots p)
         then Some (Inl (new_diagnostic RuntimeInvalidIr ''runtime argument count differs from verified parameter slots''), m)
         else case on_budget enter_frame m of
           (Inl d, m1) \<Rightarrow> Some (Inl d, m1)
         | (Inr _, m1) \<Rightarrow>
             (case andthen (assign_many x (parameter_slots p) args None) (\<lambda>_. on_budget check_boundary) m1 of
                (Inl d, m2) \<Rightarrow> Some (Inl d, drop_frame m2)
              | (Inr _, m2) \<Rightarrow>
                  (case execute_frame x H push p (prog_entry p) [] m2 of
                     None \<Rightarrow> None
                   | Some res \<Rightarrow> Some (finish_frame H res))))"

definition execute_with_result_sink ::
  "external_code \<Rightarrow> ('q, 'h) runtime_host \<Rightarrow> (runtime_value list \<Rightarrow> 's \<Rightarrow> (diagnostic, unit) result \<times> 's) \<Rightarrow> 'q program \<Rightarrow>
   runtime_value list \<Rightarrow> budget \<Rightarrow> 'h \<Rightarrow> 's \<Rightarrow> ((diagnostic, execution_outcome) result \<times> ('h, 's) machine) option" where
  "execute_with_result_sink x H push p args b h s =
     (case execute_inner x H push p args b h s of
        None \<Rightarrow> None
      | Some (Inr out, m) \<Rightarrow> Some (Inr out, m)
      | Some (Inl d, m) \<Rightarrow>
          Some (Inl (with_outer_frame \<lparr>fr_object_id = id_object (prog_identity p), fr_revision = id_revision (prog_identity p),
                                      fr_name = id_name (prog_identity p), call_span = None\<rparr> d), m))"

definition execute ::
  "external_code \<Rightarrow> ('q, 'h) runtime_host \<Rightarrow> 'q program \<Rightarrow> runtime_value list \<Rightarrow> budget \<Rightarrow> 'h \<Rightarrow>
   ((diagnostic, execution_outcome) result \<times> ('h, unit) machine) option" where
  "execute x H p args b h = execute_with_result_sink x H reject_row p args b h ()"

end
