(* ===== verification/Proc_Example.thy ===== *)
theory Proc_Example
  imports Proc_Interp
begin

text \<open>
  A host, the external functions and a small routine on which the statements about the procedural runtime are
  evaluated. The host answers every request without touching the budget; the routine adds two parameters into an OUT parameter.
\<close>

definition plain_code :: external_code where
  "plain_code =
     \<lparr>json_document = \<lambda>_. True, civil_instant = \<lambda>_. True, unicode_nfc = \<lambda>s. s, unicode_lowercase_nfc = \<lambda>s. s,
      vec_capacity = \<lambda>n. n, alloc_fails = \<lambda>_. False\<rparr>"

definition quiet_host :: "('q, nat) runtime_host" where
  "quiet_host =
     \<lparr>evaluate_expression = \<lambda>_ _ h. Finish (Inr (ScalarV (VInteger 0)), h),
      evaluate_binary = \<lambda>_ _ _ h. Finish (Inr (ScalarV (VBoolean True)), h),
      execute_sql = \<lambda>_ _ h. Finish (Inr 0, h),
      execute_dynamic_sql = \<lambda>_ _ h. Finish (Inr 0, h),
      open_cursor = \<lambda>_ _ h. Finish (Inr h, h + 1),
      fetch_cursor = \<lambda>_ h. Finish (Inr None, h),
      close_cursor = \<lambda>_ h. (Inr (), h),
      create_savepoint = \<lambda>h. (Inr h, h + 1),
      rollback_savepoint = \<lambda>_ h. (Inr (), h),
      release_savepoint = \<lambda>_ h. (Inr (), h),
      call_routine = \<lambda>_ _ h. Finish (Inr [], h),
      append_audit_host = \<lambda>_ h. (Inr (), h),
      append_outbox_host = \<lambda>_ h. (Inr (), h)\<rparr>"

definition integer_slot :: "string \<Rightarrow> slot_definition" where
  "integer_slot n = \<lparr>slot_name = n, runtime_type = ScalarT (scalar_descriptor DtInteger) False\<rparr>"

definition sum_program :: "string program" where
  "sum_program =
     \<lparr>prog_identity = \<lparr>id_object = replicate 16 1, id_revision = 1, id_name = ''app.sum''\<rparr>,
      prog_slots = [integer_slot ''a'', integer_slot ''b'', integer_slot ''total''],
      parameter_slots = [0, 1], output_slots = [2], result_type = None, result_columns = [],
      prog_blocks = [\<lparr>block_instructions = [(IntegerAddChecked 2 0 1, None)], block_terminator = (Return None, None)\<rparr>],
      prog_entry = 0\<rparr>"

definition example_budget :: budget where
  "example_budget =
     \<lparr>limits = default_call, usage = empty_snapshot, polls = 0, cancelled_at = \<lambda>_. False, elapsed_at = \<lambda>_. 0\<rparr>"

lemma example_budget_new: "new_budget default_call (\<lambda>_. False) (\<lambda>_. 0) = Inr example_budget"
  by (simp add: new_budget_def validate_policy_def default_call_def example_budget_def)

abbreviation integer_value :: "int \<Rightarrow> runtime_value" where
  "integer_value n \<equiv> ScalarV (VInteger n)"

end
