(* ===== verification/Proc_Verdict.thy ===== *)
theory Proc_Verdict
  imports Proc_Flow Proc_Example
begin

text \<open>
  The verdicts of the verifier. A program whose entry is its first block, as the compiler emits it, always gets one. The
  interface of \<open>verify\<close> takes any program: for an entry that is not the first block the initialisation analysis can
  run forever, because its first pass lets blocks before the entry read a value of the entry that the entry block itself then raises.
\<close>

text \<open>
  C12. Verification ends with a verdict for every program whose entry is its first block. The search for reachable
  blocks visits every block once; every pass of the initialisation analysis that changes something removes a slot from a set.\<close>

theorem verify_returns:
  assumes "prog_entry p = 0"
  shows "\<exists>verdict. verify x p = Some verdict"
  using assms by (rule verify_ends)

theorem verify_returns_witness: "prog_entry sum_program = 0 \<and> (\<exists>verdict. verify plain_code sum_program = Some verdict)"
  using verify_returns [of sum_program plain_code] by (simp add: sum_program_def)

text \<open>
  C34. The reachability test is exact: for a graph whose targets are in range it ends, and marks exactly the blocks that a path
  of edges from the entry leads to.\<close>

theorem reachable_blocks_exact:
  assumes "entry < length succs" "\<forall>ts \<in> set succs. \<forall>t \<in> set ts. t < length succs"
  shows "\<exists>r. reachable_blocks entry succs = Some r \<and> length r = length succs \<and>
    (\<forall>i < length succs. r ! i \<longleftrightarrow> (entry, i) \<in> {(b, t). b < length succs \<and> t \<in> set (succs ! b)}\<^sup>*)"
  using reachable_blocks_result [of entry succs] assms by (simp add: targets_ok_def edges_def)

theorem reachable_blocks_exact_witness:
  "\<exists>r. reachable_blocks 1 [[2], [0], [], [1]] = Some r \<and> r ! 2 \<and> \<not> r ! 3"
proof -
  let ?s = "[[2], [0], [], [1]] :: nat list list"
  let ?e = "{(b, t). b < length ?s \<and> t \<in> set (?s ! b)}"
  obtain r where r: "reachable_blocks 1 ?s = Some r" "\<forall>i < length ?s. r ! i \<longleftrightarrow> (1, i) \<in> ?e\<^sup>*"
    using reachable_blocks_exact [of 1 ?s] by auto
  have "(1, 0) \<in> ?e" "(0, 2) \<in> ?e" by simp_all
  then have "(1, 2) \<in> ?e\<^sup>*" by (meson converse_rtrancl_into_rtrancl rtrancl.rtrancl_refl)
  moreover have "y \<noteq> 3" if "(1, y) \<in> ?e\<^sup>*" for y
    using that by (induction rule: rtrancl_induct) (auto simp: less_Suc_eq nth_Cons split: nat.splits)
  ultimately show ?thesis using r by auto
qed

section \<open>An analysis that does not end\<close>

definition jump_block :: "string instruction list \<Rightarrow> block_id \<Rightarrow> string basic_block" where
  "jump_block is t = \<lparr>block_instructions = map (\<lambda>i. (i, None)) is, block_terminator = (Jump t, None)\<rparr>"

text \<open>A loop through blocks 0, 2 and 1, entered at block 3, which initialises the only slot.\<close>

definition spinning_program :: "string program" where
  "spinning_program =
     \<lparr>prog_identity = \<lparr>id_object = replicate 16 1, id_revision = 1, id_name = ''app.spin''\<rparr>,
      prog_slots = [integer_slot ''n''], parameter_slots = [], output_slots = [], result_type = None, result_columns = [],
      prog_blocks = [jump_block [] 2, jump_block [] 0, jump_block [] 1, jump_block [LoadConstant 0 (integer_value 5)] 0],
      prog_entry = 3\<rparr>"

definition spinning_state :: "bool \<Rightarrow> flow_state" where
  "spinning_state b =
     \<lparr>incoming = [[b], [\<not> b], [b], [False]], outgoing = [[b], [\<not> b], [b], [True]], flow_changed = True\<rparr>"

lemma spinning_state_changed [simp]: "flow_changed (spinning_state b)"
  by (simp add: spinning_state_def)

definition spinning_predecessors :: "nat list list" where
  "spinning_predecessors = [[1, 3], [2], [0], []]"

lemma spinning_graph:
  "successors spinning_program = [[2], [0], [1], [0]]" "predecessors spinning_program = spinning_predecessors"
  by (simp_all add: successors_def predecessors_def spinning_program_def spinning_predecessors_def jump_block_def block_targets_def)

lemma spinning_pass:
  "flow_pass spinning_program 3 spinning_predecessors (flow_start spinning_program 3) = spinning_state False"
  "flow_pass spinning_program 3 spinning_predecessors (spinning_state False) = spinning_state True"
  "flow_pass spinning_program 3 spinning_predecessors (spinning_state True) = spinning_state False"
  by code_simp+

lemma spinning_step: "flow_pass spinning_program 3 spinning_predecessors (spinning_state b) = spinning_state (\<not> b)"
  using spinning_pass(2,3) by (cases b) simp_all

lemma spinning_loop: "flow_loop spinning_program 3 spinning_predecessors (spinning_state b) = None"
proof -
  have "flow_loop p entry preds f = Some g \<Longrightarrow> p = spinning_program \<Longrightarrow> entry = 3 \<Longrightarrow> preds = spinning_predecessors \<Longrightarrow>
      f \<notin> range spinning_state" for p entry preds f g
  proof (rule flow_loop.raw_induct [where P = "\<lambda>p entry preds f g. p = spinning_program \<longrightarrow> entry = 3 \<longrightarrow>
      preds = spinning_predecessors \<longrightarrow> f \<notin> range spinning_state", THEN mp, THEN mp, THEN mp])
    fix loop and p :: "string program" and entry preds f g
    assume ih: "\<And>p entry preds f g. loop p entry preds f = Some g \<Longrightarrow> p = spinning_program \<longrightarrow> entry = 3 \<longrightarrow>
        preds = spinning_predecessors \<longrightarrow> f \<notin> range spinning_state"
      and s: "(let f1 = flow_pass p entry preds f in if flow_changed f1 then loop p entry preds f1 else Some f1) = Some g"
    show "p = spinning_program \<longrightarrow> entry = 3 \<longrightarrow> preds = spinning_predecessors \<longrightarrow> f \<notin> range spinning_state"
    proof (intro impI notI)
      assume e: "p = spinning_program" "entry = 3" "preds = spinning_predecessors" and "f \<in> range spinning_state"
      then obtain b where "f = spinning_state b" by blast
      then have "loop p entry preds (spinning_state (\<not> b)) = Some g" using s e by (simp add: spinning_step Let_def)
      then show False using ih e by blast
    qed
  qed assumption+
  then show ?thesis by (cases "flow_loop spinning_program 3 spinning_predecessors (spinning_state b)") blast+
qed

text \<open>
  C33. Verification of a program need not end. The program below is well typed and every block is reachable, but its entry
  is its last block: the analysis oscillates between two states and \<open>verify\<close> never returns.\<close>

theorem verify_spins: "verify plain_code spinning_program = None"
proof -
  have "flow_loop spinning_program 3 spinning_predecessors (flow_start spinning_program 3) = None"
    by (simp add: flow_loop.simps [of spinning_program 3 spinning_predecessors "flow_start spinning_program 3"] Let_def spinning_pass(1) spinning_loop)
  then have d: "verify_definite_initialization spinning_program 3 (predecessors spinning_program) = None"
    by (simp add: verify_definite_initialization_def spinning_graph)
  have r: "reachable_blocks 3 (successors spinning_program) = Some [True, True, True, True]"
    by (simp add: spinning_graph reachable_blocks_def reach_loop.simps numeral_eq_Suc)
  have "verify_signature spinning_program = Inr ()"
    by (simp add: verify_signature_def spinning_program_def integer_slot_def cong del: rbind_cong)
  moreover have "verify_limits spinning_program = Inr ()"
    by (simp add: verify_limits_def spinning_program_def jump_block_def integer_slot_def type_nodes_def or_invalid_def checked_add_u64_def
        MAX_STATIC_IR_INSTRUCTIONS_def MAX_STATIC_IR_NODES_def cong del: rbind_cong)
  moreover have "verify_blocks plain_code spinning_program = Inr ()" by code_simp
  moreover have "prog_entry spinning_program = 3" "parameter_slots spinning_program = []" "output_slots spinning_program = []"
    "length (prog_blocks spinning_program) = 4" by (simp_all add: spinning_program_def)
  ultimately show ?thesis unfolding verify_def using d r by (simp add: block_index_def cong del: rbind_cong)
qed

end
