(* ===== verification/Proc_Relation.thy ===== *)
theory Proc_Relation
  imports Proc_Interp
begin

text \<open>
  A relation between the machine before and after a step is kept by the whole interpreter as soon as it is kept by the few
  things the interpreter is made of: budget charges, calls of the host, assignments, and updates of the other parts of the
  machine. The locale \<open>machine_relation\<close> collects these conditions and proves, once, that every instruction, every block
  and the routing of exceptions keep the relation. The later theories instantiate it with the meters of the budget,
  with the types of the slots and with the heap that the frame has charged.
\<close>

section \<open>Relations between the machine before and after\<close>

definition keeps :: "(('h, 's) machine \<Rightarrow> ('h, 's) machine \<Rightarrow> bool) \<Rightarrow> ('h, 's, 'a) exec \<Rightarrow> bool" where
  "keeps R f \<longleftrightarrow> (\<forall>m. R m (snd (f m)))"

lemma keepsD: "keeps R f \<Longrightarrow> f m = (r, m') \<Longrightarrow> R m m'"
  by (metis keeps_def snd_conv)

text \<open>The slots that an instruction assigns together.\<close>

primrec assigned_together :: "'q instruction \<Rightarrow> slot_id list" where
  "assigned_together (InitializeNull _) = []"
| "assigned_together (LoadConstant _ _) = []"
| "assigned_together (EvaluateExpression _ _ _) = []"
| "assigned_together (Copy _ _) = []"
| "assigned_together (IntegerAddChecked _ _ _) = []"
| "assigned_together (IntegerSubtractChecked _ _ _) = []"
| "assigned_together (IntegerLess _ _ _) = []"
| "assigned_together (EvaluateSqlBinary _ _ _ _) = []"
| "assigned_together (BooleanNot _ _) = []"
| "assigned_together (QuoteSqlIdentifier _ _) = []"
| "assigned_together (ConcatenateSqlText _ _ _) = []"
| "assigned_together (MakeRecord _ _) = []"
| "assigned_together (ReadRecordField _ _ _) = []"
| "assigned_together (WriteRecordField _ _ _) = []"
| "assigned_together (CollectionAppend _ _) = []"
| "assigned_together (CollectionClear _) = []"
| "assigned_together (CollectionGet _ _ _) = []"
| "assigned_together (CollectionSet _ _ _) = []"
| "assigned_together (CollectionCount _ _) = []"
| "assigned_together (ReadSqlStatus _ _) = []"
| "assigned_together (ReadCursorStatus _ _ _) = []"
| "assigned_together (ExecuteSql _ _ ds _) = ds"
| "assigned_together (ExecuteDynamicSql _ _ ds _) = ds"
| "assigned_together (OpenCursor _ _ _) = []"
| "assigned_together (FetchCursor _ ds _) = ds"
| "assigned_together (CloseCursor _) = []"
| "assigned_together (EmitResultRow _) = []"
| "assigned_together (EmitResultQuery _ _) = []"
| "assigned_together (AppendAudit _ _ _) = []"
| "assigned_together (AppendOutbox _ _ _) = []"
| "assigned_together (EnterExceptionRegion _) = []"
| "assigned_together LeaveExceptionRegion = []"
| "assigned_together (CallRoutine _ _ ds) = ds"

definition destinations_ok :: "(slot_id list \<Rightarrow> bool) \<Rightarrow> 'q program \<Rightarrow> bool" where
  "destinations_ok ok p \<longleftrightarrow>
     ok (parameter_slots p) \<and> list_all (\<lambda>b. list_all (\<lambda>(i, _). ok (assigned_together i)) (block_instructions b)) (prog_blocks p)"

locale machine_relation =
  fixes x :: external_code
    and H :: "('q, 'h) runtime_host"
    and ok :: "slot_id list \<Rightarrow> bool"
    and S :: "budget \<Rightarrow> budget \<Rightarrow> bool"
    and R :: "('h, 's) machine \<Rightarrow> ('h, 's) machine \<Rightarrow> bool"
  assumes single: "\<And>d. ok [d]"
    and S_refl: "\<And>b. S b b"
    and S_trans: "\<And>b1 b2 b3. S b1 b2 \<Longrightarrow> S b2 b3 \<Longrightarrow> S b1 b3"
    and S_instructions: "\<And>b n. S b (snd (charge_instructions n b))"
    and S_statement: "\<And>b. S b (snd (charge_sql_statement b))"
    and S_rows: "\<And>b n. S b (snd (charge_rows n b))"
    and S_bytes: "\<And>b n. S b (snd (charge_result_bytes n b))"
    and S_boundary: "\<And>b. S b (snd (check_boundary b))"
    and S_expression: "\<And>b e vs h. S b (snd (run_session budget_step (evaluate_expression H e vs h) b))"
    and S_binary: "\<And>b oper v w h. S b (snd (run_session budget_step (evaluate_binary H oper v w h) b))"
    and S_open: "\<And>b st vs h. S b (snd (run_session budget_step (open_cursor H st vs h) b))"
    and S_fetch: "\<And>b t h. S b (snd (run_session budget_step (fetch_cursor H t h) b))"
    and S_call: "\<And>b routine vs h. S b (snd (run_session budget_step (call_routine H routine vs h) b))"
    and S_sql: "\<And>b k st vs h. S b (fst (snd (run_session into_step (execute_sql H st vs h) (b, k))))"
    and S_dynamic: "\<And>b k src vs h. S b (fst (snd (run_session into_step (execute_dynamic_sql H src vs h) (b, k))))"
    and S_forward: "\<And>b k push ts st vs h. S b (fst (snd (run_session (forward_step x push ts) (execute_sql H st vs h) (b, k :: 's forward_sink))))"
    and refl: "\<And>m. R m m"
    and trans: "\<And>m1 m2 m3. R m1 m2 \<Longrightarrow> R m2 m3 \<Longrightarrow> R m1 m3"
    and budget: "\<And>m b. S (mbudget m) b \<Longrightarrow> R m (m\<lparr>mbudget := b\<rparr>)"
    and assignment: "\<And>m ds vs sp. ok ds \<Longrightarrow> R m (snd (assign_many x ds vs sp m))"
    and host: "\<And>m h. R m (m\<lparr>mhost := h\<rparr>)"
    and sink: "\<And>m s. R m (m\<lparr>msink := s\<rparr>)"
    and status: "\<And>m st. R m (m\<lparr>msql_status := st\<rparr>)"
    and cursors: "\<And>m cs. R m (m\<lparr>mcursors := cs\<rparr>)"
    and rows_out: "\<And>m n. R m (m\<lparr>mresult_rows := n\<rparr>)"
begin

lemma keeps_succeed [intro]: "keeps R (succeed v)"
  by (simp add: keeps_def succeed_def refl)

lemma keeps_fail [intro]: "keeps R (fail d)"
  by (simp add: keeps_def fail_def refl)

lemma keeps_from_result [intro]: "keeps R (from_result f)"
  by (simp add: keeps_def from_result_def refl)

lemma keeps_andthen [intro]: "keeps R f \<Longrightarrow> (\<And>v. keeps R (g v)) \<Longrightarrow> keeps R (andthen f g)"
  unfolding keeps_def andthen_def by (auto split: prod.splits sum.splits) (metis snd_conv, metis snd_conv trans)

lemma keeps_on_budget [intro]: "(\<And>b. S b (snd (f b))) \<Longrightarrow> keeps R (on_budget f)"
  unfolding keeps_def on_budget_def by (auto split: prod.splits) (metis budget snd_conv)

lemma keeps_assign_many [intro]: "ok ds \<Longrightarrow> keeps R (assign_many x ds vs sp)"
  by (simp add: keeps_def assignment)

lemma keeps_assign [intro]: "keeps R (assign x d v sp)"
  by (simp add: assign_def keeps_assign_many single)

lemma keeps_tell_host [intro]: "keeps R (tell_host call)"
  by (auto simp: keeps_def tell_host_def host split: prod.splits)

lemma host_budget: "S (mbudget m) b \<Longrightarrow> R m (m\<lparr>mhost := h, mbudget := b\<rparr>)"
  using budget [of "m\<lparr>mhost := h\<rparr>" b] host trans by simp blast

lemma keeps_ask_host: "(\<And>b h. S b (snd (run_session budget_step (call h) b))) \<Longrightarrow> keeps R (ask_host call)"
  unfolding keeps_def ask_host_def by (auto split: prod.splits) (metis host_budget snd_conv)

lemma keeps_update [intro]: "(\<And>m. R m (f m)) \<Longrightarrow> keeps R (update_machine f)"
  by (simp add: keeps_def update_machine_def)

lemma keeps_ask_into:
  assumes "\<And>b k h. S b (fst (snd (run_session into_step (call h) (b, k))))"
  shows "keeps R (ask_into call retain)"
proof -
  have "R m (snd (ask_into call retain m))" for m
  proof -
    obtain r h b k where s: "run_session into_step (call (mhost m)) (mbudget m, \<lparr>retain_first = retain, first_row = None, into_rows = 0\<rparr>) = ((r, h), b, k)"
      by (metis prod.exhaust)
    then have "S (mbudget m) b" using assms by (metis fst_conv snd_conv)
    then show ?thesis using host_budget s by (auto simp: ask_into_def split: sum.splits)
  qed
  then show ?thesis by (simp add: keeps_def)
qed

lemma keeps_ask_forward: "keeps R (ask_forward x push ts (execute_sql H st vs))"
proof -
  have "R m (snd (ask_forward x push ts (execute_sql H st vs) m))" for m
  proof -
    obtain r h b k where s: "run_session (forward_step x push ts) (execute_sql H st vs (mhost m))
        (mbudget m, \<lparr>inner_sink = msink m, total_rows = mresult_rows m, forwarded_rows = 0\<rparr>) = ((r, h), b, k)"
      by (metis prod.exhaust)
    then have "S (mbudget m) b" using S_forward by (metis fst_conv snd_conv)
    then have 1: "R m (m\<lparr>mhost := h, mbudget := b\<rparr>)" by (rule host_budget)
    let ?m = "m\<lparr>mhost := h, mbudget := b\<rparr>"
    have "R ?m (?m\<lparr>msink := inner_sink k\<rparr>)" by (rule sink)
    moreover have "R (?m\<lparr>msink := inner_sink k\<rparr>) (?m\<lparr>msink := inner_sink k, mresult_rows := total_rows k\<rparr>)" by (rule rows_out)
    ultimately have "R m (?m\<lparr>msink := inner_sink k, mresult_rows := total_rows k\<rparr>)" using 1 trans by blast
    then show ?thesis using s by (auto simp: ask_forward_def Let_def split: sum.splits)
  qed
  then show ?thesis by (simp add: keeps_def)
qed

lemma keeps_push: "keeps R (\<lambda>m. case push row (msink m) of (r, s) \<Rightarrow> (r, m\<lparr>msink := s\<rparr>))"
  by (auto simp: keeps_def sink split: prod.splits)

lemma status_cursors: "R m (m\<lparr>msql_status := st, mcursors := cs\<rparr>)"
  by (rule trans [OF status cursors])

lemma keeps_if [intro]: "(b \<Longrightarrow> keeps R f) \<Longrightarrow> (\<not> b \<Longrightarrow> keeps R g) \<Longrightarrow> keeps R (if b then f else g)"
  by simp

lemmas keeps_rules = keeps_succeed keeps_fail keeps_from_result keeps_andthen keeps_assign_many keeps_assign
  keeps_tell_host keeps_ask_host keeps_ask_forward keeps_push keeps_if keeps_on_budget keeps_update

lemma keeps_set_status: "keeps R (set_status a n)"
  unfolding set_status_def by (rule keeps_update) (rule status)

lemma S_row: "S b (snd (charge_result_row row b))"
proof -
  obtain r1 b1 where 1: "charge_rows 1 b = (r1, b1)" by (rule prod.exhaust)
  have "S b b1" using S_rows [of b 1] unfolding 1 by simp
  then show ?thesis using S_trans [OF _ S_bytes, of b b1 "row_bytes row"] unfolding charge_result_row_def 1 prod.case
    by (simp split: sum.split)
qed

lemma S_outputs: "S b (snd (charge_outputs vs b))"
proof (induction vs arbitrary: b)
  case (Cons v vs)
  obtain r1 b1 where 1: "charge_result_bytes (owned_bytes v) b = (r1, b1)" by (rule prod.exhaust)
  have "S b b1" using S_bytes [of b "owned_bytes v"] 1 by simp
  then show ?case using 1 S_trans [OF _ Cons.IH, of b b1] by (simp split: sum.split)
qed (simp add: S_refl)

lemmas S_all = S_instructions S_statement S_rows S_bytes S_boundary S_expression S_binary S_open S_fetch S_call S_row S_outputs

lemma keeps_run_into:
  assumes "ok into" "\<And>b k h. S b (fst (snd (run_session into_step (call h) (b, k))))"
  shows "keeps R (run_into x call into strict msg1 msg2)"
proof -
  have "keeps R (null_row into)" unfolding null_row_def by (rule keeps_from_result)
  then show ?thesis
    unfolding run_into_def by (intro keeps_andthen keeps_ask_into assms(2))
      (auto split: prod.split option.split intro!: keeps_rules keeps_set_status S_all assms(1))
qed


lemmas keeps_all = keeps_rules keeps_set_status S_all

lemma keeps_into:
  "ok into \<Longrightarrow> keeps R (execute_sql_instruction x H st ps into strict)" "ok into \<Longrightarrow> keeps R (execute_dynamic_instruction x H sl ps into strict)"
  unfolding execute_sql_instruction_def execute_dynamic_instruction_def read_all_slots_def
  by (auto intro!: keeps_all keeps_run_into S_sql S_dynamic split: prod.splits)

lemma keeps_emit:
  "keeps R (emit_result_query x H push columns st ps)" "keeps R (emit_result_row push vs)"
  unfolding emit_result_query_def emit_result_row_def read_all_slots_def
  by (auto intro!: keeps_all rows_out split: prod.splits)

lemma keeps_cursor:
  "keeps R (open_cursor_instruction H c st ps)" "keeps R (close_cursor_instruction H c)"
  "ok into \<Longrightarrow> keeps R (assign_cursor_row x into row)" "ok into \<Longrightarrow> keeps R (fetch_cursor_instruction x H c into fs)"
proof -
  show "ok into \<Longrightarrow> keeps R (assign_cursor_row x into row)" for row
    unfolding assign_cursor_row_def by (auto intro!: keeps_all)
  then show "ok into \<Longrightarrow> keeps R (fetch_cursor_instruction x H c into fs)"
    unfolding fetch_cursor_instruction_def open_token_def by (auto intro!: keeps_all status_cursors split: option.split)
qed (auto simp: open_cursor_instruction_def close_cursor_instruction_def open_token_def read_all_slots_def intro!: keeps_all cursors)

lemma keeps_values:
  "keeps R (make_record x d ss)" "keeps R (read_record_field x d r i)" "keeps R (write_record_field x r i v)"
  "keeps R (quote_sql_identifier x d sl)" "keeps R (concatenate_sql_text x d l r)" "keeps R (collection_append x c v)"
  "keeps R (collection_get x d c i)" "keeps R (collection_set x c i v)" "keeps R (assign_result x d f)"
  unfolding make_record_def read_record_field_def write_record_field_def quote_sql_identifier_def concatenate_sql_text_def
    collection_append_def collection_get_def collection_set_def collection_of_def assign_result_def
  by (auto intro!: keeps_all split: sum.splits option.splits)

lemma keeps_calls:
  "keeps R (append_audit H oid fp md)" "keeps R (append_outbox H key version payload)"
  "(\<And>b h. S b (snd (run_session budget_step (call h) b))) \<Longrightarrow> keeps R (evaluate_instruction x call d)"
  "ok results \<Longrightarrow> keeps R (call_instruction x H routine args results)"
  unfolding append_audit_def append_outbox_def evaluate_instruction_def call_instruction_def read_all_slots_def
  by (auto intro!: keeps_all)

lemma keeps_instruction: "ok (assigned_together i) \<Longrightarrow> keeps R (execute_instruction x H push columns i)"
  by (cases i) (auto intro!: keeps_all keeps_into keeps_emit keeps_cursor keeps_values keeps_calls
      simp: read_all_slots_def collection_of_def split: prod.splits)

lemma close_cursors_keeps: "R m (snd (close_cursors H cs m))"
proof (induction cs arbitrary: m)
  case (Cons c cs)
  show ?case
  proof (cases "map_of (mcursors m) c")
    case (Some st)
    let ?m = "m\<lparr>mcursors := AList.delete c (mcursors m)\<rparr>"
    obtain r m1 where t: "tell_host (close_cursor H (cur_token st)) ?m = (r, m1)" by (rule prod.exhaust)
    then have k1: "R m m1" by (rule trans [OF cursors keepsD [OF keeps_tell_host]])
    have "R m (snd (close_cursors H cs m1))" by (rule trans [OF k1 Cons.IH])
    then show ?thesis using Some t k1 by (simp split: sum.split)
  qed (simp add: Cons.IH)
qed (simp add: refl)

lemma close_tokens_keeps: "R m (close_tokens H ts m)" "R m (snd (close_tokens_checked H ts m))"
proof -
  have t: "R m (snd (tell_host (close_cursor H c) m))" for m c using keeps_tell_host [of "close_cursor H c"] unfolding keeps_def by blast
  show "R m (close_tokens H ts m)" using t trans by (induction ts arbitrary: m) (simp_all add: refl, blast)
  show "R m (snd (close_tokens_checked H ts m))"
  proof (induction ts arbitrary: m)
    case (Cons c ts)
    obtain r m1 where m1: "tell_host (close_cursor H c) m = (r, m1)" by (rule prod.exhaust)
    then have k1: "R m m1" using t [of m c] by simp
    have "R m (snd (close_tokens_checked H ts m1))" by (rule trans [OF k1 Cons.IH])
    then show ?case using m1 k1 by (simp split: sum.split)
  qed (simp add: refl)
qed

lemma close_all_keeps: "R m (close_all_cursors H m)" "R m (snd (close_all_cursors_checked H m))"
  unfolding close_all_cursors_def close_all_cursors_checked_def
  by (rule trans [OF cursors close_tokens_keeps(1)], rule trans [OF cursors close_tokens_keeps(2)])

lemma tell_keeps: "tell_host call m = (r, m1) \<Longrightarrow> R m m1"
  using keeps_tell_host by (rule keepsD)

lemma abort_all_keeps: "R m (snd (abort_all_exception_frames H d rs m))"
proof (induction rs arbitrary: m)
  case (Cons r rs)
  obtain r1 m1 where 1: "(if ex_handling r = None then tell_host (rollback_savepoint H (ex_savepoint r)) m else (Inr (), m)) = (r1, m1)"
    by (rule prod.exhaust)
  then have k1: "R m m1" using tell_keeps refl by (auto split: if_splits)
  obtain r2 m2 where 2: "tell_host (release_savepoint H (ex_savepoint r)) m1 = (r2, m2)" by (rule prod.exhaust)
  have k2: "R m m2" by (rule trans [OF k1 tell_keeps [OF 2]])
  have "R m (snd (abort_all_exception_frames H d rs m2))" by (rule trans [OF k2 Cons.IH])
  then show ?case unfolding abort_all_exception_frames.simps 1 prod.case using k1 k2 2 by (simp split: sum.split)
qed (simp add: refl)

lemma release_all_keeps: "R m (snd (snd (release_all_exception_frames H rs m)))"
proof (induction rs arbitrary: m)
  case (Cons r rs)
  obtain r1 m1 where 1: "tell_host (release_savepoint H (ex_savepoint r)) m = (r1, m1)" by (rule prod.exhaust)
  then have k1: "R m m1" by (rule tell_keeps)
  have "R m (snd (snd (release_all_exception_frames H rs m1)))" by (rule trans [OF k1 Cons.IH])
  then show ?case using 1 k1 by (simp split: sum.split)
qed (simp add: refl)

lemma alias_keeps: "keeps R (assign_alias x d r)"
  unfolding assign_alias_def by (auto intro!: keeps_all split: option.splits)

lemma route_keeps: "R m (snd (snd (route_exception x H d rs m)))"
proof (induction rs arbitrary: d m)
  case (Cons r rs)
  obtain r1 m1 where 1: "tell_host (release_savepoint H (ex_savepoint r)) m = (r1, m1)" by (rule prod.exhaust)
  have k1: "R m m1" using 1 by (rule tell_keeps)
  obtain r2 m2 where 2: "tell_host (rollback_savepoint H (ex_savepoint r)) m = (r2, m2)" by (rule prod.exhaust)
  obtain r3 m3 where 3: "close_cursors H (filter (\<lambda>c. c \<notin> set (ex_cursors r)) (cursor_ids (mcursors m2))) m2 = (r3, m3)" by (rule prod.exhaust)
  let ?m3 = "m3\<lparr>msql_status := ex_sql_status r\<rparr>"
  have k2: "R m m2" using 2 by (rule tell_keeps)
  have "R m2 m3" using close_cursors_keeps [of m2] 3 by (metis snd_conv)
  with k2 have k3: "R m m3" by (rule trans)
  then have k3': "R m ?m3" by (rule trans [OF _ status])
  obtain r4 m4 where 4: "tell_host (release_savepoint H (ex_savepoint r)) ?m3 = (r4, m4)" by (rule prod.exhaust)
  have k4: "R m m4" using 4 tell_keeps trans [OF k3'] by blast
  have a: "R m m5" if "assign_alias x d ro ?m3 = (r5, m5)" for ro r5 m5 by (rule trans [OF k3' keepsD [OF alias_keeps that]])
  have ih: "R m (snd (snd (route_exception x H d' rs m')))" if "R m m'" for d' m' by (rule trans [OF that Cons.IH])
  show ?case using 1 2 3 4 k1 k2 k3 k3' k4 a ih
    by (auto simp: Let_def split: sum.splits option.splits prod.splits)
qed (simp add: refl)

lemma routed_keeps: "R m (snd (snd (routed x H d rs m)))"
proof -
  obtain r rs1 m1 where 1: "route_exception x H d rs m = (r, rs1, m1)" by (metis prod.exhaust)
  then have k: "R m m1" using route_keeps [of m d rs] by simp
  have "R m (close_all_cursors H m1)" by (rule trans [OF k close_all_keeps(1)])
  then show ?thesis using 1 k by (auto simp: routed_def split: sum.splits)
qed

lemma run_one_keeps: "R m (snd (snd (run_one x H push columns i rs m)))" if prems: "ok (assigned_together i)"
proof (cases "\<exists>routes. i = EnterExceptionRegion routes")
  case True
  then show ?thesis using tell_keeps by (auto simp: run_one_def enter_region_def split: sum.splits prod.splits)
next
  case ne: False
  show ?thesis
  proof (cases "i = LeaveExceptionRegion")
    case True
    then show ?thesis using tell_keeps refl by (auto simp: run_one_def leave_exception_frame_def split: list.splits prod.splits)
  next
    case False
    obtain r m1 where e: "execute_instruction x H push columns i m = (r, m1)" by (rule prod.exhaust)
    have "run_one x H push columns i rs m = (r, rs, m1)" using ne False e by (cases i) (simp_all add: run_one_def)
    then show ?thesis using keepsD [OF keeps_instruction e] prems by simp
  qed
qed

lemma charge_keeps: "on_budget (charge_instructions n) m = (r, m1) \<Longrightarrow> R m m1"
  by (rule keepsD [OF keeps_on_budget]) (rule S_instructions)

lemma run_instructions_keeps:
  "list_all (\<lambda>(i, _). ok (assigned_together i)) is \<Longrightarrow> R m (snd (snd (run_instructions x H push columns is rs m)))"
proof (induction "is" arbitrary: rs m)
  case (Cons i "is")
  obtain ins sp where i: "i = (ins, sp)" by (rule prod.exhaust)
  obtain r1 m1 where 1: "on_budget (charge_instructions 1) m = (r1, m1)" by (rule prod.exhaust)
  have k1: "R m m1" using 1 by (rule charge_keeps)
  obtain r2 rs2 m2 where 2: "run_one x H push columns ins rs m1 = (r2, rs2, m2)" by (metis prod.exhaust)
  have "R m1 m2" using run_one_keeps [of ins m1 push columns rs] 2 Cons.prems i by simp
  with k1 have k2: "R m m2" by (rule trans)
  have k3: "R m (snd (snd (routed x H d rs2 m2)))" for d by (rule trans [OF k2 routed_keeps])
  have k4: "R m (snd (snd (run_instructions x H push columns is rs2 m2)))"
    by (rule trans [OF k2 Cons.IH]) (use Cons.prems in simp)
  show ?case
  proof (cases r1)
    case r1: (Inr u)
    show ?thesis
    proof (cases r2)
      case (Inl d)
      obtain e rs3 m3 where 3: "routed x H (attach_span sp d) rs2 m2 = (e, rs3, m3)" by (metis prod.exhaust)
      then have "R m m3" using k3 [of "attach_span sp d"] by simp
      then show ?thesis using i r1 Inl 3 by (simp del: One_nat_def add: 1 2)
    qed (use i r1 k4 in \<open>simp del: One_nat_def add: 1 2\<close>)
  qed (use i k1 in \<open>simp del: One_nat_def add: 1\<close>)
qed (simp add: refl)


lemma return_values_keeps: "keeps R (return_values p v)"
  unfolding return_values_def read_return_def read_all_slots_def by (auto intro!: keeps_all split: option.splits)

lemma run_return_keeps: "R m (snd (snd (run_return H p v rs m)))"
proof -
  obtain r1 m1 where 1: "return_values p v m = (r1, m1)" by (rule prod.exhaust)
  obtain r2 rs2 m2 where 2: "release_all_exception_frames H rs m1 = (r2, rs2, m2)" by (metis prod.exhaust)
  obtain r3 m3 where 3: "close_all_cursors_checked H m2 = (r3, m3)" by (rule prod.exhaust)
  have k1: "R m m1" by (rule keepsD [OF return_values_keeps 1])
  have "R m1 m2" using release_all_keeps [of m1 rs] 2 by simp
  with k1 have k2: "R m m2" by (rule trans)
  have "R m2 m3" using close_all_keeps(2) [of m2] 3 by simp
  with k2 have "R m m3" by (rule trans)
  then show ?thesis unfolding run_return_def 1 prod.case using k1 k2 2 3 by (auto split: sum.split)
qed

lemma jump_keeps: "keeps R f \<Longrightarrow> R m (snd (snd (jump_exit (f m) rs)))"
  by (cases "f m") (auto simp: jump_exit_def dest: keepsD split: sum.split)

lemma run_terminator_keeps: "R m (snd (snd (run_terminator x H p t rs m)))"
proof (cases "fst t")
  case (Jump b)
  have "keeps R (andthen (on_budget check_boundary) (\<lambda>_. succeed b))" by (auto intro!: keeps_all)
  then show ?thesis using jump_keeps Jump by (simp add: run_terminator_def)
next
  case (Branch c yes no)
  have "keeps R (branch_target c yes no)" unfolding branch_target_def by (auto intro!: keeps_all)
  then show ?thesis using jump_keeps Branch by (simp add: run_terminator_def)
qed (auto simp: run_terminator_def refl routed_keeps run_return_keeps split: list.split option.split)

lemma run_block_keeps: "R m (snd (snd (run_block x H push p current rs m)))" if p: "destinations_ok ok p"
proof (cases "nth_opt (prog_blocks p) current")
  case (Some b)
  obtain e rs1 m1 where 1: "run_instructions x H push (result_columns p) (block_instructions b) rs m = (e, rs1, m1)" by (metis prod.exhaust)
  obtain r2 m2 where 2: "on_budget (charge_instructions 1) m1 = (r2, m2)" by (rule prod.exhaust)
  have "b \<in> set (prog_blocks p)" using Some by (auto simp: nth_opt_def split: if_splits)
  then have "list_all (\<lambda>(i, _). ok (assigned_together i)) (block_instructions b)"
    using p by (auto simp: destinations_ok_def list_all_iff)
  then have k1: "R m m1" using run_instructions_keeps [of "block_instructions b" m push "result_columns p" rs] 1 by simp
  have k2: "R m m2" by (rule trans [OF k1 charge_keeps [OF 2]])
  have "R m (snd (snd (run_terminator x H p (block_terminator b) rs1 m2)))" by (rule trans [OF k2 run_terminator_keeps])
  then show ?thesis unfolding run_block_def Some option.case 1 prod.case 2 using k1 k2 by (simp split: option.split sum.split)
qed (simp add: run_block_def refl del: nth_opt_None)

end

end
