(* ===== verification/Proc_Meter.thy ===== *)
theory Proc_Meter
  imports Proc_Relation Proc_Example
begin

text \<open>
  Metering. Every budget operation, and hence every dialogue of the host with the budget, only raises the meters and stops
  at the limits. With the interpreter charging an instruction for each instruction and each terminator, this bounds the blocks a
  run can visit: the execution loop, which has no bound of its own, returns for every program and every host. The
  induction along a run that this gives, \<open>run_induct\<close>, then carries the relations of \<open>Proc_Relation\<close> through whole calls.
\<close>

section \<open>Row sinks charge the budget\<close>

lemma into_step_spends: "spends (fst s) (fst (snd (into_step op s)))"
proof (cases s)
  case (Pair b k)
  have c: "spends b (snd (check_boundary b))" "spends b (snd (charge_rows n b))" "spends b (snd (charge_result_bytes n b))" for b n
    by (rule charge_spends)+
  show ?thesis
  proof (cases op)
    case (PushRow row)
    obtain r1 b1 where 1: "check_boundary b = (r1, b1)" by (rule prod.exhaust)
    obtain r2 b2 where 2: "charge_rows 1 b1 = (r2, b2)" by (rule prod.exhaust)
    obtain r3 b3 where 3: "charge_result_bytes (row_bytes row) b2 = (r3, b3)" by (rule prod.exhaust)
    have "spends b b1" "spends b1 b2" "spends b2 b3" using c(1) [of b] c(2) [of b1 1] c(3) [of b2 "row_bytes row"] 1 2 3 by simp_all
    then have "spends b b1" "spends b b2" "spends b b3" by (blast intro: spends_trans)+
    then show ?thesis using Pair PushRow 1 2 3 by (auto simp: Let_def split: sum.splits)
  next
    case (SinkBudget o1)
    then show ?thesis using budget_step_spends [of b o1] Pair by (auto split: prod.splits)
  qed
qed

lemma charge_result_row_spends [spends_intros]: "spends b (snd (charge_result_row row b))"
proof -
  obtain r1 b1 where 1: "charge_rows 1 b = (r1, b1)" by (rule prod.exhaust)
  have "spends b b1" "spends b1 (snd (charge_result_bytes (row_bytes row) b1))"
    using charge_spends(3) [of b 1] charge_spends(4) unfolding 1 by simp_all
  then show ?thesis using 1 by (auto simp: charge_result_row_def split: sum.splits intro: spends_trans)
qed

lemma forward_step_spends: "spends (fst s) (fst (snd (forward_step x push ts op s)))"
proof (cases s)
  case (Pair b k)
  show ?thesis
  proof (cases op)
    case (PushRow row)
    then show ?thesis using charge_result_row_spends [of b row] Pair by (auto split: prod.splits sum.splits)
  next
    case (SinkBudget o1)
    then show ?thesis using budget_step_spends [of b o1] Pair by (auto split: prod.splits)
  qed
qed

section \<open>The instruction meter\<close>

definition meter :: "('h, 's) machine \<Rightarrow> ('h, 's) machine \<Rightarrow> bool" where
  "meter m m' \<longleftrightarrow> spends (mbudget m) (mbudget m')"

lemma assign_many_meter: "meter m (snd (assign_many x ds vs sp m))"
proof -
  let ?f = "mframe m"
  have "spends (mbudget m) (mbudget (snd (assign_many x ds vs sp m)))" if c: "check_assignments x ?f sp (zip ds vs) 0 0 = Inr (old_bytes, new_bytes)" for old_bytes new_bytes
  proof -
    obtain r b where b: "(if new_bytes > old_bytes then charge_heap (new_bytes - old_bytes) (mbudget m) else (Inr (), mbudget m)) = (r, b)"
      by (rule prod.exhaust)
    have s: "spends (mbudget m) b" using charge_spends(5) [of "mbudget m" "new_bytes - old_bytes"] b by (auto split: if_splits)
    have "spends (mbudget m) (release_heap n b)" for n by (rule spends_trans [OF s]) (rule spends_intros)
    then show ?thesis unfolding assign_many_def using s b c by (simp add: Let_def split: sum.split)
  qed
  then show ?thesis unfolding meter_def
    by (cases "check_assignments x ?f sp (zip ds vs) 0 0") (auto simp: assign_many_def)
qed

lemma session_budget:
  assumes "\<And>op s. spends (fst s) (fst (snd (step op s)))"
  shows "spends b (fst (snd (run_session step c (b, k))))"
proof -
  have "spends (fst (b, k)) (fst (snd (run_session step c (b, k))))"
    by (rule run_session_rel [where R = "\<lambda>s t. spends (fst s) (fst t)"]) (auto intro: spends_trans assms)
  then show ?thesis by simp
qed

interpretation meter: machine_relation x H "\<lambda>_. True" spends meter
  by unfold_locales (auto simp: assign_many_meter session_budget into_step_spends forward_step_spends spends_intros,
      auto simp: meter_def intro: spends_trans)

lemma all_destinations [simp]: "destinations_ok (\<lambda>_. True) p"
  by (simp add: destinations_ok_def list_all_iff split: prod.split)

lemma charge_fuel:
  assumes "on_budget (charge_instructions 1) m = (Inr u, m')"
  shows "fuel_left (mbudget m') < fuel_left (mbudget m)"
proof -
  obtain r b where "charge_instructions 1 (mbudget m) = (r, b)" by (rule prod.exhaust)
  then show ?thesis using assms charge_instructions_fuel [of 1 "mbudget m"] by (auto simp: on_budget_def)
qed

lemma meter_fuel: "meter m m' \<Longrightarrow> fuel_left (mbudget m') \<le> fuel_left (mbudget m)"
  unfolding meter_def by (rule spends_fuel)

lemma run_instructions_fuel:
  assumes "run_instructions x H push columns is rs m = (Some (Continue t), rs', m')"
  shows "fuel_left (mbudget m') < fuel_left (mbudget m)"
proof (cases "is")
  case (Cons i "is'")
  obtain ins sp where i: "i = (ins, sp)" by (rule prod.exhaust)
  obtain r1 m1 where 1: "on_budget (charge_instructions 1) m = (r1, m1)" by (rule prod.exhaust)
  obtain r2 rs2 m2 where 2: "run_one x H push columns ins rs m1 = (r2, rs2, m2)" by (metis prod.exhaust)
  have r1: "r1 = Inr ()" using assms 1 by (cases r1) (auto simp: Cons i simp del: One_nat_def)
  have lt: "fuel_left (mbudget m1) < fuel_left (mbudget m)" using charge_fuel 1 r1 by blast
  have "meter m1 m2" using meter.run_one_keeps [of m1 x H push columns ins rs] 2 by simp
  moreover have "meter m2 m'"
  proof (cases r2)
    case (Inl d)
    obtain e rs3 m3 where 3: "routed x H (attach_span sp d) rs2 m2 = (e, rs3, m3)" by (metis prod.exhaust)
    then have "m' = m3" using assms Cons i r1 Inl by (simp del: One_nat_def add: 1 2)
    then show ?thesis using meter.routed_keeps [of m2 x H "attach_span sp d" rs2] 3 by simp
  next
    case (Inr u)
    then have "run_instructions x H push columns is' rs2 m2 = (Some (Continue t), rs', m')"
      using assms Cons i r1 by (simp del: One_nat_def add: 1 2)
    then show ?thesis using meter.run_instructions_keeps [of "is'" m2 x H push columns rs2] by (simp add: list_all_iff split: prod.split)
  qed
  ultimately show ?thesis using lt meter_fuel by (meson le_less_trans)
qed (use assms in simp)

lemma run_block_fuel:
  assumes "run_block x H push p c rs m = (Continue t, rs', m')"
  shows "fuel_left (mbudget m') < fuel_left (mbudget m)"
proof -
  obtain b where b: "nth_opt (prog_blocks p) c = Some b" using assms by (cases "nth_opt (prog_blocks p) c") (simp_all add: run_block_def)
  obtain e rs1 m1 where 1: "run_instructions x H push (result_columns p) (block_instructions b) rs m = (e, rs1, m1)" by (metis prod.exhaust)
  show ?thesis
  proof (cases e)
    case (Some ex)
    then have "ex = Continue t" "m' = m1" using assms unfolding run_block_def b option.case 1 prod.case by simp_all
    then show ?thesis using run_instructions_fuel 1 Some by blast
  next
    case None
    obtain r2 m2 where 2: "on_budget (charge_instructions 1) m1 = (r2, m2)" by (rule prod.exhaust)
    have t: "r2 = Inr ()" "run_terminator x H p (block_terminator b) rs1 m2 = (Continue t, rs', m')"
      using assms None unfolding run_block_def b option.case 1 prod.case 2 by (simp_all split: sum.splits)
    have "meter m m1" using meter.run_instructions_keeps [of "block_instructions b" m x H push "result_columns p" rs] 1
      by (simp add: list_all_iff split: prod.split)
    moreover have "meter m2 m'" using meter.run_terminator_keeps [of m2 x H p "block_terminator b" rs1] t(2) by simp
    moreover have "fuel_left (mbudget m2) < fuel_left (mbudget m1)" using charge_fuel 2 t(1) by blast
    ultimately show ?thesis using meter_fuel by (meson le_less_trans less_le_trans)
  qed
qed

text \<open>Induction along the blocks that a run visits: every block costs an instruction.\<close>

lemma run_induct [case_names block]:
  assumes "\<And>c rs m. (\<And>t rs1 m1. run_block x H push p c rs m = (Continue t, rs1, m1) \<Longrightarrow> P t rs1 m1) \<Longrightarrow> P c rs m"
  shows "P c rs m"
proof (induction "fuel_left (mbudget m)" arbitrary: c rs m rule: less_induct)
  case less
  show ?case by (rule assms) (use less run_block_fuel in blast)
qed

lemma execute_frame_returns: "\<exists>r rs' m'. execute_frame x H push p c rs m = Some (r, rs', m')"
proof (induction c rs m rule: run_induct [where x = x and H = H and push = push and p = p])
  case (block c rs m)
  obtain e rs1 m1 where 1: "run_block x H push p c rs m = (e, rs1, m1)" by (metis prod.exhaust)
  show ?case using block 1 by (cases e) (simp_all add: execute_frame.simps [of x H push p c rs m])
qed

context machine_relation
begin

lemma execute_frame_keeps:
  assumes p: "destinations_ok ok p"
  shows "execute_frame x H push p c rs m = Some (r, rs', m') \<Longrightarrow> R m m'"
proof (induction c rs m arbitrary: r rs' m' rule: run_induct [where x = x and H = H and push = push and p = p])
  case (block c rs m)
  obtain e rs1 m1 where 1: "run_block x H push p c rs m = (e, rs1, m1)" by (metis prod.exhaust)
  have k1: "R m m1" using run_block_keeps [OF p, of m push c rs] 1 by simp
  show ?case
  proof (cases e)
    case (Continue t)
    then have "execute_frame x H push p t rs1 m1 = Some (r, rs', m')" using block.prems 1 execute_frame.simps [of x H push p c rs m] by simp
    then have "R m1 m'" using block.IH 1 Continue by blast
    with k1 show ?thesis by (rule trans)
  next
    case (Finished r1)
    then show ?thesis using block.prems 1 k1 execute_frame.simps [of x H push p c rs m] by simp
  qed
qed

lemma finish_frame_keeps: "\<exists>m'. R m m' \<and> snd (finish_frame H (r, rs, m)) = drop_frame m'"
proof (cases r)
  case (Inl d)
  obtain r1 m1 where 1: "abort_all_exception_frames H d rs m = (r1, m1)" by (rule prod.exhaust)
  have "R m m1" using abort_all_keeps [of m d rs] 1 by simp
  then have "R m (close_all_cursors H m1)" by (rule trans [OF _ close_all_keeps(1)])
  then show ?thesis using Inl 1 by (cases r1) (auto simp: finish_frame_def)
qed (use refl in \<open>auto simp: finish_frame_def\<close>)

text \<open>A call is refused before it has a frame, or everything it does lies between the entry of its frame and its drop.\<close>

lemma execute_cases:
  assumes p: "destinations_ok ok p" and e: "execute_with_result_sink x H push p args b h s = Some (r, m')"
  obtains (arguments) "m' = start_machine p b h s"
  | (entry) d where "on_budget enter_frame (start_machine p b h s) = (Inl d, m')"
  | (ran) m1 m2 where "on_budget enter_frame (start_machine p b h s) = (Inr (), m1)" "R m1 m2" "m' = drop_frame m2"
proof -
  let ?m = "start_machine p b h s" and ?f = "andthen (assign_many x (parameter_slots p) args None) (\<lambda>_. on_budget check_boundary)"
  obtain r' where i: "execute_inner x H push p args b h s = Some (r', m')"
    using e by (auto simp: execute_with_result_sink_def split: option.splits sum.splits)
  obtain r1 m1 where 1: "on_budget enter_frame ?m = (r1, m1)" by (rule prod.exhaust)
  obtain r2 m2 where 2: "?f m1 = (r2, m2)" by (rule prod.exhaust)
  have f: "keeps R ?f" using p by (auto intro!: keeps_all simp: destinations_ok_def)
  have k2: "R m1 m2" by (rule keepsD [OF f 2])
  obtain r3 rs3 m3 where 3: "execute_frame x H push p (prog_entry p) [] m2 = Some (r3, rs3, m3)" using execute_frame_returns by blast
  obtain m4 where 4: "R m3 m4" "snd (finish_frame H (r3, rs3, m3)) = drop_frame m4" using finish_frame_keeps by blast
  have k4: "R m1 m4" by (rule trans [OF trans [OF k2 execute_frame_keeps [OF p 3]] 4(1)])
  have c: "execute_inner x H push p args b h s = (if length args \<noteq> length (parameter_slots p)
      then Some (Inl (new_diagnostic RuntimeInvalidIr ''runtime argument count differs from verified parameter slots''), ?m)
      else case r1 of Inl d \<Rightarrow> Some (Inl d, m1) | Inr _ \<Rightarrow>
        (case r2 of Inl d \<Rightarrow> Some (Inl d, drop_frame m2) | Inr _ \<Rightarrow> Some (finish_frame H (r3, rs3, m3))))"
    unfolding execute_inner_def Let_def 1 prod.case 2 using 3 by (simp split: sum.split)
  show ?thesis using i 1 k2 k4 4(2) unfolding c
    by (auto split: if_splits sum.splits intro: arguments entry ran)
qed

end

section \<open>Calls\<close>

lemma execute_total: "\<exists>r m'. execute_with_result_sink x H push p args b h s = Some (r, m')"
proof -
  have "\<exists>r m'. execute_inner x H push p args b h s = Some (r, m')"
  proof -
    have ne: "execute_frame x H push p c [] m = None \<longleftrightarrow> False" for c m using execute_frame_returns [of x H push p c "[]" m] by auto
    show ?thesis unfolding execute_inner_def Let_def by (auto simp: ne split: sum.split prod.split option.split)
  qed
  then obtain r m' where "execute_inner x H push p args b h s = Some (r, m')" by blast
  then show ?thesis by (cases r) (simp_all add: execute_with_result_sink_def)
qed

lemma execute_spends:
  assumes "execute_with_result_sink x H push p args b h s = Some (r, m')"
  shows "spends b (mbudget m')"
proof -
  have st: "mbudget (start_machine p b h s) = b" by (simp add: start_machine_def)
  have en: "on_budget enter_frame (start_machine p b h s) = (r1, m1) \<Longrightarrow> spends b (mbudget m1)" for r1 m1
    using enter_frame_spends [of b] st by (auto simp: on_budget_def split: prod.splits)
  have dr: "spends (mbudget m2) (mbudget (drop_frame m2))" for m2
    unfolding drop_frame_def by (simp add: spends_trans [OF charge_spends(6) charge_spends(8)])
  show ?thesis
  proof (rule meter.execute_cases [OF all_destinations assms])
    show ?thesis if "m' = start_machine p b h s" using that st by simp
    show ?thesis if "on_budget enter_frame (start_machine p b h s) = (Inl d, m')" for d using that by (rule en)
    show ?thesis if "on_budget enter_frame (start_machine p b h s) = (Inr (), m1)" "meter m1 m2" "m' = drop_frame m2" for m1 m2
      using en [OF that(1)] that(2) dr [of m2] unfolding that(3) meter_def by (blast intro: spends_trans)
  qed
qed

text \<open>
  C9. Every procedural call returns: for every program, verified or not, every host, every budget and every behaviour of the
  clock, the interpreter yields a result or a diagnostic. The loop of \<open>execute_frame\<close> goes from block to block until a
  block returns; that it cannot run forever rests on the instruction charge of every block.\<close>

theorem execute_returns: "\<exists>r m'. execute_with_result_sink x H push p args b h s = Some (r, m')"
  by (rule execute_total)

text \<open>
  C11. A call that starts on a fresh budget never takes a meter above the limits of its policy: instructions, live frames,
  heap, SQL statements, rows and result bytes are all within them when it ends, whatever the program does and whatever the host
  and the row sink charge and release in between.\<close>

theorem meters_within_limits:
  assumes "new_budget policy cancelled elapsed = Inr b" "execute_with_result_sink x H push p args b h s = Some (r, m')"
  shows "instructions (usage (mbudget m')) \<le> lim_instructions policy \<and> heap_bytes (usage (mbudget m')) \<le> lim_heap_bytes policy \<and>
    live_frames (usage (mbudget m')) \<le> lim_frames policy \<and> sql_statements (usage (mbudget m')) \<le> lim_sql_statements policy \<and>
    rows (usage (mbudget m')) \<le> lim_rows policy \<and> result_bytes (usage (mbudget m')) \<le> lim_result_bytes policy"
proof -
  have "limits b = policy" using assms(1) by (auto simp: new_budget_def validate_policy_def split: if_splits)
  moreover have "within_limits (mbudget m')" "limits (mbudget m') = limits b"
    using execute_spends [OF assms(2)] new_budget_within [OF assms(1)] by (simp_all add: spends_def)
  ultimately show ?thesis by (simp add: within_limits_def)
qed

theorem meters_within_limits_witness:
  "\<exists>r m'. execute_with_result_sink plain_code quiet_host reject_row sum_program [integer_value 2, integer_value 3] example_budget 0 () = Some (r, m')
     \<and> instructions (usage (mbudget m')) \<le> 10000000 \<and> live_frames (usage (mbudget m')) \<le> 64"
proof -
  obtain r m' where e: "execute_with_result_sink plain_code quiet_host reject_row sum_program [integer_value 2, integer_value 3] example_budget 0 () = Some (r, m')"
    using execute_total [of plain_code quiet_host reject_row sum_program "[integer_value 2, integer_value 3]" example_budget 0 "()"] by blast
  show ?thesis using meters_within_limits [OF example_budget_new e] e by (auto simp: default_call_def)
qed

end
