(* ===== verification/Proc_Typing.thy ===== *)
theory Proc_Typing
  imports Proc_Meter Proc_Flow
begin

text \<open>
  Types of slots. The frame checks every value it stores against the type of its slot, so a frame whose values have the
  types of their slots stays so through any step of any program, and a slot that has a value keeps having one. For a
  verified program this gives the contract of its callers: the OUT values and the return value of a call have the declared types.
\<close>

section \<open>Typed frames\<close>

definition typed_slots :: "external_code \<Rightarrow> slot_definition list \<Rightarrow> runtime_value option list \<Rightarrow> bool" where
  "typed_slots x defs slots \<longleftrightarrow>
     list_all2 (\<lambda>d s. case s of None \<Rightarrow> True | Some v \<Rightarrow> accepts x (runtime_type d) v) defs slots"

definition typed_frame :: "external_code \<Rightarrow> frame \<Rightarrow> bool" where
  "typed_frame x f \<longleftrightarrow> typed_slots x (frame_defs f) (frame_slots f)"

definition has_value :: "frame \<Rightarrow> slot_id \<Rightarrow> bool" where
  "has_value f s \<longleftrightarrow> s < length (frame_slots f) \<and> frame_slots f ! s \<noteq> None"

definition keeps_types :: "external_code \<Rightarrow> ('h, 's) machine \<Rightarrow> ('h, 's) machine \<Rightarrow> bool" where
  "keeps_types x m m' \<longleftrightarrow>
     frame_defs (mframe m') = frame_defs (mframe m) \<and> length (frame_slots (mframe m')) = length (frame_slots (mframe m)) \<and>
     (typed_frame x (mframe m) \<longrightarrow> typed_frame x (mframe m')) \<and>
     (\<forall>s. has_value (mframe m) s \<longrightarrow> has_value (mframe m') s)"

lemma new_frame_typed: "typed_frame x (new_frame defs)"
  by (auto simp: typed_frame_def typed_slots_def new_frame_def list_all2_conv_all_nth split: runtime_type.split)

lemma check_assignments_typed:
  "check_assignments x f sp dvs a b = Inr r \<Longrightarrow> (d, v) \<in> set dvs \<Longrightarrow>
     d < length (frame_defs f) \<and> accepts x (runtime_type (frame_defs f ! d)) v"
  by (induction x f sp dvs a b rule: check_assignments.induct) (auto split: option.splits if_splits)

lemma store_values_length [simp]: "length (store_values dvs slots) = length slots"
  unfolding store_values_def by (induction dvs arbitrary: slots) (auto split: prod.split)

lemma store_values_Cons: "store_values ((d, v) # dvs) slots = store_values dvs (slots[d := Some v])"
  by (simp add: store_values_def)

lemma store_values_Nil: "store_values [] slots = slots"
  by (simp add: store_values_def)

lemma store_values_typed:
  "typed_slots x defs slots \<Longrightarrow> \<forall>(d, v) \<in> set dvs. d < length defs \<and> accepts x (runtime_type (defs ! d)) v \<Longrightarrow>
     typed_slots x defs (store_values dvs slots)"
proof (induction dvs arbitrary: slots)
  case (Cons dv dvs)
  obtain d v where dv: "dv = (d, v)" by (rule prod.exhaust)
  have "typed_slots x defs (slots[d := Some v])"
    using Cons.prems dv by (auto simp: typed_slots_def list_all2_conv_all_nth nth_list_update)
  then show ?case using Cons dv by (simp add: store_values_Cons)
qed (simp add: store_values_Nil)

lemma store_values_some:
  "s < length slots \<Longrightarrow> store_values dvs slots ! s \<noteq> None \<longleftrightarrow> slots ! s \<noteq> None \<or> s \<in> fst ` set dvs"
proof (induction dvs arbitrary: slots)
  case (Cons dv dvs)
  obtain d v where dv: "dv = (d, v)" by (rule prod.exhaust)
  show ?case using Cons.IH [of "slots[d := Some v]"] Cons.prems dv by (cases "s = d") (auto simp: store_values_Cons)
qed (simp add: store_values_Nil)

text \<open>The frame after an assignment.\<close>

lemma assign_many_frame:
  assumes "assign_many x ds vs sp m = (r, m')"
  obtains (failed) e where "r = Inl e" "mframe m' = mframe m"
  | (stored) old_bytes new_bytes where "r = Inr ()" "length ds = length vs"
      "check_assignments x (mframe m) sp (zip ds vs) 0 0 = Inr (old_bytes, new_bytes)"
      "frame_defs (mframe m') = frame_defs (mframe m)"
      "frame_slots (mframe m') = store_values (zip ds vs) (frame_slots (mframe m))"
      "frame_heap (mframe m') = saturating_add_u64 (frame_heap (mframe m) - old_bytes) new_bytes"
  using assms unfolding assign_many_def by (auto simp: Let_def split: if_splits sum.splits prod.splits)

lemma assign_many_types: "keeps_types x m (snd (assign_many x ds vs sp m))"
proof -
  obtain r m' where a: "assign_many x ds vs sp m = (r, m')" by (rule prod.exhaust)
  from a show ?thesis
  proof (cases rule: assign_many_frame)
    case failed
    then show ?thesis by (simp add: a keeps_types_def)
  next
    case (stored old_bytes new_bytes)
    have "\<forall>(d, v) \<in> set (zip ds vs). d < length (frame_defs (mframe m)) \<and> accepts x (runtime_type (frame_defs (mframe m) ! d)) v"
      using check_assignments_typed [OF stored(3)] by auto
    then have "typed_frame x (mframe m) \<Longrightarrow> typed_frame x (mframe m')"
      unfolding typed_frame_def stored(4,5) by (auto intro: store_values_typed)
    moreover have "has_value (mframe m) s \<Longrightarrow> has_value (mframe m') s" for s
      unfolding has_value_def stored(5) using store_values_some [of s "frame_slots (mframe m)" "zip ds vs"] by simp
    ultimately show ?thesis using stored(4,5) by (simp add: a keeps_types_def)
  qed
qed

interpretation types: machine_relation x H "\<lambda>_. True" "\<lambda>_ _. True" "keeps_types x"
  by unfold_locales (auto simp: assign_many_types, auto simp: keeps_types_def)

section \<open>How a call ends\<close>

text \<open>A call that succeeds ends with a return from some block, in a frame that the run has kept typed.\<close>

lemma run_block_returned:
  assumes "run_block x H push p c rs m = (Finished (Inr out), rs', m')"
  obtains b v rs0 m0 where "b \<in> set (prog_blocks p)" "fst (block_terminator b) = Return v" "keeps_types x m m0"
    "run_return H p v rs0 m0 = (Finished (Inr out), rs', m')"
proof -
  obtain b where b: "nth_opt (prog_blocks p) c = Some b" using assms by (cases "nth_opt (prog_blocks p) c") (simp_all add: run_block_def)
  obtain e rs1 m1 where 1: "run_instructions x H push (result_columns p) (block_instructions b) rs m = (e, rs1, m1)" by (metis prod.exhaust)
  have no: "run_instructions x H push cs is rs m \<noteq> (Some (Finished (Inr out)), rs1, m1)" for cs "is" rs m rs1 m1
    by (induction "is" arbitrary: rs m) (auto simp: routed_def split: sum.splits prod.splits)
  have ne: "e \<noteq> Some (Finished (Inr out))" using no 1 by blast
  obtain r2 m2 where 2: "on_budget (charge_instructions 1) m1 = (r2, m2)" by (rule prod.exhaust)
  have e: "e = None" "r2 = Inr ()" and t: "run_terminator x H p (block_terminator b) rs1 m2 = (Finished (Inr out), rs', m')"
    using assms ne unfolding run_block_def b option.case 1 prod.case 2 by (auto split: option.splits sum.splits)
  have "keeps_types x m m1"
    using types.run_instructions_keeps [of "block_instructions b" x m H push "result_columns p" rs] 1
    by (simp add: list_all_iff split: prod.split)
  moreover have "keeps_types x m1 m2" by (rule types.charge_keeps [OF 2])
  ultimately have k: "keeps_types x m m2" by (rule types.trans)
  obtain v where v: "fst (block_terminator b) = Return v"
    using t by (cases "fst (block_terminator b)")
      (auto simp: run_terminator_def jump_exit_def routed_def split: sum.splits prod.splits list.splits option.splits)
  have "run_return H p v rs1 m2 = (Finished (Inr out), rs', m')" using t v by (simp add: run_terminator_def)
  moreover have "b \<in> set (prog_blocks p)" using b by (auto simp: in_set_conv_nth)
  ultimately show ?thesis using v k by (rule_tac that)
qed

lemma execute_frame_returned:
  assumes "execute_frame x H push p c rs m = Some (Inr out, rs', m')"
  shows "\<exists>b v rs0 m0. b \<in> set (prog_blocks p) \<and> fst (block_terminator b) = Return v \<and> keeps_types x m m0 \<and>
    run_return H p v rs0 m0 = (Finished (Inr out), rs', m')"
  using assms
proof (induction c rs m rule: run_induct [where x = x and H = H and push = push and p = p])
  case (block c rs m)
  obtain e rs1 m1 where 1: "run_block x H push p c rs m = (e, rs1, m1)" by (metis prod.exhaust)
  show ?case
  proof (cases e)
    case (Continue t)
    then have "execute_frame x H push p t rs1 m1 = Some (Inr out, rs', m')"
      using block.prems 1 execute_frame.simps [of x H push p c rs m] by simp
    moreover have "keeps_types x m m1" using types.run_block_keeps [of p x m H push c rs] 1 by simp
    ultimately show ?thesis using block.IH 1 Continue types.trans by blast
  next
    case (Finished r)
    then have "run_block x H push p c rs m = (Finished (Inr out), rs', m')"
      using block.prems 1 execute_frame.simps [of x H push p c rs m] by simp
    then show ?thesis by (rule run_block_returned) blast
  qed
qed

lemma run_return_values:
  assumes "run_return H p v rs m = (Finished (Inr out), rs', m')"
  shows "map_res (\<lambda>s. rbind (frame_read (mframe m) s) (\<lambda>v. Inr (clone_value v))) (output_slots p) = Inr (output_values out)"
    and "case v of None \<Rightarrow> return_value out = None
         | Some s \<Rightarrow> \<exists>w. frame_read (mframe m) s = Inr w \<and> return_value out = Some (clone_value w)"
proof -
  obtain m1 where "return_values p v m = (Inr (return_value out, output_values out), m1)"
    using assms by (auto simp: run_return_def split: sum.splits prod.splits)
  then show "map_res (\<lambda>s. rbind (frame_read (mframe m) s) (\<lambda>v. Inr (clone_value v))) (output_slots p) = Inr (output_values out)"
    and "case v of None \<Rightarrow> return_value out = None
         | Some s \<Rightarrow> \<exists>w. frame_read (mframe m) s = Inr w \<and> return_value out = Some (clone_value w)"
    by (auto simp: return_values_def read_return_def read_all_slots_def andthen_def from_result_def on_budget_def succeed_def
        split: option.splits sum.splits prod.splits)
qed

lemma execute_returned:
  assumes "execute_with_result_sink x H push p args b h s = Some (Inr out, m')"
  obtains bl v rs0 m0 rs1 m1 where "bl \<in> set (prog_blocks p)" "fst (block_terminator bl) = Return v"
    "keeps_types x (start_machine p b h s) m0" "run_return H p v rs0 m0 = (Finished (Inr out), rs1, m1)"
proof -
  let ?m = "start_machine p b h s" and ?f = "andthen (assign_many x (parameter_slots p) args None) (\<lambda>_. on_budget check_boundary)"
  have i: "execute_inner x H push p args b h s = Some (Inr out, m')"
    using assms by (auto simp: execute_with_result_sink_def split: option.splits sum.splits)
  obtain r1 m1 where 1: "on_budget enter_frame ?m = (r1, m1)" by (rule prod.exhaust)
  obtain r2 m2 where 2: "?f m1 = (r2, m2)" by (rule prod.exhaust)
  obtain r3 rs3 m3 where 3: "execute_frame x H push p (prog_entry p) [] m2 = Some (r3, rs3, m3)" using execute_frame_returns by blast
  have r: "r3 = Inr out"
    using i unfolding execute_inner_def Let_def 1 prod.case 2
    by (auto simp: 3 finish_frame_def split: if_splits sum.splits prod.splits)
  have f: "keeps (keeps_types x) ?f" by (intro types.keeps_all TrueI)
  have "keeps_types x m1 m2" by (rule keepsD [OF f 2])
  moreover have "keeps_types x ?m m1" by (rule keepsD [OF types.keeps_on_budget 1]) simp
  ultimately have k: "keeps_types x ?m m2" using types.trans by blast
  obtain bl v rs0 m0 where m0: "bl \<in> set (prog_blocks p)" "fst (block_terminator bl) = Return v" "keeps_types x m2 m0"
    "run_return H p v rs0 m0 = (Finished (Inr out), rs3, m3)" using execute_frame_returned [of x H push p] 3 r by blast
  have "keeps_types x ?m m0" by (rule types.trans [OF k m0(3)])
  then show ?thesis using m0(1,2,4) by (rule_tac that)
qed

lemma typed_read:
  assumes "typed_frame x f" "frame_read f s = Inr v"
  shows "s < length (frame_defs f)" "accepts x (runtime_type (frame_defs f ! s)) v"
  using assms by (auto simp: frame_read_def typed_frame_def typed_slots_def list_all2_conv_all_nth split: option.splits)

section \<open>The contract of a call\<close>

text \<open>
  C10. A verified routine that returns gives its caller what its signature declares: one value of the declared type for every
  OUT parameter, and a return value of the declared type exactly if the routine has one. This holds for any host, including
  one whose answers have other types, since every value is checked where it is stored.\<close>

theorem results_typed:
  assumes "verify x p = Some (Inr p)" "execute_with_result_sink x H push p args b h s = Some (Inr out, m')"
  shows "list_all2 (\<lambda>slot v. accepts x (runtime_type (prog_slots p ! slot)) v) (output_slots p) (output_values out) \<and>
    (case result_type p of None \<Rightarrow> return_value out = None | Some t \<Rightarrow> \<exists>v. return_value out = Some v \<and> accepts x t v)"
proof -
  obtain bl v rs0 m0 rs1 m1 where r: "bl \<in> set (prog_blocks p)" "fst (block_terminator bl) = Return v"
    "keeps_types x (start_machine p b h s) m0" "run_return H p v rs0 m0 = (Finished (Inr out), rs1, m1)"
    by (rule execute_returned [OF assms(2)])
  have d: "frame_defs (mframe m0) = prog_slots p" and t: "typed_frame x (mframe m0)"
    using r(3) new_frame_typed [of x "prog_slots p"] by (simp_all add: keeps_types_def start_machine_def) (simp add: new_frame_def)
  have acc: "accepts x (runtime_type (prog_slots p ! sl)) (clone_value w)" if "frame_read (mframe m0) sl = Inr w" for sl w
    using typed_read(2) [OF t that] by (simp add: d)
  have "list_all2 (\<lambda>slot v. accepts x (runtime_type (prog_slots p ! slot)) v) (output_slots p) (output_values out)"
    using map_res_Inr [OF run_return_values(1) [OF r(4)]] by (rule list_all2_mono) (use acc in auto)
  moreover have "verify_terminator p (snd (block_terminator bl)) (Return v) = Inr ()"
    using verified(9) [OF assms(1) r(1)] r(2) by (simp add: verify_block_types_def del: verify_terminator.simps)
  then have "case result_type p of None \<Rightarrow> return_value out = None | Some t \<Rightarrow> \<exists>v. return_value out = Some v \<and> accepts x t v"
    using run_return_values(2) [OF r(4)] acc by (auto simp: slot_def_def split: option.splits)
  ultimately show ?thesis by blast
qed

text \<open>The example routine is verified and returns the sum.\<close>

lemma sum_program_verified: "verify plain_code sum_program = Some (Inr sum_program)"
proof -
  have "verify_signature sum_program = Inr ()"
    by (simp add: verify_signature_def sum_program_def integer_slot_def cong del: rbind_cong)
  moreover have "verify_limits sum_program = Inr ()"
    by (simp add: verify_limits_def sum_program_def integer_slot_def type_nodes_def or_invalid_def checked_add_u64_def
        MAX_STATIC_IR_INSTRUCTIONS_def MAX_STATIC_IR_NODES_def cong del: rbind_cong)
  moreover have "verify_blocks plain_code sum_program = Inr ()" by code_simp
  moreover have "prog_entry sum_program = 0" "parameter_slots sum_program = [0, 1]" "output_slots sum_program = [2]"
    "length (prog_slots sum_program) = 3" "length (prog_blocks sum_program) = 1" by (simp_all add: sum_program_def)
  moreover have "successors sum_program = [[]]" "predecessors sum_program = [[]]" by code_simp+
  moreover have "reachable_blocks 0 [[]] = Some [True]" by (simp add: reachable_blocks_def reach_loop.simps)
  moreover have "verify_definite_initialization sum_program 0 [[]] = Some (Inr ())"
  proof -
    have 1: "flow_pass sum_program 0 [[]] (flow_start sum_program 0) = \<lparr>incoming = [[True, True, False]], outgoing = [[True, True, True]], flow_changed = True\<rparr>"
      by code_simp
    have 2: "flow_pass sum_program 0 [[]] \<lparr>incoming = [[True, True, False]], outgoing = [[True, True, True]], flow_changed = True\<rparr> =
       \<lparr>incoming = [[True, True, False]], outgoing = [[True, True, True]], flow_changed = False\<rparr>"
      by code_simp
    have "flow_loop sum_program 0 [[]] (flow_start sum_program 0) = Some \<lparr>incoming = [[True, True, False]], outgoing = [[True, True, True]], flow_changed = False\<rparr>"
      by (subst flow_loop.simps, simp add: 1, subst flow_loop.simps, simp add: 2)
    moreover have "each_res (\<lambda>(init, b). check_block sum_program init b) (zip [[True, True, False]] (prog_blocks sum_program)) = Inr ()"
      by code_simp
    ultimately show ?thesis by (simp add: verify_definite_initialization_def)
  qed
  ultimately show ?thesis by (intro verifyI [where reach = "[True]"]) simp_all
qed

lemmas exec_defs = andthen_def from_result_def on_budget_def succeed_def fail_def check_boundary_def poll_def deadline_nanos_def
  charge_instructions_def charge_result_bytes_def charge_u64_def checked_add_u64_def enter_frame_def u32_max_def

lemmas store_defs = assign_def assign_many_def scalar_accepts_def scalar_descriptor_def saturating_add_u64_def store_values_def
  frame_read_def nth_opt_def

lemma sum_program_runs:
  "\<exists>m'. execute_with_result_sink plain_code quiet_host reject_row sum_program [integer_value 2, integer_value 3] example_budget 0 () =
     Some (Inr \<lparr>return_value = None, output_values = [integer_value 5], outcome_rows = 0, outcome_status = default_status\<rparr>, m')"
  by (simp add: execute_with_result_sink_def execute_inner_def start_machine_def new_frame_def sum_program_def integer_slot_def
        exec_defs store_defs example_budget_def default_call_def empty_snapshot_def cong del: rbind_cong)
     (simp add: execute_frame.simps run_block_def run_one_def exec_defs store_defs integer_add_checked_def integer_binary_def checked_add_i64_def
        run_terminator_def run_return_def return_values_def read_return_def read_all_slots_def close_all_cursors_checked_def open_tokens_def
        finish_frame_def cong del: rbind_cong)

theorem results_typed_witness:
  "verify plain_code sum_program = Some (Inr sum_program) \<and>
   (\<exists>out m'. execute_with_result_sink plain_code quiet_host reject_row sum_program [integer_value 2, integer_value 3] example_budget 0 () = Some (Inr out, m') \<and>
     output_values out = [integer_value 5] \<and>
     list_all2 (\<lambda>slot v. accepts plain_code (runtime_type (prog_slots sum_program ! slot)) v) (output_slots sum_program) (output_values out))"
proof -
  obtain m' where e: "execute_with_result_sink plain_code quiet_host reject_row sum_program [integer_value 2, integer_value 3] example_budget 0 () =
     Some (Inr \<lparr>return_value = None, output_values = [integer_value 5], outcome_rows = 0, outcome_status = default_status\<rparr>, m')"
    using sum_program_runs by (rule exE)
  show ?thesis using results_typed [OF sum_program_verified e] sum_program_verified e by simp
qed

end
